(* ===== verification/Prelude.thy ===== *)
theory Prelude
  imports Main "HOL-Library.Word" "HOL-Library.Sublist"
begin

text \<open>
  Shared vocabulary of the development: the result type of fallible Rust functions, the
  fixed-width integer operations the code relies on (saturating and wrapping 64-bit arithmetic),
  and the byte-string operations of the Rust standard library that several components use
  (\<open>trim\<close>, \<open>strip_prefix\<close>, \<open>find\<close>, \<open>rfind\<close>, \<open>split\<close>, ASCII classification).
  A Rust \<open>str\<close> is UTF-8, so it is modelled as the list of its bytes (a HOL \<open>string\<close>).
\<close>

named_theorems ascii_simps \<open>definitions of the ASCII character classes\<close>
named_theorems sat_simps \<open>definitions of the saturating operations\<close>

section \<open>Results\<close>

type_synonym ('e, 'a) result = "'e + 'a"

abbreviation Err :: "'e \<Rightarrow> ('e, 'a) result" where "Err \<equiv> Inl"
abbreviation Ok :: "'a \<Rightarrow> ('e, 'a) result" where "Ok \<equiv> Inr"

definition rbind :: "('e, 'a) result \<Rightarrow> ('a \<Rightarrow> ('e, 'b) result) \<Rightarrow> ('e, 'b) result" where
  "rbind r f = (case r of Err e \<Rightarrow> Err e | Ok x \<Rightarrow> f x)"

lemma rbind_simps [simp]: "rbind (Err e) f = Err e" "rbind (Ok x) f = f x"
  by (simp_all add: rbind_def)

lemma rbind_Ok_iff: "rbind r f = Ok y \<longleftrightarrow> (\<exists>x. r = Ok x \<and> f x = Ok y)"
  by (cases r) simp_all

section \<open>Machine integers\<close>

text \<open>
  Rust's \<open>i64\<close> and \<open>u64\<close> values are read as integers; an operation that can leave the range is
  written with the saturation or the wrap-around the source asks for (release builds wrap).
\<close>

type_synonym i64 = int

definition i64_min :: int where "i64_min = - (2 ^ 63)"
definition i64_max :: int where "i64_max = 2 ^ 63 - 1"

definition in_i64 :: "int \<Rightarrow> bool" where
  "in_i64 x \<longleftrightarrow> i64_min \<le> x \<and> x \<le> i64_max"

definition sat_i64 :: "int \<Rightarrow> int" where
  "sat_i64 x = (if x < i64_min then i64_min else if i64_max < x then i64_max else x)"

definition wrap_i64 :: "int \<Rightarrow> int" where
  "wrap_i64 x = (x + 2 ^ 63) mod 2 ^ 64 - 2 ^ 63"

definition sat_add :: "int \<Rightarrow> int \<Rightarrow> int" where [sat_simps]: "sat_add a b = sat_i64 (a + b)"
definition sat_sub :: "int \<Rightarrow> int \<Rightarrow> int" where [sat_simps]: "sat_sub a b = sat_i64 (a - b)"
definition sat_mul :: "int \<Rightarrow> int \<Rightarrow> int" where [sat_simps]: "sat_mul a b = sat_i64 (a * b)"

text \<open>\<open>Ord::clamp\<close>.\<close>

definition clamp_to :: "int \<Rightarrow> int \<Rightarrow> int \<Rightarrow> int" where
  "clamp_to low high v = (if v < low then low else if high < v then high else v)"

lemma i64_bounds: "i64_min = -9223372036854775808" "i64_max = 9223372036854775807"
  by (simp_all add: i64_min_def i64_max_def)

lemma sat_i64_range [simp, intro]: "in_i64 (sat_i64 x)"
  by (simp add: in_i64_def sat_i64_def i64_bounds)

lemma sat_i64_id [simp]: "in_i64 x \<Longrightarrow> sat_i64 x = x"
  by (simp add: in_i64_def sat_i64_def)

lemma sat_i64_mono: "x \<le> y \<Longrightarrow> sat_i64 x \<le> sat_i64 y"
  by (auto simp: sat_i64_def i64_bounds)

lemma wrap_i64_range: "in_i64 (wrap_i64 x)"
  using pos_mod_bound [of "2 ^ 64" "x + 2 ^ 63"] pos_mod_sign [of "2 ^ 64" "x + 2 ^ 63"]
  by (simp add: wrap_i64_def in_i64_def i64_bounds)

lemma wrap_i64_id: "in_i64 x \<Longrightarrow> wrap_i64 x = x"
  by (simp add: wrap_i64_def in_i64_def i64_bounds)

lemma clamp_to_range: "low \<le> high \<Longrightarrow> clamp_to low high v \<in> {low..high}"
  by (simp add: clamp_to_def)

section \<open>ASCII classes\<close>

abbreviation code :: "char \<Rightarrow> nat" where "code \<equiv> of_char"

definition is_ascii_digit :: "char \<Rightarrow> bool" where
  [ascii_simps]: "is_ascii_digit c \<longleftrightarrow> 48 \<le> code c \<and> code c \<le> 57"

definition is_ascii_upper :: "char \<Rightarrow> bool" where
  [ascii_simps]: "is_ascii_upper c \<longleftrightarrow> 65 \<le> code c \<and> code c \<le> 90"

definition is_ascii_lower :: "char \<Rightarrow> bool" where
  [ascii_simps]: "is_ascii_lower c \<longleftrightarrow> 97 \<le> code c \<and> code c \<le> 122"

definition is_ascii_alphanumeric :: "char \<Rightarrow> bool" where
  [ascii_simps]: "is_ascii_alphanumeric c \<longleftrightarrow> is_ascii_digit c \<or> is_ascii_upper c \<or> is_ascii_lower c"

definition is_ascii_hexdigit :: "char \<Rightarrow> bool" where
  [ascii_simps]: "is_ascii_hexdigit c \<longleftrightarrow> is_ascii_digit c \<or> (65 \<le> code c \<and> code c \<le> 70)
     \<or> (97 \<le> code c \<and> code c \<le> 102)"

definition to_ascii_upper :: "char \<Rightarrow> char" where
  "to_ascii_upper c = (if is_ascii_lower c then char_of (code c - 32) else c)"

definition to_ascii_lower :: "char \<Rightarrow> char" where
  "to_ascii_lower c = (if is_ascii_upper c then char_of (code c + 32) else c)"

definition eq_ignore_ascii_case :: "string \<Rightarrow> string \<Rightarrow> bool" where
  "eq_ignore_ascii_case a b \<longleftrightarrow> map to_ascii_lower a = map to_ascii_lower b"

lemma code_to_ascii_upper: "code (to_ascii_upper c) = (if is_ascii_lower c then code c - 32 else code c)"
  by (auto simp: to_ascii_upper_def is_ascii_lower_def)

lemma code_to_ascii_lower: "code (to_ascii_lower c) = (if is_ascii_upper c then code c + 32 else code c)"
  by (auto simp: to_ascii_lower_def is_ascii_upper_def)

lemma to_ascii_upper_idem [simp]: "to_ascii_upper (to_ascii_upper c) = to_ascii_upper c"
  by (subst to_ascii_upper_def) (auto simp: is_ascii_lower_def code_to_ascii_upper)

lemma to_ascii_lower_idem [simp]: "to_ascii_lower (to_ascii_lower c) = to_ascii_lower c"
  by (subst to_ascii_lower_def) (auto simp: is_ascii_upper_def code_to_ascii_lower)

section \<open>Byte-string operations\<close>

definition newline :: char where "newline = CHR 0x0A"
definition quote :: char where "quote = CHR 0x22"

definition starts_with :: "string \<Rightarrow> string \<Rightarrow> bool" where
  "starts_with p s \<longleftrightarrow> take (length p) s = p"

definition ends_with :: "string \<Rightarrow> string \<Rightarrow> bool" where
  "ends_with p s \<longleftrightarrow> length p \<le> length s \<and> drop (length s - length p) s = p"

definition strip_prefix :: "string \<Rightarrow> string \<Rightarrow> string option" where
  "strip_prefix p s = (if starts_with p s then Some (drop (length p) s) else None)"

lemma starts_with_append [simp]: "starts_with p (p @ s)"
  by (simp add: starts_with_def)

lemma starts_with_iff: "starts_with p s \<longleftrightarrow> (\<exists>r. s = p @ r)"
  by (metis append_take_drop_id starts_with_append starts_with_def)

lemma strip_prefix_append [simp]: "strip_prefix p (p @ s) = Some s"
  by (simp add: strip_prefix_def)

lemma strip_prefix_Some: "strip_prefix p s = Some r \<longleftrightarrow> s = p @ r"
  by (auto simp: strip_prefix_def starts_with_iff split: if_splits)

text \<open>\<open>find\<close> and \<open>rfind\<close>: the first and the last index at which a pattern occurs.\<close>

fun find_sub :: "string \<Rightarrow> string \<Rightarrow> nat option" where
  "find_sub p [] = (if p = [] then Some 0 else None)"
| "find_sub p (c # s) = (if starts_with p (c # s) then Some 0 else map_option Suc (find_sub p s))"

fun rfind_sub :: "string \<Rightarrow> string \<Rightarrow> nat option" where
  "rfind_sub p [] = (if p = [] then Some 0 else None)"
| "rfind_sub p (c # s) =
     (case rfind_sub p s of
        Some i \<Rightarrow> Some (Suc i)
      | None \<Rightarrow> if starts_with p (c # s) then Some 0 else None)"

definition contains_sub :: "string \<Rightarrow> string \<Rightarrow> bool" where
  "contains_sub p s \<longleftrightarrow> find_sub p s \<noteq> None"

text \<open>\<open>s.split(c)\<close>: always at least one part, the parts joined by \<open>c\<close> give \<open>s\<close> back.\<close>

fun split_on :: "char \<Rightarrow> string \<Rightarrow> string list" where
  "split_on c [] = [[]]"
| "split_on c (x # xs) =
     (if x = c then [] # split_on c xs
      else case split_on c xs of [] \<Rightarrow> [[x]] | p # ps \<Rightarrow> (x # p) # ps)"

fun join_with :: "char \<Rightarrow> string list \<Rightarrow> string" where
  "join_with c [] = []"
| "join_with c [p] = p"
| "join_with c (p # q # ps) = p @ c # join_with c (q # ps)"

lemma split_on_nonempty [simp]: "split_on c s \<noteq> []"
  by (induction s) (auto split: list.splits)

lemma join_split [simp]: "join_with c (split_on c s) = s"
proof (induction s)
  case (Cons x xs)
  obtain p ps where ps: "split_on c xs = p # ps" by (meson neq_Nil_conv split_on_nonempty)
  with Cons have "join_with c (p # ps) = xs" by simp
  then show ?case by (cases ps) (auto simp: ps)
qed simp

lemma split_on_no_sep: "p \<in> set (split_on c s) \<Longrightarrow> c \<notin> set p"
  by (induction s arbitrary: p) (auto split: if_splits list.splits)

lemma split_on_single [simp]: "c \<notin> set p \<Longrightarrow> split_on c p = [p]"
  by (induction p) auto

lemma split_on_append_sep: "c \<notin> set p \<Longrightarrow> split_on c (p @ c # s) = p # split_on c s"
  by (induction p) auto

text \<open>
  \<open>str::trim\<close> removes the code points with the Unicode property White\_Space at both ends. On the
  UTF-8 bytes these are the ASCII bytes 9--13 and 32 and the encodings of U+0085, U+00A0, U+1680,
  U+2000--U+200A, U+2028, U+2029, U+202F, U+205F and U+3000. \<open>ws_len\<close> is the length of the
  white-space code point a string starts with (0 if there is none); \<open>ws_len_rev\<close> reads the
  reversed bytes for the other end.
\<close>

definition ws2 :: "nat \<Rightarrow> nat \<Rightarrow> bool" where
  "ws2 a b \<longleftrightarrow> a = 0xC2 \<and> (b = 0x85 \<or> b = 0xA0)"

definition ws3 :: "nat \<Rightarrow> nat \<Rightarrow> nat \<Rightarrow> bool" where
  "ws3 a b c \<longleftrightarrow> a = 0xE1 \<and> b = 0x9A \<and> c = 0x80
     \<or> a = 0xE2 \<and> b = 0x80 \<and> (0x80 \<le> c \<and> c \<le> 0x8A \<or> c = 0xA8 \<or> c = 0xA9 \<or> c = 0xAF)
     \<or> a = 0xE2 \<and> b = 0x81 \<and> c = 0x9F
     \<or> a = 0xE3 \<and> b = 0x80 \<and> c = 0x80"

definition ascii_ws :: "char \<Rightarrow> bool" where
  "ascii_ws c \<longleftrightarrow> 9 \<le> code c \<and> code c \<le> 13 \<or> code c = 32"

fun ws_len :: "string \<Rightarrow> nat" where
  "ws_len [] = 0"
| "ws_len (a # s) =
     (if ascii_ws a then 1
      else case s of
        [] \<Rightarrow> 0
      | b # t \<Rightarrow> if ws2 (code a) (code b) then 2
          else case t of [] \<Rightarrow> 0 | c # _ \<Rightarrow> if ws3 (code a) (code b) (code c) then 3 else 0)"

fun ws_len_rev :: "string \<Rightarrow> nat" where
  "ws_len_rev [] = 0"
| "ws_len_rev (a # s) =
     (if ascii_ws a then 1
      else case s of
        [] \<Rightarrow> 0
      | b # t \<Rightarrow> if ws2 (code b) (code a) then 2
          else case t of [] \<Rightarrow> 0 | c # _ \<Rightarrow> if ws3 (code c) (code b) (code a) then 3 else 0)"

lemma ws_len_le: "ws_len s \<le> length s" "ws_len_rev s \<le> length s"
  by (cases s; auto split: list.splits)+

function strip_ws :: "(string \<Rightarrow> nat) \<Rightarrow> string \<Rightarrow> string" where
  "strip_ws w s = (if w s = 0 \<or> s = [] then s else strip_ws w (drop (w s) s))"
  by pat_completeness auto
termination
  by (relation "measure (\<lambda>(w, s). length s)") auto

declare strip_ws.simps [simp del]

definition trim :: "string \<Rightarrow> string" where
  "trim s = rev (strip_ws ws_len_rev (rev (strip_ws ws_len s)))"

lemma strip_ws_id: "w s = 0 \<Longrightarrow> strip_ws w s = s"
  by (subst strip_ws.simps) simp

lemma trim_id: "ws_len s = 0 \<Longrightarrow> ws_len_rev (rev s) = 0 \<Longrightarrow> trim s = s"
  by (simp add: trim_def strip_ws_id)

lemma strip_ws_stripped: "w [] = 0 \<Longrightarrow> w (strip_ws w s) = 0"
  by (induction w s rule: strip_ws.induct) (subst strip_ws.simps, auto)

lemma strip_ws_suffix: "\<exists>p. s = p @ strip_ws w s"
proof (induction w s rule: strip_ws.induct)
  case (1 w s)
  show ?case
  proof (cases "w s = 0 \<or> s = []")
    case True
    then have "strip_ws w s = s" by (subst strip_ws.simps) simp
    then show ?thesis by simp
  next
    case False
    with 1 obtain p where "drop (w s) s = p @ strip_ws w (drop (w s) s)" by auto
    then have "s = (take (w s) s @ p) @ strip_ws w (drop (w s) s)"
      by (metis append_assoc append_take_drop_id)
    moreover from False have "strip_ws w s = strip_ws w (drop (w s) s)"
      by (subst strip_ws.simps) simp
    ultimately show ?thesis by metis
  qed
qed

lemma set_trim_subset: "set (trim s) \<subseteq> set s"
proof -
  obtain p where p: "s = p @ strip_ws ws_len s" using strip_ws_suffix by blast
  obtain q where q: "rev (strip_ws ws_len s) = q @ strip_ws ws_len_rev (rev (strip_ws ws_len s))"
    using strip_ws_suffix by blast
  from q have "set (trim s) \<subseteq> set (strip_ws ws_len s)"
    unfolding trim_def by (metis Un_upper2 set_append set_rev)
  moreover from p have "set (strip_ws ws_len s) \<subseteq> set s" by (metis Un_upper2 set_append)
  ultimately show ?thesis by blast
qed

section \<open>Decimal rendering of integers\<close>

fun show_nat :: "nat \<Rightarrow> string" where
  "show_nat n = (if n < 10 then [char_of (48 + n)] else show_nat (n div 10) @ [char_of (48 + n mod 10)])"

declare show_nat.simps [simp del]

definition show_int :: "int \<Rightarrow> string" where
  "show_int i = (if i < 0 then CHR ''-'' # show_nat (nat (- i)) else show_nat (nat i))"

fun read_nat :: "nat \<Rightarrow> string \<Rightarrow> nat" where
  "read_nat acc [] = acc"
| "read_nat acc (c # s) = read_nat (10 * acc + (code c - 48)) s"

lemma read_nat_append: "read_nat acc (s @ t) = read_nat (read_nat acc s) t"
  by (induction s arbitrary: acc) auto

lemma read_show_nat: "read_nat 0 (show_nat n) = n"
proof (induction n rule: show_nat.induct)
  case (1 n)
  then show ?case
    by (subst show_nat.simps) (auto simp: read_nat_append)
qed

lemma show_nat_inj: "show_nat m = show_nat n \<Longrightarrow> m = n"
  by (metis read_show_nat)

lemma show_nat_digits: "c \<in> set (show_nat n) \<Longrightarrow> is_ascii_digit c"
proof (induction n rule: show_nat.induct)
  case (1 n)
  show ?case
  proof (cases "n < 10")
    case True
    with 1(2) have "c = char_of (48 + n)" by (simp add: show_nat.simps)
    with True show ?thesis by (simp add: is_ascii_digit_def)
  next
    case False
    with 1(2) have "c \<in> set (show_nat (n div 10)) \<or> c = char_of (48 + n mod 10)"
      by (subst (asm) show_nat.simps) auto
    moreover have "48 + n mod 10 < 58" by simp
    ultimately show ?thesis using 1(1) False by (auto simp: is_ascii_digit_def)
  qed
qed

lemma show_nat_nonempty [simp]: "show_nat n \<noteq> []"
  by (subst show_nat.simps) simp

lemma show_int_inj: "show_int a = show_int b \<Longrightarrow> a = b"
proof -
  have minus: "CHR ''-'' # s \<noteq> show_nat n" for s n
  proof
    assume "CHR ''-'' # s = show_nat n"
    then have "CHR ''-'' \<in> set (show_nat n)" by (metis list.set_intros(1))
    then show False using show_nat_digits by (fastforce simp: is_ascii_digit_def)
  qed
  show "show_int a = show_int b \<Longrightarrow> a = b"
    by (auto simp: show_int_def minus minus [symmetric] dest!: show_nat_inj split: if_splits)
qed

lemma show_int_chars: "c \<in> set (show_int i) \<Longrightarrow> is_ascii_digit c \<or> c = CHR ''-''"
  by (auto simp: show_int_def dest: show_nat_digits split: if_splits)

text \<open>\<open>str::parse::<i64>\<close>: an optional sign, at least one digit, and a value in range.\<close>

definition parse_i64 :: "string \<Rightarrow> int option" where
  "parse_i64 s =
     (let (neg, ds) = (case s of
            c # r \<Rightarrow> if c = CHR ''-'' then (True, r) else if c = CHR ''+'' then (False, r) else (False, s)
          | [] \<Rightarrow> (False, s));
          v = (if neg then - int (read_nat 0 ds) else int (read_nat 0 ds))
      in if ds = [] \<or> \<not> list_all is_ascii_digit ds \<or> \<not> in_i64 v then None else Some v)"

lemma parse_show_int: "in_i64 i \<Longrightarrow> parse_i64 (show_int i) = Some i"
proof -
  assume i: "in_i64 i"
  have d: "list_all is_ascii_digit (show_nat n)" for n using show_nat_digits by (auto simp: list_all_iff)
  have pos: "parse_i64 (show_nat n) = (if in_i64 (int n) then Some (int n) else None)" for n
  proof (cases "show_nat n")
    case (Cons c r)
    then have "is_ascii_digit c" using d [of n] by simp
    then have "c \<noteq> CHR ''-''" "c \<noteq> CHR ''+''" by (auto simp: is_ascii_digit_def)
    then show ?thesis using Cons d [of n] read_show_nat [of n] by (simp add: parse_i64_def)
  qed simp
  show ?thesis
  proof (cases "i < 0")
    case True
    then show ?thesis using i d [of "nat (- i)"] by (simp add: parse_i64_def show_int_def read_show_nat)
  next
    case False
    then show ?thesis using i pos by (simp add: show_int_def)
  qed
qed

section \<open>Search\<close>

lemma find_Some_set: "find P xs = Some x \<Longrightarrow> x \<in> set xs \<and> P x"
  by (induction xs) (auto split: if_splits)

lemma find_None_set: "find P xs = None \<longleftrightarrow> (\<forall>x\<in>set xs. \<not> P x)"
  by (induction xs) auto

section \<open>Invariants of step relations\<close>

text \<open>
  The contract a component owes when its invariant is to hold in every state it can reach: the
  initial states satisfy it and every step keeps it. Each stateful component interprets this
  locale on its own step relation.
\<close>

locale invariant_system =
  fixes initial :: "'s \<Rightarrow> bool" and step :: "'s \<Rightarrow> 's \<Rightarrow> bool" and inv :: "'s \<Rightarrow> bool"
  assumes initial_inv: "initial s \<Longrightarrow> inv s"
    and step_inv: "inv s \<Longrightarrow> step s t \<Longrightarrow> inv t"
begin

lemma steps_inv: "step\<^sup>*\<^sup>* s t \<Longrightarrow> inv s \<Longrightarrow> inv t"
  by (induction rule: rtranclp_induct) (auto intro: step_inv)

lemma reachable_inv: "initial s \<Longrightarrow> step\<^sup>*\<^sup>* s t \<Longrightarrow> inv t"
  using steps_inv initial_inv by blast

end

section \<open>Hash maps\<close>

text \<open>
  \<open>std::collections::HashMap\<close> as an association list with distinct keys; the iteration order of the
  source is unspecified and nothing below depends on it.
\<close>

type_synonym ('k, 'v) hmap = "('k \<times> 'v) list"

definition hm_wf :: "('k, 'v) hmap \<Rightarrow> bool" where
  "hm_wf m \<longleftrightarrow> distinct (map fst m)"

definition hm_get :: "('k, 'v) hmap \<Rightarrow> 'k \<Rightarrow> 'v option" where
  "hm_get m k = map_of m k"

definition hm_remove :: "'k \<Rightarrow> ('k, 'v) hmap \<Rightarrow> ('k, 'v) hmap" where
  "hm_remove k m = filter (\<lambda>e. fst e \<noteq> k) m"

definition hm_insert :: "'k \<Rightarrow> 'v \<Rightarrow> ('k, 'v) hmap \<Rightarrow> ('k, 'v) hmap" where
  "hm_insert k v m = (k, v) # hm_remove k m"

definition hm_retain :: "('k \<Rightarrow> 'v \<Rightarrow> bool) \<Rightarrow> ('k, 'v) hmap \<Rightarrow> ('k, 'v) hmap" where
  "hm_retain P m = filter (\<lambda>e. P (fst e) (snd e)) m"

lemma hm_wf_nil [simp]: "hm_wf []"
  by (simp add: hm_wf_def)

lemma hm_wf_filter: "hm_wf m \<Longrightarrow> hm_wf (filter P m)"
  by (simp add: hm_wf_def distinct_map_filter)

lemma hm_wf_ops [simp]:
  "hm_wf m \<Longrightarrow> hm_wf (hm_remove k m)" "hm_wf m \<Longrightarrow> hm_wf (hm_retain P m)" "hm_wf m \<Longrightarrow> hm_wf (hm_insert k v m)"
  by (auto simp: hm_remove_def hm_retain_def hm_insert_def hm_wf_filter) (auto simp: hm_wf_def distinct_map_filter)

lemma hm_get_nil [simp]: "hm_get [] k = None"
  by (simp add: hm_get_def)

lemma hm_get_remove [simp]: "hm_get (hm_remove k m) k' = (if k' = k then None else hm_get m k')"
  by (induction m) (auto simp: hm_get_def hm_remove_def)

lemma hm_get_insert [simp]: "hm_get (hm_insert k v m) k' = (if k' = k then Some v else hm_get m k')"
  using hm_get_remove [of k m k'] by (simp add: hm_get_def hm_insert_def)

lemma hm_get_retain:
  "hm_wf m \<Longrightarrow> hm_get (hm_retain P m) k = (case hm_get m k of Some v \<Rightarrow> if P k v then Some v else None | None \<Rightarrow> None)"
  by (induction m) (auto simp: hm_get_def hm_retain_def hm_wf_def map_of_eq_None_iff split: option.splits)

lemma hm_get_in: "hm_get m k = Some v \<Longrightarrow> (k, v) \<in> set m"
  by (simp add: hm_get_def map_of_SomeD)

lemma hm_in_get: "hm_wf m \<Longrightarrow> (k, v) \<in> set m \<Longrightarrow> hm_get m k = Some v"
  by (simp add: hm_get_def hm_wf_def)

lemma length_hm_insert: "length (hm_insert k v m) \<le> length m + (if hm_get m k = None then 1 else 0)"
proof (cases "hm_get m k")
  case None
  then show ?thesis by (simp add: hm_insert_def hm_remove_def)
next
  case (Some w)
  then have "length (hm_remove k m) < length m"
    unfolding hm_remove_def using hm_get_in by (force intro: length_filter_less)
  with Some show ?thesis by (simp add: hm_insert_def)
qed

section \<open>A reference codec for JSON arrays of plain strings\<close>

text \<open>
  \<open>serde_json\<close> is a parameter of the model. Where a hypothesis about it has to be shown
  satisfiable, this codec for arrays of strings without quotes, commas and escapes is used.
\<close>

definition plain_json_print :: "string list \<Rightarrow> string" where
  "plain_json_print xs = CHR ''['' # join_with (CHR '','') (map (\<lambda>x. quote # x @ [quote]) xs) @ '']''"

definition plain_json_parse :: "string \<Rightarrow> string list option" where
  "plain_json_parse s =
     (if s = ''[]'' then Some []
      else Some (map (\<lambda>x. butlast (tl x)) (split_on (CHR '','') (butlast (tl s)))))"

end
