(* ===== verification/Capability.thy ===== *)
theory Capability
  imports Prelude
begin

text \<open>
  The typed capability model of \<open>src/src/capability.rs\<close>: the closed enumeration of grantable
  actions, the role presets, grants, and the parsing of stored (including pre-v6) permission rows.
  A \<open>BTreeSet<Capability>\<close> is a HOL set; where the code iterates it, the iteration order is the
  derived \<open>Ord\<close>, i.e. the declaration order, which is the \<open>linorder\<close> instance below.
\<close>

section \<open>Capabilities\<close>

datatype capability =
    ControlStart | ControlStop | ControlRestart | ControlKill
  | ConsoleRead | ConsoleWrite
  | FilesRead | FilesWrite
  | BackupsRead | BackupsWrite
  | ScheduleRead | ScheduleWrite
  | DatabaseRead | DatabaseWrite
  | StartupUpdate | StartupInstall | StartupSecrets
  | SubusersRead | SubusersWrite
  | AllocationRead | AllocationWrite
  | ActivityRead

definition ALL_CAPS :: "capability list" where
  "ALL_CAPS = [ControlStart, ControlStop, ControlRestart, ControlKill, ConsoleRead, ConsoleWrite,
     FilesRead, FilesWrite, BackupsRead, BackupsWrite, ScheduleRead, ScheduleWrite,
     DatabaseRead, DatabaseWrite, StartupUpdate, StartupInstall, StartupSecrets,
     SubusersRead, SubusersWrite, AllocationRead, AllocationWrite, ActivityRead]"

fun as_str :: "capability \<Rightarrow> string" where
  "as_str ControlStart = ''control.start''"
| "as_str ControlStop = ''control.stop''"
| "as_str ControlRestart = ''control.restart''"
| "as_str ControlKill = ''control.kill''"
| "as_str ConsoleRead = ''console.read''"
| "as_str ConsoleWrite = ''console.write''"
| "as_str FilesRead = ''files.read''"
| "as_str FilesWrite = ''files.write''"
| "as_str BackupsRead = ''backups.read''"
| "as_str BackupsWrite = ''backups.write''"
| "as_str ScheduleRead = ''schedule.read''"
| "as_str ScheduleWrite = ''schedule.write''"
| "as_str DatabaseRead = ''database.read''"
| "as_str DatabaseWrite = ''database.write''"
| "as_str StartupUpdate = ''startup.update''"
| "as_str StartupInstall = ''startup.install''"
| "as_str StartupSecrets = ''startup.secrets''"
| "as_str SubusersRead = ''subusers.read''"
| "as_str SubusersWrite = ''subusers.write''"
| "as_str AllocationRead = ''allocation.read''"
| "as_str AllocationWrite = ''allocation.write''"
| "as_str ActivityRead = ''activity.read''"

fun category :: "capability \<Rightarrow> string" where
  "category ControlStart = ''control''"
| "category ControlStop = ''control''"
| "category ControlRestart = ''control''"
| "category ControlKill = ''control''"
| "category ConsoleRead = ''console''"
| "category ConsoleWrite = ''console''"
| "category FilesRead = ''files''"
| "category FilesWrite = ''files''"
| "category BackupsRead = ''backups''"
| "category BackupsWrite = ''backups''"
| "category ScheduleRead = ''schedule''"
| "category ScheduleWrite = ''schedule''"
| "category DatabaseRead = ''database''"
| "category DatabaseWrite = ''database''"
| "category StartupUpdate = ''startup''"
| "category StartupInstall = ''startup''"
| "category StartupSecrets = ''startup''"
| "category SubusersRead = ''subusers''"
| "category SubusersWrite = ''subusers''"
| "category AllocationRead = ''allocation''"
| "category AllocationWrite = ''allocation''"
| "category ActivityRead = ''activity''"

definition capability_from_str :: "string \<Rightarrow> capability option" where
  "capability_from_str s = find (\<lambda>c. as_str c = s) ALL_CAPS"

section \<open>The derived order\<close>

fun cap_index :: "capability \<Rightarrow> nat" where
  "cap_index ControlStart = 0" | "cap_index ControlStop = 1"
| "cap_index ControlRestart = 2" | "cap_index ControlKill = 3"
| "cap_index ConsoleRead = 4" | "cap_index ConsoleWrite = 5"
| "cap_index FilesRead = 6" | "cap_index FilesWrite = 7"
| "cap_index BackupsRead = 8" | "cap_index BackupsWrite = 9"
| "cap_index ScheduleRead = 10" | "cap_index ScheduleWrite = 11"
| "cap_index DatabaseRead = 12" | "cap_index DatabaseWrite = 13"
| "cap_index StartupUpdate = 14" | "cap_index StartupInstall = 15"
| "cap_index StartupSecrets = 16"
| "cap_index SubusersRead = 17" | "cap_index SubusersWrite = 18"
| "cap_index AllocationRead = 19" | "cap_index AllocationWrite = 20"
| "cap_index ActivityRead = 21"

lemma ALL_nth: "c = ALL_CAPS ! cap_index c"
  by (cases c) (simp_all add: ALL_CAPS_def)

lemma cap_index_eq [simp]: "cap_index a = cap_index b \<longleftrightarrow> a = b"
  by (metis ALL_nth)

instantiation capability :: linorder
begin

definition less_eq_capability :: "capability \<Rightarrow> capability \<Rightarrow> bool" where
  "less_eq_capability a b \<longleftrightarrow> cap_index a \<le> cap_index b"

definition less_capability :: "capability \<Rightarrow> capability \<Rightarrow> bool" where
  "less_capability a b \<longleftrightarrow> cap_index a < cap_index b"

instance
  by standard (auto simp: less_eq_capability_def less_capability_def dual_order.antisym)

end

lemma set_ALL [simp]: "set ALL_CAPS = UNIV"
proof -
  have "c \<in> set ALL_CAPS" for c by (cases c) (simp_all add: ALL_CAPS_def)
  then show ?thesis by blast
qed

lemma finite_capabilities [simp]: "finite (S :: capability set)"
  by (rule finite_subset [of _ "set ALL_CAPS"]) (auto simp del: set_ALL, simp)

lemma sorted_ALL: "sorted ALL_CAPS" and distinct_ALL: "distinct ALL_CAPS" and length_ALL: "length ALL_CAPS = 22"
  by (simp_all add: ALL_CAPS_def less_eq_capability_def)

text \<open>Iteration of a \<open>BTreeSet<Capability>\<close>: ascending in the derived order.\<close>

definition btree_iter :: "capability set \<Rightarrow> capability list" where
  "btree_iter S = filter (\<lambda>c. c \<in> S) ALL_CAPS"

lemma set_btree_iter [simp]: "set (btree_iter S) = S"
  by (simp add: btree_iter_def)

lemma sorted_btree_iter: "sorted (btree_iter S)" and distinct_btree_iter: "distinct (btree_iter S)"
  using sorted_ALL distinct_ALL by (simp_all add: btree_iter_def sorted_wrt_filter)

lemma find_btree_iter_None: "find P (btree_iter S) = None \<longleftrightarrow> (\<forall>c\<in>S. \<not> P c)"
  by (auto simp: find_None_iff)

lemma find_sorted_least:
  "sorted xs \<Longrightarrow> find P xs = Some x \<Longrightarrow> x \<in> set xs \<and> P x \<and> (\<forall>y\<in>set xs. P y \<longrightarrow> x \<le> y)"
  by (induction xs) (auto split: if_splits)

section \<open>Roles\<close>

datatype role = Viewer | Operator | Developer | Manager | Custom

fun role_as_str :: "role \<Rightarrow> string" where
  "role_as_str Viewer = ''viewer''"
| "role_as_str Operator = ''operator''"
| "role_as_str Developer = ''developer''"
| "role_as_str Manager = ''manager''"
| "role_as_str Custom = ''custom''"

definition role_from_str :: "string \<Rightarrow> role option" where
  "role_from_str s =
     (if s = ''viewer'' then Some Viewer
      else if s = ''operator'' then Some Operator
      else if s = ''developer'' then Some Developer
      else if s = ''manager'' then Some Manager
      else if s = ''custom'' then Some Custom
      else None)"

definition role_capabilities :: "role \<Rightarrow> capability set" where
  "role_capabilities r =
     (if r = Custom then {}
      else {ConsoleRead, FilesRead, BackupsRead, ScheduleRead, DatabaseRead, AllocationRead,
            ActivityRead}
        \<union> (if r \<in> {Operator, Developer, Manager}
           then {ControlStart, ControlStop, ControlRestart, ConsoleWrite} else {})
        \<union> (if r \<in> {Developer, Manager}
           then {FilesWrite, DatabaseWrite, ScheduleWrite, StartupUpdate, SubusersRead,
                 AllocationWrite} else {})
        \<union> (if r = Manager
           then {ControlKill, BackupsWrite, StartupInstall, StartupSecrets, SubusersWrite} else {}))"

section \<open>Grants\<close>

record grant =
  role :: role
  caps :: "capability set"

datatype cannot_grant = CannotGrant capability

definition grant_new :: "role \<Rightarrow> capability set \<Rightarrow> grant" where
  "grant_new r extra = \<lparr>role = r, caps = role_capabilities r \<union> extra\<rparr>"

definition checked_new :: "grant \<Rightarrow> role \<Rightarrow> capability set \<Rightarrow> (cannot_grant, grant) result" where
  "checked_new grantor r extra =
     (let g = grant_new r extra in
      case find (\<lambda>c. c \<notin> caps grantor) (btree_iter (caps g)) of
        Some over \<Rightarrow> Err (CannotGrant over)
      | None \<Rightarrow> Ok g)"

definition grant_custom :: "capability set \<Rightarrow> grant" where
  "grant_custom cs = \<lparr>role = Custom, caps = cs\<rparr>"

definition grant_owner :: grant where
  "grant_owner = \<lparr>role = Manager, caps = set ALL_CAPS\<rparr>"

definition grant_contains :: "grant \<Rightarrow> capability \<Rightarrow> bool" where
  "grant_contains g c \<longleftrightarrow> c \<in> caps g"

definition grant_names :: "grant \<Rightarrow> string list" where
  "grant_names g = map as_str (btree_iter (caps g))"

text \<open>
  \<open>serde_json\<close> is not part of the repository: the printer and the parser of a JSON array of
  strings are parameters.
\<close>

definition to_json :: "(string list \<Rightarrow> string) \<Rightarrow> grant \<Rightarrow> string" where
  "to_json json_print g = json_print (grant_names g)"

definition legacy_token :: "string \<Rightarrow> capability set" where
  "legacy_token t =
     (if t = ''power'' \<or> t = ''control'' then {ControlStart, ControlStop, ControlRestart, ControlKill}
      else if t = ''start'' then {ControlStart}
      else if t = ''stop'' then {ControlStop}
      else if t = ''restart'' then {ControlRestart}
      else if t = ''kill'' then {ControlKill}
      else if t = ''console'' then {ConsoleRead, ConsoleWrite}
      else if t = ''files'' then {FilesRead, FilesWrite}
      else if t = ''backups'' then {BackupsRead, BackupsWrite}
      else if t = ''schedule'' \<or> t = ''schedules'' then {ScheduleRead, ScheduleWrite}
      else if t = ''database'' \<or> t = ''databases'' then {DatabaseRead, DatabaseWrite}
      else if t = ''startup'' then {StartupUpdate, StartupInstall, StartupSecrets}
      else if t = ''subusers'' then {SubusersRead, SubusersWrite}
      else if t = ''allocation'' \<or> t = ''allocations'' then {AllocationRead, AllocationWrite}
      else if t = ''activity'' then {ActivityRead}
      else {})"

fun expand_loop :: "capability set \<Rightarrow> string list \<Rightarrow> capability set" where
  "expand_loop out [] = out"
| "expand_loop out (token # tokens) =
     (let t = trim token in
      if t = ''*'' then set ALL_CAPS
      else case capability_from_str t of
        Some c \<Rightarrow> expand_loop (insert c out) tokens
      | None \<Rightarrow> expand_loop (out \<union> legacy_token t) tokens)"

definition expand_legacy :: "string list \<Rightarrow> capability set" where
  "expand_legacy tokens = expand_loop {} tokens"

definition from_stored :: "(string \<Rightarrow> string list option) \<Rightarrow> string \<Rightarrow> string \<Rightarrow> grant" where
  "from_stored json_parse role_s raw =
     (let tokens = (case json_parse raw of Some ts \<Rightarrow> ts | None \<Rightarrow> []);
          r = (case role_from_str role_s of Some r \<Rightarrow> r | None \<Rightarrow> Custom);
          stored = (if \<exists>t\<in>set tokens. trim t = ''*'' then {} else expand_legacy tokens)
      in \<lparr>role = r, caps = role_capabilities r \<union> stored\<rparr>)"

datatype power_action = PStart | PStop | PRestart | PKill

fun power_action_as_str :: "power_action \<Rightarrow> string" where
  "power_action_as_str PStart = ''start''"
| "power_action_as_str PStop = ''stop''"
| "power_action_as_str PRestart = ''restart''"
| "power_action_as_str PKill = ''kill''"

fun power_capability :: "power_action \<Rightarrow> capability" where
  "power_capability PStart = ControlStart"
| "power_capability PStop = ControlStop"
| "power_capability PRestart = ControlRestart"
| "power_capability PKill = ControlKill"

section \<open>Names and parsing\<close>

lemma as_str_inj [simp]: "as_str a = as_str b \<longleftrightarrow> a = b"
  by (cases a; cases b) simp_all

lemma find_eq_injective:
  "inj_on f (set xs) \<Longrightarrow> x \<in> set xs \<Longrightarrow> find (\<lambda>y. f y = f x) xs = Some x"
  by (induction xs) (auto simp: inj_on_def)

lemma from_str_as_str [simp]: "capability_from_str (as_str c) = Some c"
  unfolding capability_from_str_def by (rule find_eq_injective) (simp_all add: inj_on_def)

lemma from_str_Some_iff: "capability_from_str s = Some c \<longleftrightarrow> s = as_str c"
  using from_str_as_str by (auto simp: capability_from_str_def find_Some_iff)

lemma trim_as_str [simp]: "trim (as_str c) = as_str c"
  by (rule trim_id; cases c; simp add: ascii_ws_def ws2_def ws3_def)

lemma as_str_not_star [simp]: "as_str c \<noteq> ''*''"
  by (cases c) simp_all

lemma role_from_str_as_str [simp]: "role_from_str (role_as_str r) = Some r"
  by (cases r) (simp_all add: role_from_str_def)

text \<open>Display and \<open>FromStr\<close> name the same capabilities: parsing accepts exactly the 22 names.\<close>

section \<open>Role presets\<close>

lemma role_capabilities_simps:
  "role_capabilities Custom = {}"
  "role_capabilities Viewer =
     {ConsoleRead, FilesRead, BackupsRead, ScheduleRead, DatabaseRead, AllocationRead, ActivityRead}"
  "role_capabilities Operator = role_capabilities Viewer \<union>
     {ControlStart, ControlStop, ControlRestart, ConsoleWrite}"
  "role_capabilities Developer = role_capabilities Operator \<union>
     {FilesWrite, DatabaseWrite, ScheduleWrite, StartupUpdate, SubusersRead, AllocationWrite}"
  "role_capabilities Manager = role_capabilities Developer \<union>
     {ControlKill, BackupsWrite, StartupInstall, StartupSecrets, SubusersWrite}"
  by (simp_all add: role_capabilities_def)

lemma manager_has_all: "c \<in> role_capabilities Manager"
  by (cases c) (simp_all add: role_capabilities_def)

section \<open>Legacy tokens\<close>

definition token_caps :: "string \<Rightarrow> capability set" where
  "token_caps token =
     (let t = trim token in
      case capability_from_str t of Some c \<Rightarrow> {c} | None \<Rightarrow> legacy_token t)"

lemma expand_loop_eq:
  "\<forall>t\<in>set ts. trim t \<noteq> ''*'' \<Longrightarrow> expand_loop out ts = out \<union> (\<Union>t\<in>set ts. token_caps t)"
  by (induction ts arbitrary: out) (auto simp: token_caps_def Let_def split: option.splits)

lemma expand_legacy_eq:
  "\<forall>t\<in>set ts. trim t \<noteq> ''*'' \<Longrightarrow> expand_legacy ts = (\<Union>t\<in>set ts. token_caps t)"
  by (simp add: expand_legacy_def expand_loop_eq)

lemma expand_legacy_star: "t \<in> set ts \<Longrightarrow> trim t = ''*'' \<Longrightarrow> expand_legacy ts = UNIV"
proof -
  have "t \<in> set ts \<Longrightarrow> trim t = ''*'' \<Longrightarrow> expand_loop out ts = UNIV" for out
    by (induction ts arbitrary: out) (auto simp: Let_def split: option.splits)
  then show "t \<in> set ts \<Longrightarrow> trim t = ''*'' \<Longrightarrow> expand_legacy ts = UNIV"
    by (simp add: expand_legacy_def)
qed

lemma expand_legacy_names [simp]: "expand_legacy (grant_names g) = caps g"
proof -
  have "\<forall>t\<in>set (grant_names g). trim t \<noteq> ''*''" by (auto simp: grant_names_def)
  then show ?thesis
    by (subst expand_legacy_eq) (auto simp: grant_names_def token_caps_def)
qed

lemma from_stored_to_json:
  assumes "jparse (jprint (grant_names g)) = Some (grant_names g)"
    and "role_capabilities (role g) \<subseteq> caps g"
  shows "from_stored jparse (role_as_str (role g)) (to_json jprint g) = g"
proof -
  have "\<not> (\<exists>t\<in>set (grant_names g). trim t = ''*'')" by (auto simp: grant_names_def)
  with assms show ?thesis
    by (simp add: from_stored_def to_json_def Let_def sup.absorb2)
qed

section \<open>Properties\<close>

text \<open>\<open>Grant::checked_new\<close> never mints authority the grantor lacks: it succeeds exactly when the
  role preset and the extras are all held by the grantor, and otherwise reports the least (first in
  the declared order) capability the grantor does not hold.\<close>
theorem checked_new_no_amplification:
  "checked_new grantor r extra =
     (if role_capabilities r \<union> extra \<subseteq> caps grantor then Ok (grant_new r extra)
      else Err (CannotGrant (Min ((role_capabilities r \<union> extra) - caps grantor))))"
proof -
  let ?S = "role_capabilities r \<union> extra"
  let ?f = "find (\<lambda>c. c \<notin> caps grantor) (btree_iter ?S)"
  have caps: "caps (grant_new r extra) = ?S" by (simp add: grant_new_def)
  show ?thesis
  proof (cases ?f)
    case None
    then have "?S \<subseteq> caps grantor" by (auto simp: find_btree_iter_None)
    with None show ?thesis by (simp add: checked_new_def caps)
  next
    case (Some c)
    from find_sorted_least [OF sorted_btree_iter Some]
    have c: "c \<in> ?S - caps grantor" "\<forall>y\<in>?S - caps grantor. c \<le> y" by auto
    then have "Min (?S - caps grantor) = c" by (intro Min_eqI) auto
    with Some c(1) show ?thesis by (auto simp: checked_new_def caps)
  qed
qed

text \<open>Stored permission rows fail closed: the effective grant of a row is the preset of its role
  (nothing for an unknown role) plus at most the capabilities its tokens name; malformed JSON and
  rows with the legacy wildcard \<open>*\<close> contribute no extras at all.\<close>
theorem from_stored_fail_closed:
  "caps (from_stored jparse rs raw) =
     (case role_from_str rs of Some r \<Rightarrow> role_capabilities r | None \<Rightarrow> {})
     \<union> (case jparse raw of
          None \<Rightarrow> {}
        | Some ts \<Rightarrow> if ''*'' \<in> trim ` set ts then {} else (\<Union>t\<in>set ts. token_caps t))"
proof -
  have "caps (from_stored jparse rs raw) = (case role_from_str rs of Some r \<Rightarrow> role_capabilities r | None \<Rightarrow> {})
     \<union> (let ts = (case jparse raw of Some ts \<Rightarrow> ts | None \<Rightarrow> []) in
        if \<exists>t\<in>set ts. trim t = ''*'' then {} else expand_legacy ts)"
    by (simp add: from_stored_def Let_def role_capabilities_simps split: option.splits)
  then show ?thesis
    by (auto simp: expand_legacy_eq Let_def image_iff split: option.splits)
qed

end
