(* ===== verification/Store.thy ===== *)
theory Store
  imports Capability "HOL-Library.List_Lexorder" "HOL-Library.Char_ord"
    "HOL-Library.Product_Lexorder"
begin

text \<open>
  The relational state of the panel (SQLite tables, \<open>src/src/models.rs\<close> and the schema of
  \<open>src/src/db.rs\<close>) as lists of row records, and the elementary row operations on users and
  servers. Column \<open>x_y\<close> of a record is column (or struct field) \<open>y\<close>. An \<open>AUTOINCREMENT\<close> table
  has a sequence counter beside it. Every RFC3339 column is written by the panel itself from
  \<open>Utc::now()\<close>; it is modelled by its instant in nanoseconds, and by \<open>stamp\<close> where the code
  also handles text that does not parse. Failures of SQLite itself (I/O, locking) are not
  modelled; constraint violations are.
\<close>

type_synonym instant = int

datatype stamp = Stamp instant | BadStamp

datatype model_error =
    UserNotFound | ServerNotFound | SquadNotFound | MemberNotFound | AllocationNotFound
  | AlreadyMember | AlreadySquadMember | ServerAlreadyInSquad
  | CannotGrantHeld capability | CannotRemoveHeld capability
  | InvalidSquadRole | NoAuthority
  | PortRange | DeletedWorkspace | PortTaken | PrimaryAllocation
  | ConstraintViolation
  | EmptyCapabilities | UnknownCapability string | TtlNotPositive | TtlTooLarge

section \<open>Rows\<close>

record key_scope =
  ks_capabilities :: "capability list"
  ks_wildcard :: bool
  ks_server_ids :: "int list"

record user =
  u_id :: int
  u_username :: string
  u_email :: string
  u_avatar :: string
  u_language :: string
  u_theme :: string
  u_root_admin :: bool
  u_active :: bool
  u_twofa_secret :: "string option"
  u_twofa_enabled :: bool
  u_about :: string
  u_created_at :: instant
  u_updated_at :: instant
  u_key_scope :: "key_scope option"

record server =
  s_id :: int
  s_uuid :: string
  s_name :: string
  s_user_id :: int
  s_blueprint_id :: int
  s_description :: string
  s_status :: string
  s_runtime_hint :: string
  s_startup :: string
  s_node :: string
  s_port :: "int option"
  s_memory_mb :: int
  s_disk_mb :: int
  s_cpu_percent :: int
  s_suspended :: bool
  s_auto_restart :: bool
  s_restart_count :: int
  s_crash_detect_clean_exit :: bool
  s_crash_restart_budget :: int
  s_crash_restarts :: int
  s_crash_window_start :: "stamp option"
  s_crash_reason :: string
  s_network_mbps :: int
  s_created_at :: instant
  s_updated_at :: instant
  s_deleted :: bool

record subuser_row =
  su_server :: int
  su_user :: int
  su_permissions :: string
  su_role :: string

record squad =
  sq_id :: int
  sq_name :: string
  sq_created_by :: int
  sq_created_at :: instant

record squad_member_row =
  sm_squad :: int
  sm_user :: int
  sm_role :: string

record squad_server_row =
  ss_squad :: int
  ss_server :: int

record api_key_row =
  ak_id :: int
  ak_user :: int
  ak_token :: string
  ak_name :: string
  ak_capabilities :: string
  ak_server_ids :: string
  ak_expires_at :: "stamp option"
  ak_revoked :: bool
  ak_created_at :: instant
  ak_last_used :: "instant option"

record allocation =
  a_id :: int
  a_server :: int
  a_port :: int
  a_node :: string
  a_assigned_at :: instant
  a_notes :: string
  a_primary :: bool

record audit_log =
  al_id :: int
  al_user :: "int option"
  al_action :: string
  al_target :: string
  al_ip :: string
  al_details :: string
  al_created_at :: instant
  al_server :: "int option"

record db =
  users :: "user list"
  servers :: "server list"
  subusers :: "subuser_row list"
  squads :: "squad list"
  squad_seq :: int
  squad_members :: "squad_member_row list"
  squad_servers :: "squad_server_row list"
  api_keys :: "api_key_row list"
  api_key_seq :: int
  allocations :: "allocation list"
  alloc_seq :: int
  server_seq :: int
  audit_logs :: "audit_log list"
  audit_seq :: int
  settings :: "(string \<times> string) list"

definition empty_db :: db where
  "empty_db = \<lparr>users = [], servers = [], subusers = [], squads = [], squad_seq = 0,
     squad_members = [], squad_servers = [], api_keys = [], api_key_seq = 0,
     allocations = [], alloc_seq = 0, server_seq = 0, audit_logs = [], audit_seq = 0,
     settings = []\<rparr>"

text \<open>\<open>SELECT EXISTS\<close>, \<open>SELECT ... WHERE\<close> with \<open>optional()\<close>, and \<open>UPDATE ... WHERE\<close>.\<close>

definition exists_row :: "('r \<Rightarrow> bool) \<Rightarrow> 'r list \<Rightarrow> bool" where
  "exists_row P rows \<longleftrightarrow> list_ex P rows"

definition update_rows :: "('r \<Rightarrow> bool) \<Rightarrow> ('r \<Rightarrow> 'r) \<Rightarrow> 'r list \<Rightarrow> 'r list" where
  "update_rows P f rows = map (\<lambda>r. if P r then f r else r) rows"

definition count_rows :: "('r \<Rightarrow> bool) \<Rightarrow> 'r list \<Rightarrow> nat" where
  "count_rows P rows = length (filter P rows)"

lemma exists_row_iff [simp]: "exists_row P rows \<longleftrightarrow> (\<exists>r\<in>set rows. P r)"
  by (simp add: exists_row_def list_ex_iff)

lemma set_update_rows: "set (update_rows P f rows) = (\<lambda>r. if P r then f r else r) ` set rows"
  by (simp add: update_rows_def)

lemma count_rows_pos [simp]: "0 < count_rows P rows \<longleftrightarrow> (\<exists>r\<in>set rows. P r)"
  by (auto simp: count_rows_def filter_empty_conv)

lemma map_update_rows:
  "(\<And>r. g (f r) = g r) \<Longrightarrow> map g (update_rows P f rows) = map g rows"
  by (induction rows) (simp_all add: update_rows_def)

lemma find_update_rows_key:
  assumes "\<And>r. key (f r) = key r"
  shows "find (\<lambda>r. key r = k) (update_rows P f rows)
     = map_option (\<lambda>r. if P r then f r else r) (find (\<lambda>r. key r = k) rows)"
  using assms by (induction rows) (auto simp: update_rows_def)

section \<open>Users and servers\<close>

definition get_user :: "db \<Rightarrow> int \<Rightarrow> (model_error, user) result" where
  "get_user d i = (case find (\<lambda>u. u_id u = i) (users d) of
     Some u \<Rightarrow> Ok (u\<lparr>u_key_scope := None\<rparr>) | None \<Rightarrow> Err UserNotFound)"

definition get_server :: "db \<Rightarrow> int \<Rightarrow> (model_error, server) result" where
  "get_server d i = (case find (\<lambda>s. s_id s = i \<and> \<not> s_deleted s) (servers d) of
     Some s \<Rightarrow> Ok s | None \<Rightarrow> Err ServerNotFound)"

definition get_server_any :: "db \<Rightarrow> int \<Rightarrow> (model_error, server) result" where
  "get_server_any d i = (case find (\<lambda>s. s_id s = i) (servers d) of
     Some s \<Rightarrow> Ok s | None \<Rightarrow> Err ServerNotFound)"

definition get_server_by_uuid :: "db \<Rightarrow> string \<Rightarrow> (model_error, server) result" where
  "get_server_by_uuid d u = (case find (\<lambda>s. s_uuid s = u \<and> \<not> s_deleted s) (servers d) of
     Some s \<Rightarrow> Ok s | None \<Rightarrow> Err ServerNotFound)"

definition count_servers :: "db \<Rightarrow> nat" where
  "count_servers d = count_rows (\<lambda>s. \<not> s_deleted s) (servers d)"

definition count_all_servers_by_user :: "db \<Rightarrow> int \<Rightarrow> nat" where
  "count_all_servers_by_user d uid =
     count_rows (\<lambda>s. s_user_id s = uid \<and> \<not> s_deleted s) (servers d)"

text \<open>
  A new row takes the column defaults for everything \<open>create_server\<close> does not set. The blueprints
  table is not part of this state: whether the referenced blueprint exists is an argument.
\<close>

definition new_server_row ::
  "instant \<Rightarrow> int \<Rightarrow> string \<Rightarrow> string \<Rightarrow> int \<Rightarrow> int \<Rightarrow> string \<Rightarrow> string \<Rightarrow> int \<Rightarrow> int \<Rightarrow> int \<Rightarrow> int \<Rightarrow> server" where
  "new_server_row now i uuid name uid bp hint startup mem disk cpu net =
     \<lparr>s_id = i, s_uuid = uuid, s_name = name, s_user_id = uid,
      s_blueprint_id = bp, s_description = [], s_status = ''offline'', s_runtime_hint = hint,
      s_startup = startup, s_node = ''local'', s_port = None, s_memory_mb = mem,
      s_disk_mb = disk, s_cpu_percent = cpu, s_suspended = False, s_auto_restart = False,
      s_restart_count = 0, s_crash_detect_clean_exit = False, s_crash_restart_budget = 5,
      s_crash_restarts = 0, s_crash_window_start = None, s_crash_reason = [],
      s_network_mbps = net, s_created_at = now, s_updated_at = now, s_deleted = False\<rparr>"

definition create_server ::
  "(int \<Rightarrow> bool) \<Rightarrow> instant \<Rightarrow> db \<Rightarrow> string \<Rightarrow> string \<Rightarrow> int \<Rightarrow> int \<Rightarrow> string \<Rightarrow> string \<Rightarrow> int \<Rightarrow> int
     \<Rightarrow> int \<Rightarrow> int \<Rightarrow> (model_error, db \<times> int) result" where
  "create_server blueprint_exists now d uuid name uid bp hint startup mem disk cpu net =
     (if exists_row (\<lambda>s. s_uuid s = uuid) (servers d)
         \<or> \<not> exists_row (\<lambda>u. u_id u = uid) (users d) \<or> \<not> blueprint_exists bp
      then Err ConstraintViolation
      else let i = server_seq d + 1 in
        Ok (d\<lparr>servers := servers d @ [new_server_row now i uuid name uid bp hint startup mem disk cpu net],
              server_seq := i\<rparr>, i))"

lemma new_server_row_simps [simp]:
  "s_id (new_server_row now i u n uid bp h st m dk c nt) = i"
  "s_port (new_server_row now i u n uid bp h st m dk c nt) = None"
  by (simp_all add: new_server_row_def)

definition on_server :: "int \<Rightarrow> (server \<Rightarrow> server) \<Rightarrow> db \<Rightarrow> db" where
  "on_server i f d = d\<lparr>servers := update_rows (\<lambda>s. s_id s = i) f (servers d)\<rparr>"

definition set_server_status :: "instant \<Rightarrow> db \<Rightarrow> int \<Rightarrow> string \<Rightarrow> db" where
  "set_server_status now d i st = on_server i (\<lambda>s. s\<lparr>s_status := st, s_updated_at := now\<rparr>) d"

definition set_server_suspended :: "instant \<Rightarrow> db \<Rightarrow> int \<Rightarrow> bool \<Rightarrow> db" where
  "set_server_suspended now d i b =
     on_server i (\<lambda>s. s\<lparr>s_suspended := b, s_updated_at := now\<rparr>) d"

definition bump_restart_count :: "instant \<Rightarrow> db \<Rightarrow> int \<Rightarrow> db" where
  "bump_restart_count now d i =
     on_server i (\<lambda>s. s\<lparr>s_restart_count := s_restart_count s + 1, s_updated_at := now\<rparr>) d"

definition update_server :: "instant \<Rightarrow> db \<Rightarrow> server \<Rightarrow> db" where
  "update_server now d s = on_server (s_id s) (\<lambda>r. r\<lparr>
     s_name := s_name s, s_description := s_description s, s_runtime_hint := s_runtime_hint s,
     s_startup := s_startup s, s_user_id := s_user_id s, s_blueprint_id := s_blueprint_id s,
     s_status := s_status s, s_memory_mb := s_memory_mb s, s_disk_mb := s_disk_mb s,
     s_cpu_percent := s_cpu_percent s, s_suspended := s_suspended s,
     s_auto_restart := s_auto_restart s, s_restart_count := s_restart_count s,
     s_crash_detect_clean_exit := s_crash_detect_clean_exit s,
     s_crash_restart_budget := s_crash_restart_budget s, s_crash_restarts := s_crash_restarts s,
     s_crash_window_start := s_crash_window_start s, s_crash_reason := s_crash_reason s,
     s_network_mbps := s_network_mbps s, s_updated_at := now\<rparr>) d"

text \<open>
  A physical delete of a server row cascades (foreign keys are on): subusers, squad assignments
  and allocations of the server go with it.
\<close>

definition purge_server :: "db \<Rightarrow> int \<Rightarrow> db" where
  "purge_server d i = d\<lparr>
     servers := filter (\<lambda>s. s_id s \<noteq> i) (servers d),
     subusers := filter (\<lambda>r. su_server r \<noteq> i) (subusers d),
     squad_servers := filter (\<lambda>r. ss_server r \<noteq> i) (squad_servers d),
     allocations := filter (\<lambda>a. a_server a \<noteq> i) (allocations d)\<rparr>"

section \<open>Settings and the audit log\<close>

definition get_setting :: "db \<Rightarrow> string \<Rightarrow> string option" where
  "get_setting d k = map_of (settings d) k"

definition set_setting :: "db \<Rightarrow> string \<Rightarrow> string \<Rightarrow> db" where
  "set_setting d k v = d\<lparr>settings :=
     (if exists_row (\<lambda>r. fst r = k) (settings d)
      then update_rows (\<lambda>r. fst r = k) (\<lambda>_. (k, v)) (settings d)
      else settings d @ [(k, v)])\<rparr>"

text \<open>
  \<open>audit_scoped\<close> reads two process-wide settings (\<open>AUDIT_ENABLED\<close>, \<open>AUDIT_RETENTION_DAYS\<close>), the
  clock, and a random number that triggers a prune; they are gathered in \<open>audit_env\<close>.
\<close>

record audit_env =
  ae_enabled :: bool
  ae_retention_days :: int
  ae_now :: instant
  ae_prune :: bool

definition newest :: "nat \<Rightarrow> audit_log list \<Rightarrow> audit_log list" where
  "newest n rows = take n (rev (sort_key al_id rows))"

definition prune_audit_logs :: "instant \<Rightarrow> db \<Rightarrow> int \<Rightarrow> db" where
  "prune_audit_logs now d days = d\<lparr>audit_logs := filter (\<lambda>a.
     \<not> (al_created_at a < now - days * 86400 * 10 ^ 9
        \<and> al_id a \<notin> al_id ` set (newest 500 (audit_logs d)))) (audit_logs d)\<rparr>"

definition audit_scoped ::
  "audit_env \<Rightarrow> db \<Rightarrow> int option \<Rightarrow> string \<Rightarrow> string \<Rightarrow> string \<Rightarrow> string \<Rightarrow> int option \<Rightarrow> db" where
  "audit_scoped ae d uid action target ip details sid =
     (if \<not> ae_enabled ae then d
      else
        let d' = d\<lparr>audit_logs := audit_logs d @ [\<lparr>al_id = audit_seq d + 1, al_user = uid,
              al_action = action, al_target = target, al_ip = ip, al_details = details,
              al_created_at = ae_now ae, al_server = sid\<rparr>], audit_seq := audit_seq d + 1\<rparr>
        in if ae_prune ae then prune_audit_logs (ae_now ae) d' (ae_retention_days ae) else d')"

lemma audit_scoped_frame [simp]:
  "users (audit_scoped ae d u a t i x s) = users d"
  "servers (audit_scoped ae d u a t i x s) = servers d"
  "subusers (audit_scoped ae d u a t i x s) = subusers d"
  "squads (audit_scoped ae d u a t i x s) = squads d"
  "squad_members (audit_scoped ae d u a t i x s) = squad_members d"
  "squad_servers (audit_scoped ae d u a t i x s) = squad_servers d"
  "api_keys (audit_scoped ae d u a t i x s) = api_keys d"
  "allocations (audit_scoped ae d u a t i x s) = allocations d"
  "alloc_seq (audit_scoped ae d u a t i x s) = alloc_seq d"
  "server_seq (audit_scoped ae d u a t i x s) = server_seq d"
  by (simp_all add: audit_scoped_def prune_audit_logs_def Let_def)

section \<open>Frame lemmas\<close>

lemma on_server_frame [simp]:
  "users (on_server i f d) = users d" "subusers (on_server i f d) = subusers d"
  "squads (on_server i f d) = squads d" "squad_members (on_server i f d) = squad_members d"
  "squad_servers (on_server i f d) = squad_servers d" "api_keys (on_server i f d) = api_keys d"
  "allocations (on_server i f d) = allocations d" "alloc_seq (on_server i f d) = alloc_seq d"
  "server_seq (on_server i f d) = server_seq d"
  by (simp_all add: on_server_def)

lemma servers_on_server:
  "servers (on_server i f d) = update_rows (\<lambda>s. s_id s = i) f (servers d)"
  by (simp add: on_server_def)

lemma get_user_Ok: "get_user d i = Ok u \<Longrightarrow> u_id u = i \<and> u_key_scope u = None"
  by (auto simp: get_user_def dest: find_Some_set split: option.splits)

lemma get_server_Ok: "get_server d i = Ok s \<Longrightarrow> s \<in> set (servers d) \<and> s_id s = i \<and> \<not> s_deleted s"
  by (auto simp: get_server_def dest: find_Some_set split: option.splits)

end
