(* ===== verification/Access.thy ===== *)
theory Access
  imports Store
begin

text \<open>
  Server-scoped authorization (\<open>src/src/models.rs\<close>, sections Subusers and Squads, and
  \<open>KeyScope\<close> of \<open>src/src/services/keys.rs\<close>): who may reach a server, the effective grant a user
  holds on it, and the squad membership operations with their anti-escalation checks.
  Operations that can fail return \<open>Err\<close> and leave the database as it was (each runs in one
  transaction); the ones that change state return the new database.
\<close>

section \<open>Key scopes\<close>

definition scope_allows :: "key_scope \<Rightarrow> int \<Rightarrow> capability \<Rightarrow> bool" where
  "scope_allows sc sid cap \<longleftrightarrow>
     (ks_wildcard sc \<or> cap \<in> set (ks_capabilities sc))
     \<and> (ks_server_ids sc = [] \<or> sid \<in> set (ks_server_ids sc))"

definition is_full_authority :: "key_scope \<Rightarrow> bool" where
  "is_full_authority sc \<longleftrightarrow> ks_wildcard sc \<and> ks_server_ids sc = []"

section \<open>Access and grants\<close>

definition owns_live :: "db \<Rightarrow> user \<Rightarrow> int \<Rightarrow> bool" where
  "owns_live d u sid \<longleftrightarrow>
     0 < count_rows (\<lambda>s. s_id s = sid \<and> s_user_id s = u_id u \<and> \<not> s_deleted s) (servers d)"

definition squad_join :: "db \<Rightarrow> int \<Rightarrow> int \<Rightarrow> squad_member_row list" where
  "squad_join d uid sid =
     concat (map (\<lambda>m. map (\<lambda>_. m)
       (filter (\<lambda>ss. ss_squad ss = sm_squad m \<and> ss_server ss = sid) (squad_servers d)))
     (filter (\<lambda>m. sm_user m = uid) (squad_members d)))"

definition user_has_server_access :: "db \<Rightarrow> user \<Rightarrow> int \<Rightarrow> bool" where
  "user_has_server_access d u sid =
     (if (case u_key_scope u of
            Some sc \<Rightarrow> ks_server_ids sc \<noteq> [] \<and> sid \<notin> set (ks_server_ids sc)
          | None \<Rightarrow> False) then False
      else if u_root_admin u then True
      else if owns_live d u sid then True
      else if 0 < count_rows (\<lambda>r. su_server r = sid \<and> su_user r = u_id u) (subusers d) then True
      else squad_join d (u_id u) sid \<noteq> [])"

definition most_permissive :: "grant \<Rightarrow> grant \<Rightarrow> grant" where
  "most_permissive a b =
     (if caps b \<subseteq> caps a then a
      else if caps a \<subseteq> caps b then b
      else grant_custom (caps a \<union> caps b))"

text \<open>The loop shared by \<open>squad_authority\<close> and \<open>squad_grant\<close>.\<close>

fun fold_roles :: "grant option \<Rightarrow> string list \<Rightarrow> (model_error, grant option) result" where
  "fold_roles g [] = Ok g"
| "fold_roles g (r # rs) =
     (case role_from_str r of
        None \<Rightarrow> Err InvalidSquadRole
      | Some ro \<Rightarrow>
          fold_roles (Some (case g of
             None \<Rightarrow> grant_new ro {}
           | Some cur \<Rightarrow> most_permissive cur (grant_new ro {}))) rs)"

definition squad_grant :: "db \<Rightarrow> int \<Rightarrow> int \<Rightarrow> (model_error, grant option) result" where
  "squad_grant d uid sid = fold_roles None (map sm_role (squad_join d uid sid))"

definition raw_server_grant ::
  "(string \<Rightarrow> string list option) \<Rightarrow> db \<Rightarrow> user \<Rightarrow> int \<Rightarrow> (model_error, grant option) result" where
  "raw_server_grant json_parse d u sid =
     (if u_root_admin u then Ok (Some grant_owner)
      else if owns_live d u sid then Ok (Some grant_owner)
      else
        let subuser = map_option (\<lambda>r. from_stored json_parse (su_role r) (su_permissions r))
              (find (\<lambda>r. su_server r = sid \<and> su_user r = u_id u) (subusers d))
        in rbind (squad_grant d (u_id u) sid) (\<lambda>squad. Ok
             (case (subuser, squad) of
                (Some a, Some b) \<Rightarrow> Some (most_permissive a b)
              | (Some a, None) \<Rightarrow> Some a
              | (None, b) \<Rightarrow> b)))"

definition server_grant ::
  "(string \<Rightarrow> string list option) \<Rightarrow> db \<Rightarrow> user \<Rightarrow> int \<Rightarrow> (model_error, grant option) result" where
  "server_grant json_parse d u sid =
     rbind (raw_server_grant json_parse d u sid) (\<lambda>g. Ok
       (case u_key_scope u of
          None \<Rightarrow> g
        | Some sc \<Rightarrow> map_option (\<lambda>g. grant_custom
            (set (filter (scope_allows sc sid) (btree_iter (caps g))))) g))"

definition user_has_capability ::
  "(string \<Rightarrow> string list option) \<Rightarrow> db \<Rightarrow> user \<Rightarrow> int \<Rightarrow> capability \<Rightarrow> (model_error, bool) result" where
  "user_has_capability json_parse d u sid c =
     rbind (server_grant json_parse d u sid) (\<lambda>g. Ok
       (case g of Some g \<Rightarrow> grant_contains g c | None \<Rightarrow> False))"

definition list_servers :: "db \<Rightarrow> int option \<Rightarrow> bool \<Rightarrow> server list" where
  "list_servers d uid include_deleted =
     sort_key s_name (filter (\<lambda>s.
       (case uid of
          None \<Rightarrow> True
        | Some uid \<Rightarrow> s_user_id s = uid
            \<or> exists_row (\<lambda>r. su_server r = s_id s \<and> su_user r = uid) (subusers d)
            \<or> squad_join d uid (s_id s) \<noteq> [])
       \<and> (include_deleted \<or> \<not> s_deleted s)) (servers d))"

section \<open>Subusers\<close>

definition add_subuser ::
  "(string list \<Rightarrow> string) \<Rightarrow> db \<Rightarrow> int \<Rightarrow> int \<Rightarrow> grant \<Rightarrow> (model_error, db) result" where
  "add_subuser json_print d sid uid g =
     (if \<not> exists_row (\<lambda>u. u_id u = uid) (users d) then Err UserNotFound
      else if exists_row (\<lambda>r. su_server r = sid \<and> su_user r = uid) (subusers d) then Err AlreadyMember
      else if \<not> exists_row (\<lambda>s. s_id s = sid) (servers d) then Err ConstraintViolation
      else Ok (d\<lparr>subusers := subusers d @
        [\<lparr>su_server = sid, su_user = uid, su_permissions = to_json json_print g,
          su_role = role_as_str (role g)\<rparr>]\<rparr>))"

definition remove_subuser :: "db \<Rightarrow> int \<Rightarrow> int \<Rightarrow> db" where
  "remove_subuser d sid uid =
     d\<lparr>subusers := filter (\<lambda>r. \<not> (su_server r = sid \<and> su_user r = uid)) (subusers d)\<rparr>"

definition list_subusers ::
  "(string \<Rightarrow> string list option) \<Rightarrow> db \<Rightarrow> int \<Rightarrow> (user \<times> grant) list" where
  "list_subusers json_parse d sid =
     concat (map (\<lambda>r. map (\<lambda>u. (u\<lparr>u_key_scope := None\<rparr>,
         from_stored json_parse (su_role r) (su_permissions r)))
       (filter (\<lambda>u. u_id u = su_user r) (users d)))
     (filter (\<lambda>r. su_server r = sid) (subusers d)))"

section \<open>Squads\<close>

definition create_squad :: "instant \<Rightarrow> db \<Rightarrow> string \<Rightarrow> int \<Rightarrow> (model_error, db \<times> int) result" where
  "create_squad now d name creator =
     (if \<not> exists_row (\<lambda>u. u_id u = creator) (users d) then Err ConstraintViolation
      else let i = squad_seq d + 1 in
        Ok (d\<lparr>squads := squads d @
          [\<lparr>sq_id = i, sq_name = name, sq_created_by = creator, sq_created_at = now\<rparr>],
          squad_seq := i\<rparr>, i))"

definition get_squad :: "db \<Rightarrow> int \<Rightarrow> (model_error, squad) result" where
  "get_squad d i = (case find (\<lambda>q. sq_id q = i) (squads d) of
     Some q \<Rightarrow> Ok q | None \<Rightarrow> Err SquadNotFound)"

definition rename_squad :: "db \<Rightarrow> int \<Rightarrow> string \<Rightarrow> (model_error, db) result" where
  "rename_squad d i name =
     (if \<not> exists_row (\<lambda>q. sq_id q = i) (squads d) then Err SquadNotFound
      else Ok (d\<lparr>squads := update_rows (\<lambda>q. sq_id q = i) (\<lambda>q. q\<lparr>sq_name := name\<rparr>) (squads d)\<rparr>))"

definition delete_squad :: "db \<Rightarrow> int \<Rightarrow> db" where
  "delete_squad d i = d\<lparr>squads := filter (\<lambda>q. sq_id q \<noteq> i) (squads d),
     squad_members := filter (\<lambda>m. sm_squad m \<noteq> i) (squad_members d),
     squad_servers := filter (\<lambda>r. ss_squad r \<noteq> i) (squad_servers d)\<rparr>"

definition created_squad :: "db \<Rightarrow> user \<Rightarrow> int \<Rightarrow> bool" where
  "created_squad d u i \<longleftrightarrow> 0 < count_rows (\<lambda>q. sq_id q = i \<and> sq_created_by q = u_id u) (squads d)"

definition squad_authority :: "db \<Rightarrow> user \<Rightarrow> int \<Rightarrow> (model_error, grant) result" where
  "squad_authority d actor i =
     (if u_root_admin actor then Ok grant_owner
      else if created_squad d actor i then Ok grant_owner
      else rbind (fold_roles None (map sm_role
             (filter (\<lambda>m. sm_squad m = i \<and> sm_user m = u_id actor) (squad_members d))))
           (\<lambda>g. case g of Some g \<Rightarrow> Ok g | None \<Rightarrow> Err NoAuthority))"

definition squad_manager_authority :: "db \<Rightarrow> int \<Rightarrow> int \<Rightarrow> (model_error, bool) result" where
  "squad_manager_authority d uid i =
     rbind (get_user d uid) (\<lambda>u.
       case squad_authority d u i of
         Ok g \<Rightarrow> Ok (list_all (grant_contains g) (btree_iter (role_capabilities Manager)))
       | Err e \<Rightarrow> if e = NoAuthority then Ok False else Err e)"

definition squad_role_for_user :: "db \<Rightarrow> int \<Rightarrow> int \<Rightarrow> (model_error, role option) result" where
  "squad_role_for_user d uid i =
     rbind (get_user d uid) (\<lambda>u.
       if u_root_admin u then Ok (Some Manager)
       else if created_squad d u i then Ok (Some Manager)
       else case find (\<lambda>m. sm_squad m = i \<and> sm_user m = uid) (squad_members d) of
         None \<Rightarrow> Ok None
       | Some m \<Rightarrow> (case role_from_str (sm_role m) of
           Some r \<Rightarrow> Ok (Some r) | None \<Rightarrow> Err InvalidSquadRole))"

definition squad_creator :: "db \<Rightarrow> int \<Rightarrow> int option" where
  "squad_creator d i = map_option sq_created_by (find (\<lambda>q. sq_id q = i) (squads d))"

definition add_squad_member :: "db \<Rightarrow> int \<Rightarrow> int \<Rightarrow> role \<Rightarrow> user \<Rightarrow> (model_error, db) result" where
  "add_squad_member d i uid r actor =
     (if \<not> exists_row (\<lambda>q. sq_id q = i) (squads d) then Err SquadNotFound
      else if \<not> exists_row (\<lambda>u. u_id u = uid) (users d) then Err UserNotFound
      else if exists_row (\<lambda>m. sm_squad m = i \<and> sm_user m = uid) (squad_members d)
        then Err AlreadySquadMember
      else rbind (squad_authority d actor i) (\<lambda>authority.
        case find (\<lambda>c. \<not> grant_contains authority c) (btree_iter (caps (grant_new r {}))) of
          Some over \<Rightarrow> Err (CannotGrantHeld over)
        | None \<Rightarrow> Ok (d\<lparr>squad_members := squad_members d @
            [\<lparr>sm_squad = i, sm_user = uid, sm_role = role_as_str r\<rparr>]\<rparr>)))"

definition update_squad_member_role ::
  "db \<Rightarrow> int \<Rightarrow> int \<Rightarrow> role \<Rightarrow> user \<Rightarrow> (model_error, db) result" where
  "update_squad_member_role d i uid r actor =
     (if \<not> exists_row (\<lambda>m. sm_squad m = i \<and> sm_user m = uid) (squad_members d) then Err MemberNotFound
      else rbind (squad_authority d actor i) (\<lambda>authority.
        case find (\<lambda>c. \<not> grant_contains authority c) (btree_iter (caps (grant_new r {}))) of
          Some over \<Rightarrow> Err (CannotGrantHeld over)
        | None \<Rightarrow> Ok (d\<lparr>squad_members :=
            update_rows (\<lambda>m. sm_squad m = i \<and> sm_user m = uid)
              (\<lambda>m. m\<lparr>sm_role := role_as_str r\<rparr>) (squad_members d)\<rparr>)))"

definition remove_squad_member :: "db \<Rightarrow> int \<Rightarrow> int \<Rightarrow> user \<Rightarrow> (model_error, db) result" where
  "remove_squad_member d i uid actor =
     rbind (squad_authority d actor i) (\<lambda>authority.
       case find (\<lambda>m. sm_squad m = i \<and> sm_user m = uid) (squad_members d) of
         None \<Rightarrow> Err MemberNotFound
       | Some target \<Rightarrow> (case role_from_str (sm_role target) of
           None \<Rightarrow> Err InvalidSquadRole
         | Some r \<Rightarrow> (case find (\<lambda>c. \<not> grant_contains authority c)
                              (btree_iter (caps (grant_new r {}))) of
             Some over \<Rightarrow> Err (CannotRemoveHeld over)
           | None \<Rightarrow> Ok (d\<lparr>squad_members :=
               filter (\<lambda>m. \<not> (sm_squad m = i \<and> sm_user m = uid)) (squad_members d)\<rparr>))))"

definition live_server :: "db \<Rightarrow> int \<Rightarrow> bool" where
  "live_server d sid \<longleftrightarrow> exists_row (\<lambda>s. s_id s = sid \<and> \<not> s_deleted s) (servers d)"

definition add_squad_server :: "db \<Rightarrow> int \<Rightarrow> int \<Rightarrow> (model_error, db) result" where
  "add_squad_server d i sid =
     (if \<not> exists_row (\<lambda>q. sq_id q = i) (squads d) then Err SquadNotFound
      else if \<not> live_server d sid then Err ServerNotFound
      else if exists_row (\<lambda>r. ss_squad r = i \<and> ss_server r = sid) (squad_servers d)
        then Err ServerAlreadyInSquad
      else Ok (d\<lparr>squad_servers := squad_servers d @ [\<lparr>ss_squad = i, ss_server = sid\<rparr>]\<rparr>))"

definition remove_squad_server :: "db \<Rightarrow> int \<Rightarrow> int \<Rightarrow> db" where
  "remove_squad_server d i sid =
     d\<lparr>squad_servers := filter (\<lambda>r. \<not> (ss_squad r = i \<and> ss_server r = sid)) (squad_servers d)\<rparr>"

text \<open>
  The replacement inserts one row per requested id after the delete; a repeated id violates the
  primary key and rolls the transaction back.
\<close>

definition set_squad_servers :: "db \<Rightarrow> int \<Rightarrow> int list \<Rightarrow> (model_error, db) result" where
  "set_squad_servers d i ids =
     (if \<not> exists_row (\<lambda>q. sq_id q = i) (squads d) then Err SquadNotFound
      else if \<not> list_all (live_server d) ids then Err ServerNotFound
      else if \<not> distinct ids then Err ConstraintViolation
      else Ok (d\<lparr>squad_servers := filter (\<lambda>r. ss_squad r \<noteq> i) (squad_servers d)
             @ map (\<lambda>sid. \<lparr>ss_squad = i, ss_server = sid\<rparr>) ids\<rparr>))"

section \<open>What a grant amounts to\<close>

definition preset :: "string \<Rightarrow> capability set" where
  "preset r = (case role_from_str r of Some ro \<Rightarrow> role_capabilities ro | None \<Rightarrow> {})"

definition opt_caps :: "grant option \<Rightarrow> capability set" where
  "opt_caps g = (case g of Some g \<Rightarrow> caps g | None \<Rightarrow> {})"

lemma opt_caps_simps [simp]: "opt_caps None = {}" "opt_caps (Some g) = caps g"
  by (simp_all add: opt_caps_def)

lemma preset_role [simp]: "preset (role_as_str r) = role_capabilities r"
  by (simp add: preset_def)

lemma caps_grant_new [simp]: "caps (grant_new r X) = role_capabilities r \<union> X"
  by (simp add: grant_new_def)

lemma caps_most_permissive [simp]: "caps (most_permissive a b) = caps a \<union> caps b"
  by (auto simp: most_permissive_def grant_custom_def)

lemma fold_roles_Ok:
  assumes "fold_roles g rs = Ok g'"
  shows "opt_caps g' = opt_caps g \<union> (\<Union>r\<in>set rs. preset r) \<and> (g' = None \<longleftrightarrow> g = None \<and> rs = [])"
  using assms
proof (induction g rs rule: fold_roles.induct)
  case (2 g r rs)
  then show ?case by (cases "role_from_str r") (auto simp: preset_def split: option.splits)
qed simp

lemma set_squad_join:
  "m \<in> set (squad_join d uid sid) \<longleftrightarrow> m \<in> set (squad_members d) \<and> sm_user m = uid
     \<and> (\<exists>ss\<in>set (squad_servers d). ss_squad ss = sm_squad m \<and> ss_server ss = sid)"
  by (auto simp: squad_join_def)

lemma squad_grant_caps:
  assumes "squad_grant d uid sid = Ok g"
  shows "opt_caps g = (\<Union>m\<in>set (squad_join d uid sid). preset (sm_role m))"
    and "g = None \<longleftrightarrow> squad_join d uid sid = []"
  using fold_roles_Ok [OF assms [unfolded squad_grant_def]] by auto

lemma owns_live_iff: "owns_live d u sid \<longleftrightarrow>
   (\<exists>s\<in>set (servers d). s_id s = sid \<and> s_user_id s = u_id u \<and> \<not> s_deleted s)"
  by (simp add: owns_live_def)

lemma owns_live_scope [simp]: "owns_live d (u\<lparr>u_key_scope := x\<rparr>) sid = owns_live d u sid"
  by (simp add: owns_live_def)

lemma raw_server_grant_plain:
  assumes "\<not> u_root_admin u" "\<not> owns_live d u sid" "raw_server_grant jp d u sid = Ok g"
  shows "g \<noteq> None \<longleftrightarrow> (\<exists>r\<in>set (subusers d). su_server r = sid \<and> su_user r = u_id u)
           \<or> squad_join d (u_id u) sid \<noteq> []"
proof -
  obtain sg where sg: "squad_grant d (u_id u) sid = Ok sg"
    using assms by (auto simp: raw_server_grant_def Let_def rbind_Ok_iff)
  note squad = squad_grant_caps(2) [OF sg]
  show ?thesis
  proof (cases "find (\<lambda>r. su_server r = sid \<and> su_user r = u_id u) (subusers d)")
    case None
    with assms sg have "g = sg" by (simp add: raw_server_grant_def)
    moreover from None have "\<not> (\<exists>r\<in>set (subusers d). su_server r = sid \<and> su_user r = u_id u)"
      by (auto simp: find_None_set)
    ultimately show ?thesis using squad by auto
  next
    case (Some r)
    with assms sg have "g \<noteq> None" by (auto simp: raw_server_grant_def split: option.splits)
    moreover from Some have "r \<in> set (subusers d)" "su_server r = sid" "su_user r = u_id u"
      by (auto dest: find_Some_set)
    ultimately show ?thesis by blast
  qed
qed

lemma server_grant_scoped:
  assumes "server_grant jp d u sid = Ok (Some g)" "u_key_scope u = Some sc"
  shows "\<exists>r. raw_server_grant jp d u sid = Ok (Some r) \<and> caps g = {c \<in> caps r. scope_allows sc sid c}"
  using assms by (auto simp: server_grant_def rbind_Ok_iff grant_custom_def)

section \<open>Properties of grants\<close>

text \<open>The grant a user derives from squads is exactly the union of the role presets of their
  memberships in squads that contain the server: no membership is lost, none from another squad or
  another user leaks in, and without any such membership there is no grant. (\<open>most_permissive\<close>
  therefore never depends on the order in which SQLite returns the rows.)\<close>
theorem squad_grant_is_union:
  assumes "squad_grant d uid sid = Ok g"
  shows "opt_caps g = \<Union> {preset (sm_role m) | m. m \<in> set (squad_members d) \<and> sm_user m = uid
           \<and> (\<exists>ss\<in>set (squad_servers d). ss_squad ss = sm_squad m \<and> ss_server ss = sid)}
    \<and> (g = None) = (\<nexists>m. m \<in> set (squad_members d) \<and> sm_user m = uid
           \<and> (\<exists>ss\<in>set (squad_servers d). ss_squad ss = sm_squad m \<and> ss_server ss = sid))"
proof -
  let ?M = "{m \<in> set (squad_members d). sm_user m = uid
     \<and> (\<exists>ss\<in>set (squad_servers d). ss_squad ss = sm_squad m \<and> ss_server ss = sid)}"
  have M: "set (squad_join d uid sid) = ?M" using set_squad_join by blast
  have "opt_caps g = (\<Union>m\<in>?M. preset (sm_role m))"
    using squad_grant_caps(1) [OF assms] unfolding M .
  moreover have "(g = None) = (?M = {})" using squad_grant_caps(2) [OF assms] M by (metis set_empty)
  ultimately show ?thesis unfolding image_Collect by blast
qed


text \<open>The two authorization checks agree in the safe direction: a user who passes a capability
  check on a server also passes the access check on it, with or without a key scope.\<close>
theorem capability_implies_access:
  assumes "user_has_capability jp d u sid c = Ok True"
  shows "user_has_server_access d u sid"
proof -
  from assms obtain g where g: "server_grant jp d u sid = Ok (Some g)" and c: "c \<in> caps g"
    by (auto simp: user_has_capability_def rbind_Ok_iff grant_contains_def split: option.splits)
  then obtain r where r: "raw_server_grant jp d u sid = Ok (Some r)"
    by (auto simp: server_grant_def rbind_Ok_iff split: option.splits)
  have scope: "\<not> (case u_key_scope u of
      Some sc \<Rightarrow> ks_server_ids sc \<noteq> [] \<and> sid \<notin> set (ks_server_ids sc) | None \<Rightarrow> False)"
    using server_grant_scoped [OF g] c by (auto simp: scope_allows_def split: option.splits)
  show ?thesis
    using raw_server_grant_plain [OF _ _ r] scope by (auto simp: user_has_server_access_def)
qed

section \<open>Squad membership operations\<close>

datatype squad_op =
    AddMember int int role
  | UpdateRole int int role
  | RemoveMember int int

fun op_squad :: "squad_op \<Rightarrow> int" where
  "op_squad (AddMember i _ _) = i"
| "op_squad (UpdateRole i _ _) = i"
| "op_squad (RemoveMember i _) = i"

fun squad_step :: "db \<Rightarrow> user \<times> squad_op \<Rightarrow> db" where
  "squad_step d (actor, AddMember i uid r) =
     (case add_squad_member d i uid r actor of Ok d' \<Rightarrow> d' | Err _ \<Rightarrow> d)"
| "squad_step d (actor, UpdateRole i uid r) =
     (case update_squad_member_role d i uid r actor of Ok d' \<Rightarrow> d' | Err _ \<Rightarrow> d)"
| "squad_step d (actor, RemoveMember i uid) =
     (case remove_squad_member d i uid actor of Ok d' \<Rightarrow> d' | Err _ \<Rightarrow> d)"

definition held :: "db \<Rightarrow> int \<Rightarrow> capability set" where
  "held d i = (\<Union>m\<in>{m \<in> set (squad_members d). sm_squad m = i}. preset (sm_role m))"

definition ordinary :: "db \<Rightarrow> user \<times> squad_op \<Rightarrow> bool" where
  "ordinary d s \<longleftrightarrow> \<not> u_root_admin (fst s) \<and> \<not> created_squad d (fst s) (op_squad (snd s))"

lemma ordinary_authority:
  assumes "squad_authority d actor i = Ok g" "\<not> u_root_admin actor" "\<not> created_squad d actor i"
  shows "caps g \<subseteq> held d i"
proof -
  let ?ms = "filter (\<lambda>m. sm_squad m = i \<and> sm_user m = u_id actor) (squad_members d)"
  from assms have "fold_roles None (map sm_role ?ms) = Ok (Some g)"
    by (auto simp: squad_authority_def rbind_Ok_iff split: option.splits)
  from fold_roles_Ok [OF this] have "caps g = (\<Union>m\<in>set ?ms. preset (sm_role m))" by simp
  then show ?thesis by (auto simp: held_def)
qed

lemma add_squad_member_Ok:
  assumes "add_squad_member d i uid r actor = Ok d'"
  obtains g where "squad_authority d actor i = Ok g" "role_capabilities r \<subseteq> caps g"
    "d' = d\<lparr>squad_members := squad_members d @ [\<lparr>sm_squad = i, sm_user = uid, sm_role = role_as_str r\<rparr>]\<rparr>"
  using assms unfolding add_squad_member_def
  by (auto simp: rbind_Ok_iff find_btree_iter_None grant_contains_def split: if_splits option.splits)

lemma update_squad_member_role_Ok:
  assumes "update_squad_member_role d i uid r actor = Ok d'"
  obtains g where "squad_authority d actor i = Ok g" "role_capabilities r \<subseteq> caps g"
    "d' = d\<lparr>squad_members := update_rows (\<lambda>m. sm_squad m = i \<and> sm_user m = uid)
              (\<lambda>m. m\<lparr>sm_role := role_as_str r\<rparr>) (squad_members d)\<rparr>"
  using assms unfolding update_squad_member_role_def
  by (auto simp: rbind_Ok_iff find_btree_iter_None grant_contains_def split: if_splits option.splits)

lemma remove_squad_member_Ok:
  assumes "remove_squad_member d i uid actor = Ok d'"
  shows "d' = d\<lparr>squad_members :=
            filter (\<lambda>m. \<not> (sm_squad m = i \<and> sm_user m = uid)) (squad_members d)\<rparr>"
  using assms unfolding remove_squad_member_def rbind_def
  by (auto split: sum.splits option.splits)

lemma squad_step_squads [simp]: "squads (squad_step d s) = squads d"
proof (cases s)
  case (Pair actor op)
  then show ?thesis
    by (cases op) (auto split: sum.splits elim: add_squad_member_Ok update_squad_member_role_Ok
          dest: remove_squad_member_Ok)
qed

lemma held_add:
  "role_capabilities r \<subseteq> held d i \<Longrightarrow>
   held (d\<lparr>squad_members := squad_members d @ [\<lparr>sm_squad = i, sm_user = uid, sm_role = role_as_str r\<rparr>]\<rparr>) j
     \<subseteq> held d j"
  by (fastforce simp: held_def)

lemma held_update:
  "role_capabilities r \<subseteq> held d i \<Longrightarrow>
   held (d\<lparr>squad_members := update_rows (\<lambda>m. sm_squad m = i \<and> sm_user m = uid)
              (\<lambda>m. m\<lparr>sm_role := role_as_str r\<rparr>) (squad_members d)\<rparr>) j \<subseteq> held d j"
  by (fastforce simp: held_def set_update_rows split: if_splits)

lemma squad_step_held:
  assumes "ordinary d s"
  shows "held (squad_step d s) j \<subseteq> held d j"
proof (cases s)
  case (Pair actor op)
  with assms have ord: "\<not> u_root_admin actor" "\<not> created_squad d actor (op_squad op)"
    by (auto simp: ordinary_def)
  note below = order_trans [OF _ ordinary_authority [OF _ ord]]
  show ?thesis
  proof (cases op)
    case (AddMember i uid r)
    show ?thesis unfolding Pair AddMember using below AddMember
      by (auto split: sum.splits elim!: add_squad_member_Ok dest!: held_add [THEN subsetD])
  next
    case (UpdateRole i uid r)
    show ?thesis unfolding Pair UpdateRole using below UpdateRole
      by (auto split: sum.splits elim!: update_squad_member_role_Ok dest!: held_update [THEN subsetD])
  next
    case (RemoveMember i uid)
    show ?thesis unfolding Pair RemoveMember
      by (auto split: sum.splits dest!: remove_squad_member_Ok simp: held_def)
  qed
qed

lemma ordinary_squads: "squads d' = squads d \<Longrightarrow> ordinary d' s = ordinary d s"
  by (simp add: ordinary_def created_squad_def)

lemma squad_run_held:
  assumes "\<forall>s\<in>set ops. ordinary d s"
  shows "held (foldl squad_step d ops) j \<subseteq> held d j"
  using assms
proof (induction ops arbitrary: d)
  case (Cons s ops)
  have "\<forall>t\<in>set ops. ordinary (squad_step d s) t"
    using Cons.prems by (simp add: ordinary_squads [of "squad_step d s" d])
  from Cons.IH [OF this] squad_step_held [of d s j] Cons.prems show ?case by auto
qed simp

text \<open>C3: No escalation through squads: over any sequence of add, re-role and remove requests made by
  users who are neither root admins nor the creator of the squad they act on, the capabilities
  carried by the members of any squad never grow beyond what its members held at the start.\<close>
theorem squad_ops_never_escalate:
  assumes "\<forall>s\<in>set ops. ordinary d s"
    and m: "m \<in> set (squad_members (foldl squad_step d ops))"
  shows "preset (sm_role m)
           \<subseteq> \<Union> {preset (sm_role n) | n. n \<in> set (squad_members d) \<and> sm_squad n = sm_squad m}"
proof -
  have "preset (sm_role m) \<subseteq> held (foldl squad_step d ops) (sm_squad m)" using m by (auto simp: held_def)
  also have "\<dots> \<subseteq> held d (sm_squad m)" by (rule squad_run_held [OF assms(1)])
  finally show ?thesis by (simp add: held_def image_Collect)
qed

section \<open>Subuser grants round trip\<close>

lemma find_append_new: "find P xs = None \<Longrightarrow> P x \<Longrightarrow> find P (xs @ [x]) = Some x"
  by (induction xs) (auto split: if_splits)

text \<open>Adding a member stores a grant that reads back exactly: after \<open>add_subuser\<close> succeeds, the
  new member (not a root admin, not the owner, in no squad of this server, no scoped key) holds
  precisely the role and the capabilities of the grant that was added. The JSON printer and parser
  are parameters; they must agree on the names of this grant.\<close>
theorem add_subuser_roundtrip:
  assumes "add_subuser jprint d sid uid g = Ok d'"
    and "jparse (jprint (grant_names g)) = Some (grant_names g)"
    and "role_capabilities (role g) \<subseteq> caps g"
    and "u_id u = uid" "\<not> u_root_admin u" "u_key_scope u = None"
    and "\<not> owns_live d u sid" "squad_join d uid sid = []"
  shows "server_grant jparse d' u sid = Ok (Some g)"
proof -
  let ?row = "\<lparr>su_server = sid, su_user = uid, su_permissions = to_json jprint g,
          su_role = role_as_str (role g)\<rparr>"
  from assms(1) have d': "d' = d\<lparr>subusers := subusers d @ [?row]\<rparr>"
    and new: "find (\<lambda>r. su_server r = sid \<and> su_user r = uid) (subusers d) = None"
    by (auto simp: add_subuser_def find_None_set split: if_splits)
  have "find (\<lambda>r. su_server r = sid \<and> su_user r = u_id u) (subusers d') = Some ?row"
    using find_append_new [OF new, of ?row] assms(4) by (simp add: d')
  moreover have "squad_join d' uid sid = squad_join d uid sid" by (simp add: d' squad_join_def)
  then have "squad_grant d' (u_id u) sid = Ok None" using assms(4,8) by (simp add: squad_grant_def)
  moreover have "\<not> owns_live d' u sid" using assms(7) by (simp add: d' owns_live_def)
  ultimately show ?thesis
    using assms from_stored_to_json [of jparse jprint g]
    by (simp add: server_grant_def raw_server_grant_def)
qed

section \<open>Witnesses\<close>

definition wuser :: "int \<Rightarrow> user" where
  "wuser i = \<lparr>u_id = i, u_username = ''user'', u_email = ''u@example.org'', u_avatar = [],
     u_language = ''en'', u_theme = ''dark'', u_root_admin = False, u_active = True,
     u_twofa_secret = None, u_twofa_enabled = False, u_about = [], u_created_at = 0,
     u_updated_at = 0, u_key_scope = None\<rparr>"

definition wserver :: "int \<Rightarrow> int \<Rightarrow> server" where
  "wserver i owner = \<lparr>s_id = i, s_uuid = ''u'', s_name = ''srv'', s_user_id = owner,
     s_blueprint_id = 1, s_description = [], s_status = ''offline'', s_runtime_hint = [],
     s_startup = [], s_node = ''local'', s_port = None, s_memory_mb = 512, s_disk_mb = 1024,
     s_cpu_percent = 100, s_suspended = False, s_auto_restart = True, s_restart_count = 0,
     s_crash_detect_clean_exit = False, s_crash_restart_budget = 3, s_crash_restarts = 0,
     s_crash_window_start = None, s_crash_reason = [], s_network_mbps = 0, s_created_at = 0,
     s_updated_at = 0, s_deleted = False\<rparr>"

definition wdb :: db where
  "wdb = empty_db\<lparr>users := [wuser 1, wuser 2, wuser 3], servers := [wserver 7 1],
     squads := [\<lparr>sq_id = 5, sq_name = ''ops'', sq_created_by = 1, sq_created_at = 0\<rparr>], squad_seq := 5,
     squad_members := [\<lparr>sm_squad = 5, sm_user = 2, sm_role = ''operator''\<rparr>],
     squad_servers := [\<lparr>ss_squad = 5, ss_server = 7\<rparr>]\<rparr>"

definition wscope :: key_scope where
  "wscope = \<lparr>ks_capabilities = [FilesRead, FilesWrite], ks_wildcard = False, ks_server_ids = [7]\<rparr>"

lemmas witness_defs = wuser_def wserver_def wdb_def wscope_def empty_db_def

theorem squad_grant_is_union_witness:
  "opt_caps (Some (grant_new Operator {})) = \<Union> {preset (sm_role m) | m. m \<in> set (squad_members wdb) \<and> sm_user m = 2
           \<and> (\<exists>ss\<in>set (squad_servers wdb). ss_squad ss = sm_squad m \<and> ss_server ss = 7)}"
proof -
  have "squad_grant wdb 2 7 = Ok (Some (grant_new Operator {}))"
    by (simp add: squad_grant_def squad_join_def witness_defs role_from_str_def)
  from squad_grant_is_union [OF this] show ?thesis by blast
qed


theorem capability_implies_access_witness: "user_has_server_access wdb (wuser 2) 7"
proof (rule capability_implies_access)
  show "user_has_capability (\<lambda>_. None) wdb (wuser 2) 7 ControlStart = Ok True"
    by (simp add: user_has_capability_def server_grant_def raw_server_grant_def owns_live_def
          count_rows_def squad_grant_def squad_join_def witness_defs role_from_str_def grant_new_def
          role_capabilities_def grant_contains_def)
qed

theorem squad_ops_never_escalate_witness:
  "\<lparr>sm_squad = 5, sm_user = 3, sm_role = ''viewer''\<rparr>
     \<in> set (squad_members (foldl squad_step wdb [(wuser 2, AddMember 5 3 Viewer)]))
   \<and> preset ''viewer'' \<subseteq> \<Union> {preset (sm_role n) | n. n \<in> set (squad_members wdb) \<and> sm_squad n = 5}"
proof -
  let ?m = "\<lparr>sm_squad = 5, sm_user = 3, sm_role = ''viewer''\<rparr>"
  have ord: "\<forall>s\<in>set [(wuser 2, AddMember 5 3 Viewer)]. ordinary wdb s"
    by (simp add: ordinary_def created_squad_def count_rows_def witness_defs)
  have m: "?m \<in> set (squad_members (foldl squad_step wdb [(wuser 2, AddMember 5 3 Viewer)]))"
    by (simp add: add_squad_member_def squad_authority_def created_squad_def count_rows_def
          witness_defs role_from_str_def grant_contains_def role_capabilities_def btree_iter_def ALL_CAPS_def)
  from squad_ops_never_escalate [OF ord m] m show ?thesis by simp
qed

theorem add_subuser_roundtrip_witness:
  "\<exists>d'. add_subuser plain_json_print wdb 7 3 (grant_new Viewer {FilesWrite}) = Ok d'
     \<and> server_grant plain_json_parse d' (wuser 3) 7 = Ok (Some (grant_new Viewer {FilesWrite}))"
proof -
  let ?g = "grant_new Viewer {FilesWrite}"
  obtain d' where d': "add_subuser plain_json_print wdb 7 3 ?g = Ok d'"
    by (simp add: add_subuser_def witness_defs)
  have json: "plain_json_parse (plain_json_print (grant_names ?g)) = Some (grant_names ?g)"
    by code_simp
  from add_subuser_roundtrip [where jparse = plain_json_parse and u = "wuser 3", OF d' json] have
    "server_grant plain_json_parse d' (wuser 3) 7 = Ok (Some ?g)"
    by (simp add: subset_insertI grant_new_def wuser_def owns_live_def count_rows_def squad_join_def wdb_def
          wserver_def empty_db_def)
  with d' show ?thesis by blast
qed

end
