(* ===== verification/Keys.thy ===== *)
theory Keys
  imports Access
begin

text \<open>
  API keys (\<open>src/src/services/keys.rs\<close>): creation, listing, revocation, and authentication of a
  bearer token into its owner and scope. SHA-256 (\<open>hash\<close>), the random token and the two JSON codecs
  (arrays of strings, arrays of integers) are parameters; the clock is an argument.
\<close>

definition MAX_TTL_DAYS :: int where "MAX_TTL_DAYS = 3650"

definition day_ns :: int where "day_ns = 86400 * 10 ^ 9"

record api_key_info =
  ki_id :: int
  ki_name :: string
  ki_capabilities :: "string list"
  ki_server_ids :: "int list"
  ki_expires_at :: "stamp option"
  ki_revoked :: bool
  ki_created_at :: instant
  ki_last_used :: "instant option"

record codec =
  print_names :: "string list \<Rightarrow> string"
  parse_names_json :: "string \<Rightarrow> string list option"
  print_ids :: "int list \<Rightarrow> string"
  parse_ids :: "string \<Rightarrow> int list option"

definition star_json :: string where "star_json = CHR ''['' # quote # ''*'' @ [quote] @ '']''"

definition parse_scope :: "codec \<Rightarrow> string \<Rightarrow> string \<Rightarrow> key_scope option" where
  "parse_scope cd caps_json ids_json =
     (case parse_names_json cd caps_json of
        None \<Rightarrow> None
      | Some names \<Rightarrow> (case parse_ids cd ids_json of
          None \<Rightarrow> None
        | Some ids \<Rightarrow> Some \<lparr>ks_capabilities = List.map_filter capability_from_str names,
            ks_wildcard = list_ex (\<lambda>n. n = ''*'') names, ks_server_ids = ids\<rparr>))"

definition parse_names :: "codec \<Rightarrow> string \<Rightarrow> string list" where
  "parse_names cd j = (case parse_names_json cd j of Some ns \<Rightarrow> ns | None \<Rightarrow> [])"

definition create_key ::
  "codec \<Rightarrow> (string \<Rightarrow> string) \<Rightarrow> instant \<Rightarrow> string \<Rightarrow> db \<Rightarrow> int \<Rightarrow> string \<Rightarrow> string list \<Rightarrow> int list
     \<Rightarrow> int option \<Rightarrow> (model_error, db \<times> int \<times> string) result" where
  "create_key cd hash now random d uid name cs ids ttl =
     (if cs = [] then Err EmptyCapabilities
      else case find (\<lambda>c. c \<noteq> ''*'' \<and> capability_from_str c = None) cs of
        Some c \<Rightarrow> Err (UnknownCapability c)
      | None \<Rightarrow>
          if (case ttl of Some t \<Rightarrow> t \<le> 0 | None \<Rightarrow> False) then Err TtlNotPositive
          else if (case ttl of Some t \<Rightarrow> MAX_TTL_DAYS < t | None \<Rightarrow> False) then Err TtlTooLarge
          else
            let raw = ''vp_'' @ random;
                row = \<lparr>ak_id = api_key_seq d + 1, ak_user = uid, ak_token = hash raw, ak_name = name,
                  ak_capabilities = (if list_ex (\<lambda>c. c = ''*'') cs then star_json else print_names cd cs),
                  ak_server_ids = print_ids cd ids,
                  ak_expires_at = map_option (\<lambda>t. Stamp (now + t * day_ns)) ttl,
                  ak_revoked = False, ak_created_at = now, ak_last_used = None\<rparr>
            in if exists_row (\<lambda>k. ak_token k = hash raw) (api_keys d)
                  \<or> \<not> exists_row (\<lambda>u. u_id u = uid) (users d)
               then Err ConstraintViolation
               else Ok (d\<lparr>api_keys := api_keys d @ [row], api_key_seq := api_key_seq d + 1\<rparr>,
                        api_key_seq d + 1, raw))"

definition list_keys :: "codec \<Rightarrow> db \<Rightarrow> int \<Rightarrow> api_key_info list" where
  "list_keys cd d uid = map (\<lambda>k. \<lparr>ki_id = ak_id k, ki_name = ak_name k,
       ki_capabilities = parse_names cd (ak_capabilities k),
       ki_server_ids = (case parse_ids cd (ak_server_ids k) of Some is \<Rightarrow> is | None \<Rightarrow> []),
       ki_expires_at = ak_expires_at k, ki_revoked = ak_revoked k,
       ki_created_at = ak_created_at k, ki_last_used = ak_last_used k\<rparr>)
     (rev (sort_key ak_id (filter (\<lambda>k. ak_user k = uid) (api_keys d))))"

definition revoke_key :: "db \<Rightarrow> int \<Rightarrow> db" where
  "revoke_key d i =
     d\<lparr>api_keys := update_rows (\<lambda>k. ak_id k = i) (\<lambda>k. k\<lparr>ak_revoked := True\<rparr>) (api_keys d)\<rparr>"

definition delete_key :: "db \<Rightarrow> int \<Rightarrow> db" where
  "delete_key d i = d\<lparr>api_keys := filter (\<lambda>k. ak_id k \<noteq> i) (api_keys d)\<rparr>"

definition touch_api_key :: "instant \<Rightarrow> db \<Rightarrow> int \<Rightarrow> db" where
  "touch_api_key now d i =
     d\<lparr>api_keys := update_rows (\<lambda>k. ak_id k = i) (\<lambda>k. k\<lparr>ak_last_used := Some now\<rparr>) (api_keys d)\<rparr>"

definition key_expired :: "instant \<Rightarrow> stamp option \<Rightarrow> bool" where
  "key_expired now e = (case e of
     None \<Rightarrow> False | Some BadStamp \<Rightarrow> True | Some (Stamp t) \<Rightarrow> t \<le> now)"

definition authenticate ::
  "codec \<Rightarrow> (string \<Rightarrow> string) \<Rightarrow> instant \<Rightarrow> db \<Rightarrow> string
     \<Rightarrow> (model_error, db \<times> (user \<times> key_scope) option) result" where
  "authenticate cd hash now d raw =
     (case find (\<lambda>k. ak_token k = hash raw) (api_keys d) of
        None \<Rightarrow> Ok (d, None)
      | Some k \<Rightarrow>
          if ak_revoked k then Ok (d, None)
          else if key_expired now (ak_expires_at k) then Ok (d, None)
          else rbind (get_user d (ak_user k)) (\<lambda>u.
            if \<not> u_active u then Ok (d, None)
            else
              let d' = touch_api_key now d (ak_id k) in
              case parse_scope cd (ak_capabilities k) (ak_server_ids k) of
                None \<Rightarrow> Ok (d', None)
              | Some sc \<Rightarrow> Ok (d', Some (u, sc))))"

definition enforce ::
  "(string \<Rightarrow> string list option) \<Rightarrow> db \<Rightarrow> user \<Rightarrow> key_scope \<Rightarrow> int \<Rightarrow> capability \<Rightarrow> bool" where
  "enforce jp d u sc sid c \<longleftrightarrow> scope_allows sc sid c \<and> user_has_capability jp d u sid c = Ok True"

section \<open>Lemmas\<close>

lemma create_key_Ok:
  assumes "create_key cd hash now random d uid name cs ids ttl = Ok (d', i, raw)"
  obtains row where "d' = d\<lparr>api_keys := api_keys d @ [row], api_key_seq := api_key_seq d + 1\<rparr>"
    "raw = ''vp_'' @ random" "i = api_key_seq d + 1" "ak_id row = i" "ak_user row = uid"
    "ak_token row = hash raw" "\<not> ak_revoked row"
    "ak_capabilities row = (if ''*'' \<in> set cs then star_json else print_names cd cs)"
    "ak_server_ids row = print_ids cd ids"
    "ak_expires_at row = map_option (\<lambda>t. Stamp (now + t * day_ns)) ttl"
    "find (\<lambda>k. ak_token k = hash raw) (api_keys d) = None"
    "\<forall>c\<in>set cs. c \<noteq> ''*'' \<longrightarrow> capability_from_str c \<noteq> None"
proof -
  let ?row = "\<lparr>ak_id = api_key_seq d + 1, ak_user = uid, ak_token = hash (''vp_'' @ random), ak_name = name,
      ak_capabilities = (if list_ex (\<lambda>c. c = ''*'') cs then star_json else print_names cd cs),
      ak_server_ids = print_ids cd ids, ak_expires_at = map_option (\<lambda>t. Stamp (now + t * day_ns)) ttl,
      ak_revoked = False, ak_created_at = now, ak_last_used = None\<rparr>"
  have known: "find (\<lambda>c. c \<noteq> ''*'' \<and> capability_from_str c = None) cs = None"
    using assms by (cases "find (\<lambda>c. c \<noteq> ''*'' \<and> capability_from_str c = None) cs")
      (auto simp: create_key_def split: if_split_asm)
  have new: "\<not> exists_row (\<lambda>k. ak_token k = hash (''vp_'' @ random)) (api_keys d)"
    and r: "d' = d\<lparr>api_keys := api_keys d @ [?row], api_key_seq := api_key_seq d + 1\<rparr>" "raw = ''vp_'' @ random"
      "i = api_key_seq d + 1"
    using assms by (auto simp: create_key_def known Let_def simp del: exists_row_iff split: if_split_asm)
  have "ak_capabilities ?row = (if ''*'' \<in> set cs then star_json else print_names cd cs)"
    by (auto simp: list_ex_iff)
  moreover have "find (\<lambda>k. ak_token k = hash raw) (api_keys d) = None" using new r by (auto simp: find_None_set)
  moreover have "\<forall>c\<in>set cs. c \<noteq> ''*'' \<longrightarrow> capability_from_str c \<noteq> None" using known by (simp only: find_None_set de_Morgan_conj not_not imp_conv_disj)
  ultimately show thesis by (intro that [of ?row]) (simp_all only: r api_key_row.simps simp_thms)
qed

lemma touch_find_token:
  "find (\<lambda>k. ak_token k = t) (api_keys (touch_api_key now d i))
     = map_option (\<lambda>k. if ak_id k = i then k\<lparr>ak_last_used := Some now\<rparr> else k)
         (find (\<lambda>k. ak_token k = t) (api_keys d))"
  by (simp add: touch_api_key_def find_update_rows_key)

lemma scope_of_names:
  assumes "\<forall>c\<in>set cs. c \<noteq> ''*'' \<longrightarrow> capability_from_str c \<noteq> None" "''*'' \<notin> set cs"
  shows "as_str ` set (List.map_filter capability_from_str cs) = set cs"
proof -
  have "as_str c \<in> set cs \<longleftrightarrow> c \<in> set (List.map_filter capability_from_str cs)" for c
    by (force simp: map_filter_def from_str_Some_iff)
  moreover have "s \<in> as_str ` UNIV" if "s \<in> set cs" for s
    using assms that by (auto simp: from_str_Some_iff)
  ultimately show ?thesis by blast
qed

section \<open>Properties\<close>

text \<open>A freshly created key authenticates its owner, before its expiry, with exactly the scope that
  was asked for: the same server ids, and either the wildcard or precisely the named capabilities.\<close>
theorem create_then_authenticate:
  assumes "create_key cd hash now random d uid name cs ids ttl = Ok (d', i, raw)"
    and "parse_names_json cd (print_names cd cs) = Some cs"
    and "parse_names_json cd star_json = Some [''*'']"
    and "parse_ids cd (print_ids cd ids) = Some ids"
    and "get_user d uid = Ok u" "u_active u"
    and "case ttl of None \<Rightarrow> True | Some t \<Rightarrow> now' < now + t * day_ns"
  shows "\<exists>d'' sc. authenticate cd hash now' d' raw = Ok (d'', Some (u, sc))
     \<and> ks_server_ids sc = ids \<and> ks_wildcard sc = (''*'' \<in> set cs)
     \<and> (''*'' \<notin> set cs \<longrightarrow> as_str ` set (ks_capabilities sc) = set cs)"
proof -
  from assms(1) obtain row where row: "d' = d\<lparr>api_keys := api_keys d @ [row], api_key_seq := api_key_seq d + 1\<rparr>"
    "ak_user row = uid" "ak_token row = hash raw" "\<not> ak_revoked row"
    "ak_capabilities row = (if ''*'' \<in> set cs then star_json else print_names cd cs)"
    "ak_server_ids row = print_ids cd ids"
    "ak_expires_at row = map_option (\<lambda>t. Stamp (now + t * day_ns)) ttl"
    "find (\<lambda>k. ak_token k = hash raw) (api_keys d) = None"
    "\<forall>c\<in>set cs. c \<noteq> ''*'' \<longrightarrow> capability_from_str c \<noteq> None"
    by (rule create_key_Ok)
  have found: "find (\<lambda>k. ak_token k = hash raw) (api_keys d') = Some row"
    using find_append_new [OF row(8), of row] row(1,3) by simp
  have live: "\<not> key_expired now' (ak_expires_at row)"
    using assms(7) row(7) by (auto simp: key_expired_def split: option.splits)
  obtain sc where sc: "parse_scope cd (ak_capabilities row) (ak_server_ids row) = Some sc"
    "ks_server_ids sc = ids" "ks_wildcard sc = (''*'' \<in> set cs)"
    "''*'' \<notin> set cs \<longrightarrow> as_str ` set (ks_capabilities sc) = set cs"
    using assms(2-4) row(5,6) scope_of_names [OF row(9)]
    by (cases "''*'' \<in> set cs") (simp_all add: parse_scope_def list_ex_iff)
  have "get_user d' uid = Ok u" using assms(5) row(1) by (simp add: get_user_def)
  with found live sc row(2,4) assms(6) show ?thesis by (auto simp: authenticate_def Let_def)
qed

text \<open>Revocation, deletion and expiry are final for a key: once a key row is revoked, deleted, or
  past its expiry instant, its token never yields an identity again, and the refused attempt leaves
  the database unchanged.\<close>
theorem dead_key_never_authenticates:
  assumes "find (\<lambda>k. ak_token k = hash raw) (api_keys d) = Some k"
    and "\<And>k'. k' \<in> set (api_keys d) \<Longrightarrow> ak_token k' = hash raw \<Longrightarrow> k' = k"
  shows "authenticate cd hash now (revoke_key d (ak_id k)) raw = Ok (revoke_key d (ak_id k), None)
    \<and> authenticate cd hash now (delete_key d (ak_id k)) raw = Ok (delete_key d (ak_id k), None)
    \<and> (key_expired now (ak_expires_at k) \<longrightarrow> authenticate cd hash now d raw = Ok (d, None))"
proof -
  have "find (\<lambda>k. ak_token k = hash raw) (api_keys (revoke_key d (ak_id k)))
      = Some (k\<lparr>ak_revoked := True\<rparr>)"
    using assms(1) by (simp add: revoke_key_def find_update_rows_key)
  moreover have "find (\<lambda>k. ak_token k = hash raw) (api_keys (delete_key d (ak_id k))) = None"
    using assms(2) by (auto simp: find_None_set delete_key_def)
  ultimately show ?thesis
    using assms(1) by (simp add: authenticate_def)
qed

section \<open>Witnesses\<close>

definition wcodec :: codec where
  "wcodec = \<lparr>print_names = plain_json_print, parse_names_json = plain_json_parse,
     print_ids = (\<lambda>ids. map (\<lambda>i. char_of (nat i)) ids),
     parse_ids = (\<lambda>s. Some (map (\<lambda>c. int (of_char c)) s))\<rparr>"

definition wkey :: api_key_row where
  "wkey = \<lparr>ak_id = 1, ak_user = 2, ak_token = ''vp_tok'', ak_name = ''ci'', ak_capabilities = star_json,
     ak_server_ids = [], ak_expires_at = Some (Stamp 100), ak_revoked = False, ak_created_at = 0,
     ak_last_used = None\<rparr>"

theorem create_then_authenticate_witness:
  "\<exists>d' d'' sc. create_key wcodec id 0 ''tok'' wdb 2 ''ci'' [''files.read''] [7] (Some 1) = Ok (d', 1, ''vp_tok'')
     \<and> authenticate wcodec id 5 d' ''vp_tok'' = Ok (d'', Some (wuser 2, sc))
     \<and> ks_server_ids sc = [7] \<and> ks_wildcard sc = (''*'' \<in> set [''files.read''])
     \<and> (''*'' \<notin> set [''files.read''] \<longrightarrow> as_str ` set (ks_capabilities sc) = set [''files.read''])"
proof -
  obtain d' where d': "create_key wcodec id 0 ''tok'' wdb 2 ''ci'' [''files.read''] [7] (Some 1)
      = Ok (d', 1, ''vp_tok'')"
    by (simp add: create_key_def MAX_TTL_DAYS_def witness_defs Let_def capability_from_str_def ALL_CAPS_def)
  have "get_user wdb 2 = Ok (wuser 2)" "u_active (wuser 2)" by (simp_all add: get_user_def witness_defs)
  moreover have "parse_names_json wcodec (print_names wcodec [''files.read'']) = Some [''files.read'']"
    "parse_names_json wcodec star_json = Some [''*'']"
    by (simp_all add: wcodec_def star_json_def plain_json_parse_def plain_json_print_def quote_def)
  moreover have "parse_ids wcodec (print_ids wcodec [7]) = Some [7]"
    by (simp add: wcodec_def)
  ultimately show ?thesis
    using create_then_authenticate [OF d', where u = "wuser 2" and now' = 5] d'
    by (force simp: day_ns_def)
qed

theorem dead_key_never_authenticates_witness:
  "authenticate wcodec id 100 (revoke_key (wdb\<lparr>api_keys := [wkey]\<rparr>) 1) ''vp_tok''
     = Ok (revoke_key (wdb\<lparr>api_keys := [wkey]\<rparr>) 1, None)
   \<and> authenticate wcodec id 100 (wdb\<lparr>api_keys := [wkey]\<rparr>) ''vp_tok'' = Ok (wdb\<lparr>api_keys := [wkey]\<rparr>, None)"
  using dead_key_never_authenticates [of id "''vp_tok''" "wdb\<lparr>api_keys := [wkey]\<rparr>" wkey wcodec 100]
  by (simp add: wkey_def key_expired_def)

end
