(* ===== verification/Allocations.thy ===== *)
theory Allocations
  imports Access
begin

text \<open>
  Port allocations (\<open>src/src/models.rs\<close>, section Allocations, and the handlers of
  \<open>src/src/api/allocations.rs\<close>). The database carries two unique indexes that an update can hit:
  \<open>allocations(node, port)\<close> and \<open>servers(node, port)\<close> for live servers with a port; a violation
  rolls the transaction back.
\<close>

definition MIN_WORKLOAD_PORT :: int where "MIN_WORKLOAD_PORT = 1024"
definition MAX_WORKLOAD_PORT :: int where "MAX_WORKLOAD_PORT = 65535"

definition validate_port :: "int \<Rightarrow> (model_error, unit) result" where
  "validate_port p = (if MIN_WORKLOAD_PORT \<le> p \<and> p \<le> MAX_WORKLOAD_PORT then Ok () else Err PortRange)"

definition list_allocations :: "db \<Rightarrow> int \<Rightarrow> allocation list" where
  "list_allocations d sid =
     sort_key (\<lambda>a. (\<not> a_primary a, a_port a))
       (filter (\<lambda>a. a_server a = sid) (allocations d))"

definition get_allocation :: "db \<Rightarrow> int \<Rightarrow> (model_error, allocation) result" where
  "get_allocation d i = (case find (\<lambda>a. a_id a = i) (allocations d) of
     Some a \<Rightarrow> Ok a | None \<Rightarrow> Err AllocationNotFound)"

definition ports_for_server :: "db \<Rightarrow> int \<Rightarrow> int list" where
  "ports_for_server d sid = map a_port (list_allocations d sid)"

definition set_port :: "instant \<Rightarrow> db \<Rightarrow> int \<Rightarrow> int \<Rightarrow> (model_error, db) result" where
  "set_port now d sid p =
     (let d' = on_server sid (\<lambda>s. s\<lparr>s_port := Some p, s_updated_at := now\<rparr>) d in
      if \<exists>s\<in>set (servers d'). \<exists>t\<in>set (servers d'). s_id s = sid \<and> s_id t \<noteq> sid \<and> \<not> s_deleted s
           \<and> \<not> s_deleted t \<and> s_node s = s_node t \<and> s_port t = Some p
      then Err ConstraintViolation else Ok d')"

definition has_primary :: "db \<Rightarrow> int \<Rightarrow> bool" where
  "has_primary d sid \<longleftrightarrow> exists_row (\<lambda>a. a_server a = sid \<and> a_primary a) (allocations d)"

definition add_allocation ::
  "instant \<Rightarrow> db \<Rightarrow> int \<Rightarrow> int \<Rightarrow> string \<Rightarrow> (model_error, db \<times> int) result" where
  "add_allocation now d sid port notes =
     rbind (validate_port port) (\<lambda>_.
     rbind (get_server_any d sid) (\<lambda>s.
       if s_deleted s then Err DeletedWorkspace
       else
         let existing = find (\<lambda>a. a_node a = s_node s \<and> a_port a = port) (allocations d);
             primary = has_primary d sid
         in rbind
              (case existing of
                 Some a \<Rightarrow>
                   if a_server a \<noteq> sid then Err PortTaken
                   else Ok (if notes = [] then d
                            else d\<lparr>allocations := update_rows (\<lambda>b. a_id b = a_id a)
                                    (\<lambda>b. b\<lparr>a_notes := notes\<rparr>) (allocations d)\<rparr>, a_id a)
               | None \<Rightarrow>
                   Ok (d\<lparr>allocations := allocations d @ [\<lparr>a_id = alloc_seq d + 1, a_server = sid,
                          a_port = port, a_node = s_node s, a_assigned_at = now, a_notes = notes,
                          a_primary = (\<not> primary)\<rparr>], alloc_seq := alloc_seq d + 1\<rparr>, alloc_seq d + 1))
              (\<lambda>(d', i).
                if primary then Ok (d', i)
                else rbind (set_port now d' sid port) (\<lambda>d''. Ok (d'', i)))))"

definition allocate_port :: "instant \<Rightarrow> db \<Rightarrow> int \<Rightarrow> int \<Rightarrow> (model_error, db) result" where
  "allocate_port now d sid port = rbind (add_allocation now d sid port []) (\<lambda>(d', _). Ok d')"

definition set_primary_allocation :: "instant \<Rightarrow> db \<Rightarrow> int \<Rightarrow> (model_error, db) result" where
  "set_primary_allocation now d i =
     rbind (get_allocation d i) (\<lambda>a.
       set_port now (d\<lparr>allocations := update_rows (\<lambda>b. a_server b = a_server a)
         (\<lambda>b. b\<lparr>a_primary := (a_id b = i)\<rparr>) (allocations d)\<rparr>) (a_server a) (a_port a))"

definition set_allocation_notes :: "db \<Rightarrow> int \<Rightarrow> string \<Rightarrow> (model_error, db) result" where
  "set_allocation_notes d i notes =
     (if \<not> exists_row (\<lambda>a. a_id a = i) (allocations d) then Err AllocationNotFound
      else Ok (d\<lparr>allocations := update_rows (\<lambda>a. a_id a = i) (\<lambda>a. a\<lparr>a_notes := notes\<rparr>) (allocations d)\<rparr>))"

definition remove_allocation :: "db \<Rightarrow> int \<Rightarrow> (model_error, db) result" where
  "remove_allocation d i =
     rbind (get_allocation d i) (\<lambda>a.
       if a_primary a then Err PrimaryAllocation
       else Ok (d\<lparr>allocations := filter (\<lambda>b. a_id b \<noteq> i) (allocations d)\<rparr>))"

definition free_ports :: "instant \<Rightarrow> db \<Rightarrow> int \<Rightarrow> db" where
  "free_ports now d sid =
     on_server sid (\<lambda>s. s\<lparr>s_port := None, s_updated_at := now\<rparr>)
       (d\<lparr>allocations := filter (\<lambda>a. a_server a \<noteq> sid) (allocations d)\<rparr>)"

definition delete_server :: "instant \<Rightarrow> db \<Rightarrow> int \<Rightarrow> db" where
  "delete_server now d sid =
     on_server sid (\<lambda>s. s\<lparr>s_deleted := True, s_port := None, s_updated_at := now\<rparr>)
       (d\<lparr>allocations := filter (\<lambda>a. a_server a \<noteq> sid) (allocations d)\<rparr>)"

definition set_server_node :: "instant \<Rightarrow> db \<Rightarrow> int \<Rightarrow> string \<Rightarrow> (model_error, db) result" where
  "set_server_node now d sid node =
     (let d' = d\<lparr>allocations := update_rows (\<lambda>a. a_server a = sid) (\<lambda>a. a\<lparr>a_node := node\<rparr>) (allocations d)\<rparr>;
          d'' = on_server sid (\<lambda>s. s\<lparr>s_node := node, s_updated_at := now\<rparr>) d'
      in if \<not> distinct (map (\<lambda>a. (a_node a, a_port a)) (allocations d')) then Err ConstraintViolation
         else if \<exists>s\<in>set (servers d''). \<exists>t\<in>set (servers d''). s_id s = sid \<and> s_id t \<noteq> sid
              \<and> \<not> s_deleted s \<and> \<not> s_deleted t \<and> s_node s = s_node t
              \<and> s_port s \<noteq> None \<and> s_port s = s_port t
         then Err ConstraintViolation
         else Ok d'')"

section \<open>The handlers\<close>

datatype api_error = ApiNotFound | ApiForbidden | ApiBadRequest | ApiConflict | ApiUnauthorized | ApiInternal

definition of_model :: "api_error \<Rightarrow> (model_error, 'a) result \<Rightarrow> (api_error, 'a) result" where
  "of_model e r = (case r of Ok x \<Rightarrow> Ok x | Err _ \<Rightarrow> Err e)"

text \<open>The request context: the JSON parser, the clock, the audit settings and the host's ports.\<close>

record env =
  e_json :: "string \<Rightarrow> string list option"
  e_now :: instant
  e_audit :: audit_env
  e_port_in_use :: "int \<Rightarrow> bool"

definition require_capability ::
  "env \<Rightarrow> db \<Rightarrow> user \<Rightarrow> int \<Rightarrow> capability \<Rightarrow> (api_error, unit) result" where
  "require_capability e d u sid c =
     rbind (of_model ApiInternal (user_has_capability (e_json e) d u sid c)) (\<lambda>ok.
       if ok then Ok () else Err ApiForbidden)"

definition access_ok :: "db \<Rightarrow> user \<Rightarrow> int \<Rightarrow> (api_error, server) result" where
  "access_ok d u sid =
     rbind (of_model ApiNotFound (get_server d sid)) (\<lambda>s.
       if user_has_server_access d u (s_id s) then Ok s else Err ApiForbidden)"

definition DEFAULT_ALLOCATION_LIMIT :: int where "DEFAULT_ALLOCATION_LIMIT = 16"

definition allocation_limit :: "env \<Rightarrow> db \<Rightarrow> int" where
  "allocation_limit e d =
     (case Option.bind (get_setting d ''limits.max_allocations_per_server'') parse_i64 of
        Some v \<Rightarrow> clamp_to 1 64 v | None \<Rightarrow> DEFAULT_ALLOCATION_LIMIT)"

definition owned_allocation :: "db \<Rightarrow> int \<Rightarrow> int \<Rightarrow> (api_error, allocation) result" where
  "owned_allocation d sid i =
     rbind (of_model ApiNotFound (get_allocation d i)) (\<lambda>a.
       if a_server a \<noteq> sid then Err ApiNotFound else Ok a)"

definition allocation_count :: "db \<Rightarrow> int \<Rightarrow> int" where
  "allocation_count d sid = int (length (ports_for_server d sid))"

definition api_list :: "env \<Rightarrow> db \<Rightarrow> user \<Rightarrow> int \<Rightarrow> (api_error, allocation list) result" where
  "api_list e d u sid =
     rbind (access_ok d u sid) (\<lambda>_.
     rbind (require_capability e d u sid AllocationRead) (\<lambda>_. Ok (list_allocations d sid)))"

text \<open>
  The handlers that write return the database beside their result: each call they make commits on
  its own, so a later failure does not undo an earlier write.
\<close>

definition api_add ::
  "env \<Rightarrow> db \<Rightarrow> user \<Rightarrow> int \<Rightarrow> int \<Rightarrow> string \<Rightarrow> db \<times> (api_error, allocation) result" where
  "api_add e d u sid port notes =
     (case access_ok d u sid of Err x \<Rightarrow> (d, Err x) | Ok s \<Rightarrow>
      case require_capability e d u sid AllocationWrite of Err x \<Rightarrow> (d, Err x) | Ok _ \<Rightarrow>
      case validate_port port of Err _ \<Rightarrow> (d, Err ApiBadRequest) | Ok _ \<Rightarrow>
      if allocation_limit e d \<le> allocation_count d sid then (d, Err ApiBadRequest)
      else if e_port_in_use e port then (d, Err ApiBadRequest)
      else case add_allocation (e_now e) d sid port (trim notes) of
        Err _ \<Rightarrow> (d, Err ApiBadRequest)
      | Ok (d', i) \<Rightarrow> (case get_allocation d' i of
          Err _ \<Rightarrow> (d', Err ApiInternal)
        | Ok a \<Rightarrow> (audit_scoped (e_audit e) d' (Some (u_id u)) ''allocation_create'' (s_name s) []
              (''port='' @ show_int port) (Some sid), Ok a)))"

definition api_update ::
  "env \<Rightarrow> db \<Rightarrow> user \<Rightarrow> int \<Rightarrow> int \<Rightarrow> string option \<Rightarrow> bool option \<Rightarrow> db \<times> (api_error, allocation) result" where
  "api_update e d u sid i notes primary =
     (case access_ok d u sid of Err x \<Rightarrow> (d, Err x) | Ok s \<Rightarrow>
      case require_capability e d u sid AllocationWrite of Err x \<Rightarrow> (d, Err x) | Ok _ \<Rightarrow>
      case owned_allocation d sid i of Err x \<Rightarrow> (d, Err x) | Ok _ \<Rightarrow>
      case (case notes of Some n \<Rightarrow> set_allocation_notes d i n | None \<Rightarrow> Ok d) of
        Err _ \<Rightarrow> (d, Err ApiInternal)
      | Ok d1 \<Rightarrow>
      (case (if primary = Some True then set_primary_allocation (e_now e) d1 i else Ok d1) of
        Err _ \<Rightarrow> (d1, Err ApiInternal)
      | Ok d2 \<Rightarrow>
      (case get_allocation d2 i of
        Err _ \<Rightarrow> (d2, Err ApiInternal)
      | Ok a \<Rightarrow> (audit_scoped (e_audit e) d2 (Some (u_id u))
             (if primary = Some True then ''allocation_promote'' else ''allocation_update'')
             (s_name s) [] (''port='' @ show_int (a_port a)) (Some sid), Ok a))))"

definition api_remove :: "env \<Rightarrow> db \<Rightarrow> user \<Rightarrow> int \<Rightarrow> int \<Rightarrow> db \<times> (api_error, unit) result" where
  "api_remove e d u sid i =
     (case access_ok d u sid of Err x \<Rightarrow> (d, Err x) | Ok s \<Rightarrow>
      case require_capability e d u sid AllocationWrite of Err x \<Rightarrow> (d, Err x) | Ok _ \<Rightarrow>
      case owned_allocation d sid i of Err x \<Rightarrow> (d, Err x) | Ok a \<Rightarrow>
      case remove_allocation d i of
        Err _ \<Rightarrow> (d, Err ApiBadRequest)
      | Ok d' \<Rightarrow> (audit_scoped (e_audit e) d' (Some (u_id u)) ''allocation_delete'' (s_name s) []
             (''port='' @ show_int (a_port a)) (Some sid), Ok ()))"

section \<open>The invariant\<close>

text \<open>
  Endpoints are unique per node; an allocation belongs to a live server and sits on that server's
  node; a server without allocations has no port, and otherwise its port is the port of its primary
  allocation. Deleted servers therefore hold nothing.
\<close>

definition keys_wf :: "db \<Rightarrow> bool" where
  "keys_wf d \<longleftrightarrow> distinct (map s_id (servers d)) \<and> (\<forall>s\<in>set (servers d). s_id s \<le> server_seq d)
     \<and> distinct (map a_id (allocations d)) \<and> (\<forall>a\<in>set (allocations d). a_id a \<le> alloc_seq d)"

definition endpoints_unique :: "db \<Rightarrow> bool" where
  "endpoints_unique d \<longleftrightarrow> distinct (map (\<lambda>a. (a_node a, a_port a)) (allocations d))"

definition owners_wf :: "db \<Rightarrow> bool" where
  "owners_wf d \<longleftrightarrow> (\<forall>a\<in>set (allocations d). MIN_WORKLOAD_PORT \<le> a_port a \<and> a_port a \<le> MAX_WORKLOAD_PORT
     \<and> (\<exists>s\<in>set (servers d). s_id s = a_server a \<and> s_node s = a_node a \<and> \<not> s_deleted s))"

definition mirrors :: "allocation list \<Rightarrow> server \<Rightarrow> bool" where
  "mirrors as s \<longleftrightarrow> (case s_port s of
     None \<Rightarrow> \<forall>a\<in>set as. a_server a \<noteq> s_id s
   | Some p \<Rightarrow> (\<exists>a\<in>set as. a_server a = s_id s \<and> a_primary a \<and> a_port a = p)
       \<and> (\<forall>a\<in>set as. a_server a = s_id s \<longrightarrow> a_primary a \<longrightarrow> a_port a = p))"

definition alloc_wf :: "db \<Rightarrow> bool" where
  "alloc_wf d \<longleftrightarrow> keys_wf d \<and> endpoints_unique d \<and> owners_wf d \<and> (\<forall>s\<in>set (servers d). mirrors (allocations d) s)"

lemmas alloc_wf_defs = alloc_wf_def keys_wf_def endpoints_unique_def owners_wf_def

section \<open>Preservation\<close>

lemma server_unique:
  "keys_wf d \<Longrightarrow> s \<in> set (servers d) \<Longrightarrow> t \<in> set (servers d) \<Longrightarrow> s_id s = s_id t \<Longrightarrow> s = t"
  by (auto simp: keys_wf_def distinct_map inj_on_def)

lemma allocation_unique:
  "keys_wf d \<Longrightarrow> a \<in> set (allocations d) \<Longrightarrow> b \<in> set (allocations d) \<Longrightarrow> a_id a = a_id b \<Longrightarrow> a = b"
  by (auto simp: keys_wf_def distinct_map inj_on_def)

lemma endpoint_unique:
  "endpoints_unique d \<Longrightarrow> a \<in> set (allocations d) \<Longrightarrow> b \<in> set (allocations d) \<Longrightarrow> a_node a = a_node b
     \<Longrightarrow> a_port a = a_port b \<Longrightarrow> a = b"
  by (auto simp: endpoints_unique_def distinct_map inj_on_def)

lemma mirrors_None: "s_port s = None \<Longrightarrow> mirrors as s \<longleftrightarrow> (\<forall>a\<in>set as. a_server a \<noteq> s_id s)"
  by (simp add: mirrors_def)

lemma mirrors_Some: "s_port s = Some p \<Longrightarrow> mirrors as s \<longleftrightarrow>
    (\<exists>a\<in>set as. a_server a = s_id s \<and> a_primary a \<and> a_port a = p)
       \<and> (\<forall>a\<in>set as. a_server a = s_id s \<longrightarrow> a_primary a \<longrightarrow> a_port a = p)"
  by (simp add: mirrors_def)

lemma alloc_wf_primary:
  assumes "alloc_wf d" "a \<in> set (allocations d)"
  shows "has_primary d (a_server a)"
proof -
  from assms obtain s where s: "s \<in> set (servers d)" "s_id s = a_server a"
    by (auto simp: alloc_wf_def owners_wf_def)
  with assms have "mirrors (allocations d) s" by (simp add: alloc_wf_def)
  with s assms(2) show ?thesis
    by (cases "s_port s") (auto simp: has_primary_def mirrors_None mirrors_Some)
qed

lemma map_on_server:
  "(\<And>s. g (f s) = g s) \<Longrightarrow> map g (servers (on_server i f d)) = map g (servers d)"
  by (simp add: servers_on_server map_update_rows)

text \<open>
  The invariant only sees the key columns, so an update of any other column keeps it.
\<close>

definition srv_view :: "server \<Rightarrow> int \<times> string \<times> int option \<times> bool" where
  "srv_view s = (s_id s, s_node s, s_port s, s_deleted s)"

definition alc_view :: "allocation \<Rightarrow> int \<times> int \<times> string \<times> int \<times> bool" where
  "alc_view a = (a_id a, a_server a, a_node a, a_port a, a_primary a)"

lemma view_transfer:
  "map v xs = map v ys \<Longrightarrow> y \<in> set ys \<Longrightarrow> \<exists>x\<in>set xs. v x = v y"
  by (metis imageE image_eqI image_set)

lemma srv_view_eq: "srv_view s = srv_view t \<longleftrightarrow>
    s_id s = s_id t \<and> s_node s = s_node t \<and> s_port s = s_port t \<and> s_deleted s = s_deleted t"
  by (simp add: srv_view_def)

lemma alc_view_eq: "alc_view a = alc_view b \<longleftrightarrow>
    a_id a = a_id b \<and> a_server a = a_server b \<and> a_node a = a_node b \<and> a_port a = a_port b
    \<and> a_primary a = a_primary b"
  by (simp add: alc_view_def)

lemma map_of_view: "map v xs = map v ys \<Longrightarrow> map (g \<circ> v) xs = map (g \<circ> v) ys"
  by (metis map_map)

lemma map_views:
  "map srv_view ss = map srv_view ss' \<Longrightarrow> map s_id ss = map s_id ss'"
  "map alc_view as = map alc_view as' \<Longrightarrow> map a_id as = map a_id as'"
  "map alc_view as = map alc_view as' \<Longrightarrow>
     map (\<lambda>a. (a_node a, a_port a)) as = map (\<lambda>a. (a_node a, a_port a)) as'"
  using map_of_view [of srv_view ss ss' fst] map_of_view [of alc_view as as' fst]
    map_of_view [of alc_view as as' "\<lambda>(_, _, n, p, _). (n, p)"]
  by (simp_all add: comp_def srv_view_def alc_view_def)

lemma mirrors_cong:
  assumes "mirrors as s" "srv_view s = srv_view s'" "map alc_view as = map alc_view as'"
  shows "mirrors as' s'"
proof -
  have fwd: "\<exists>a\<in>set as. alc_view a = alc_view a'" if "a' \<in> set as'" for a'
    using view_transfer [OF assms(3) that] .
  have bwd: "\<exists>a'\<in>set as'. alc_view a' = alc_view a" if "a \<in> set as" for a
    using view_transfer [OF assms(3) [symmetric] that] .
  show ?thesis
  proof (cases "s_port s")
    case None
    with assms(1,2) fwd show ?thesis by (fastforce simp: srv_view_eq alc_view_eq mirrors_None)
  next
    case (Some p)
    with assms(1) obtain a where a: "a \<in> set as" "a_server a = s_id s" "a_primary a" "a_port a = p"
      and u: "\<forall>a\<in>set as. a_server a = s_id s \<longrightarrow> a_primary a \<longrightarrow> a_port a = p"
      by (auto simp: mirrors_Some)
    from bwd [OF a(1)] a have "\<exists>a'\<in>set as'. a_server a' = s_id s \<and> a_primary a' \<and> a_port a' = p"
      by (auto simp: alc_view_eq)
    moreover have "\<forall>a'\<in>set as'. a_server a' = s_id s \<longrightarrow> a_primary a' \<longrightarrow> a_port a' = p"
      using fwd u by (fastforce simp: alc_view_eq)
    moreover have "s_port s' = Some p" "s_id s' = s_id s" using Some assms(2) by (simp_all add: srv_view_eq)
    ultimately show ?thesis by (simp add: mirrors_Some)
  qed
qed

lemma alloc_wf_cong:
  assumes wf: "alloc_wf d"
    and S: "map srv_view (servers d) = map srv_view (servers d')"
    and A: "map alc_view (allocations d) = map alc_view (allocations d')"
    and "server_seq d' = server_seq d" "alloc_seq d' = alloc_seq d"
  shows "alloc_wf d'"
proof -
  note s_fwd = view_transfer [OF S] and s_bwd = view_transfer [OF S [symmetric]]
  note a_fwd = view_transfer [OF A]
  have "keys_wf d'"
    using wf s_fwd a_fwd assms(4,5) map_views(1) [OF S] map_views(2) [OF A]
    by (fastforce simp: alloc_wf_def keys_wf_def srv_view_eq alc_view_eq)
  moreover have "endpoints_unique d'"
    using wf map_views(3) [OF A] by (simp add: alloc_wf_def endpoints_unique_def)
  moreover have "owners_wf d'"
    unfolding owners_wf_def
  proof
    fix a' assume "a' \<in> set (allocations d')"
    from a_fwd [OF this] obtain a where a: "a \<in> set (allocations d)" "alc_view a = alc_view a'" by blast
    with wf obtain s where s: "s \<in> set (servers d)" "s_id s = a_server a" "s_node s = a_node a" "\<not> s_deleted s"
      and r: "MIN_WORKLOAD_PORT \<le> a_port a" "a_port a \<le> MAX_WORKLOAD_PORT"
      by (auto simp: alloc_wf_def owners_wf_def)
    from s_bwd [OF s(1)] obtain s' where "s' \<in> set (servers d')" "srv_view s' = srv_view s" by blast
    with a(2) s r show "MIN_WORKLOAD_PORT \<le> a_port a' \<and> a_port a' \<le> MAX_WORKLOAD_PORT \<and>
        (\<exists>s\<in>set (servers d'). s_id s = a_server a' \<and> s_node s = a_node a' \<and> \<not> s_deleted s)"
      by (auto simp: srv_view_eq alc_view_eq)
  qed
  moreover have "mirrors (allocations d') s'" if "s' \<in> set (servers d')" for s'
    using s_fwd [OF that] mirrors_cong [OF _ _ A] wf by (auto simp: alloc_wf_def)
  ultimately show ?thesis by (simp add: alloc_wf_def)
qed

lemma alloc_wf_server_update:
  assumes "alloc_wf d" "\<And>s. srv_view (f s) = srv_view s"
  shows "alloc_wf (on_server i f d)"
  using assms by (intro alloc_wf_cong [OF assms(1)]) (simp_all add: map_on_server)

lemma alloc_wf_notes:
  assumes "alloc_wf d"
  shows "alloc_wf (d\<lparr>allocations := update_rows P (\<lambda>b. b\<lparr>a_notes := n\<rparr>) (allocations d)\<rparr>)"
  by (rule alloc_wf_cong [OF assms]) (simp_all add: map_update_rows alc_view_def)

lemma mirrors_filter:
  "mirrors as s \<Longrightarrow> (\<And>a. a \<in> set as \<Longrightarrow> a_server a = s_id s \<Longrightarrow> a_primary a \<Longrightarrow> P a) \<Longrightarrow> mirrors (filter P as) s"
  by (cases "s_port s") (auto simp: mirrors_None mirrors_Some)

lemma alloc_wf_filter:
  assumes "alloc_wf d" "\<And>a. a \<in> set (allocations d) \<Longrightarrow> a_primary a \<Longrightarrow> P a"
  shows "alloc_wf (d\<lparr>allocations := filter P (allocations d)\<rparr>)"
  using assms by (auto simp: alloc_wf_defs distinct_map_filter intro!: mirrors_filter)

lemma mirrors_free: "s_port s = None \<Longrightarrow> mirrors (filter (\<lambda>a. a_server a \<noteq> s_id s) as) s"
  by (simp add: mirrors_None)

lemma alloc_wf_release:
  assumes "alloc_wf d" "\<And>s. s_id (f s) = s_id s" "\<And>s. s_port (f s) = None"
  shows "alloc_wf (on_server sid f (d\<lparr>allocations := filter (\<lambda>a. a_server a \<noteq> sid) (allocations d)\<rparr>))"
proof -
  let ?d = "on_server sid f (d\<lparr>allocations := filter (\<lambda>a. a_server a \<noteq> sid) (allocations d)\<rparr>)"
  have "keys_wf ?d" "endpoints_unique ?d"
    using assms by (auto simp: alloc_wf_defs servers_on_server map_update_rows set_update_rows distinct_map_filter)
  moreover have "owners_wf ?d"
    using assms(1) by (fastforce simp: alloc_wf_def owners_wf_def servers_on_server set_update_rows)
  moreover have "mirrors (allocations ?d) s" if "s \<in> set (servers ?d)" for s
  proof -
    from that obtain t where t: "t \<in> set (servers d)" "s = (if s_id t = sid then f t else t)"
      by (auto simp: servers_on_server set_update_rows)
    show ?thesis
    proof (cases "s_id t = sid")
      case True
      with t assms(2,3) mirrors_free [of "f t"] show ?thesis by simp
    next
      case False
      with t assms(1) show ?thesis by (auto simp: alloc_wf_def intro!: mirrors_filter)
    qed
  qed
  ultimately show ?thesis by (simp add: alloc_wf_def)
qed

lemma alloc_wf_purge:
  assumes "alloc_wf d"
  shows "alloc_wf (purge_server d i)"
proof -
  have "owners_wf (purge_server d i)"
    using assms by (fastforce simp: alloc_wf_def owners_wf_def purge_server_def)
  then show ?thesis
    using assms by (auto simp: alloc_wf_def keys_wf_def endpoints_unique_def purge_server_def
        distinct_map_filter intro!: mirrors_filter)
qed

lemma alloc_wf_create:
  assumes wf: "alloc_wf d" and ok: "create_server be now d uu n uid bp h st m dk c nt = Ok (d', i)"
  shows "alloc_wf d'"
proof -
  define s where "s = new_server_row now (server_seq d + 1) uu n uid bp h st m dk c nt"
  have s: "s_id s = server_seq d + 1" "s_port s = None"
    "d' = d\<lparr>servers := servers d @ [s], server_seq := server_seq d + 1\<rparr>"
    using ok by (auto simp: s_def create_server_def Let_def split: if_splits)
  have fresh: "\<forall>t\<in>set (servers d). s_id t \<noteq> s_id s" using wf s(1) by (fastforce simp: alloc_wf_def keys_wf_def)
  have "keys_wf d'" using wf s fresh by (fastforce simp: alloc_wf_def keys_wf_def)
  moreover have "endpoints_unique d'" "owners_wf d'"
    using wf s by (auto simp: alloc_wf_def endpoints_unique_def owners_wf_def)
  moreover have "mirrors (allocations d') s"
    using wf s fresh by (fastforce simp: alloc_wf_def owners_wf_def mirrors_None)
  ultimately show ?thesis using wf s by (simp add: alloc_wf_def)
qed

lemma set_port_Ok:
  "set_port now d sid p = Ok d' \<Longrightarrow> d' = on_server sid (\<lambda>s. s\<lparr>s_port := Some p, s_updated_at := now\<rparr>) d"
  by (simp add: set_port_def Let_def split: if_splits)

lemma get_server_any_Ok: "get_server_any d i = Ok s \<Longrightarrow> s \<in> set (servers d) \<and> s_id s = i"
  by (auto simp: get_server_any_def dest: find_Some_set split: option.splits)

lemma get_allocation_Ok: "get_allocation d i = Ok a \<Longrightarrow> a \<in> set (allocations d) \<and> a_id a = i"
  by (auto simp: get_allocation_def dest: find_Some_set split: option.splits)

lemma validate_port_Ok: "validate_port p = Ok u \<longleftrightarrow> MIN_WORKLOAD_PORT \<le> p \<and> p \<le> MAX_WORKLOAD_PORT"
  by (simp add: validate_port_def)

text \<open>The row \<open>add_allocation\<close> inserts.\<close>

definition new_alloc :: "instant \<Rightarrow> db \<Rightarrow> server \<Rightarrow> int \<Rightarrow> string \<Rightarrow> bool \<Rightarrow> allocation" where
  "new_alloc now d s port notes prim = \<lparr>a_id = alloc_seq d + 1, a_server = s_id s, a_port = port,
     a_node = s_node s, a_assigned_at = now, a_notes = notes, a_primary = prim\<rparr>"

definition with_alloc :: "db \<Rightarrow> allocation \<Rightarrow> db" where
  "with_alloc d a = d\<lparr>allocations := allocations d @ [a], alloc_seq := alloc_seq d + 1\<rparr>"

lemma with_alloc_simps [simp]:
  "servers (with_alloc d a) = servers d" "allocations (with_alloc d a) = allocations d @ [a]"
  "server_seq (with_alloc d a) = server_seq d" "alloc_seq (with_alloc d a) = alloc_seq d + 1"
  by (simp_all add: with_alloc_def)

lemma new_alloc_simps [simp]:
  "a_id (new_alloc now d s p n pr) = alloc_seq d + 1" "a_server (new_alloc now d s p n pr) = s_id s"
  "a_port (new_alloc now d s p n pr) = p" "a_node (new_alloc now d s p n pr) = s_node s"
  "a_primary (new_alloc now d s p n pr) = pr" "a_notes (new_alloc now d s p n pr) = n"
  by (simp_all add: new_alloc_def)

text \<open>What a successful \<open>add_allocation\<close> did: one of three things.\<close>

lemma add_allocation_cases:
  assumes ok: "add_allocation now d sid port notes = Ok (d', i)" and wf: "alloc_wf d"
  obtains (own) a s where "a \<in> set (allocations d)" "a_server a = sid" "a_port a = port" "i = a_id a"
      "s \<in> set (servers d)" "s_id s = sid" "s_node s = a_node a" "\<not> s_deleted s"
      "d' = (if notes = [] then d else d\<lparr>allocations := update_rows (\<lambda>b. a_id b = a_id a)
                                    (\<lambda>b. b\<lparr>a_notes := notes\<rparr>) (allocations d)\<rparr>)"
  | (secondary) s where "s \<in> set (servers d)" "s_id s = sid" "\<not> s_deleted s" "has_primary d sid"
      "\<forall>a\<in>set (allocations d). \<not> (a_node a = s_node s \<and> a_port a = port)"
      "MIN_WORKLOAD_PORT \<le> port" "port \<le> MAX_WORKLOAD_PORT"
      "d' = with_alloc d (new_alloc now d s port notes False)" "i = alloc_seq d + 1"
  | (primary) s where "s \<in> set (servers d)" "s_id s = sid" "\<not> s_deleted s" "\<not> has_primary d sid"
      "\<forall>a\<in>set (allocations d). \<not> (a_node a = s_node s \<and> a_port a = port)"
      "MIN_WORKLOAD_PORT \<le> port" "port \<le> MAX_WORKLOAD_PORT"
      "d' = on_server sid (\<lambda>s. s\<lparr>s_port := Some port, s_updated_at := now\<rparr>)
              (with_alloc d (new_alloc now d s port notes True))" "i = alloc_seq d + 1"
proof -
  obtain s where s: "get_server_any d sid = Ok s" "\<not> s_deleted s" and
    v: "MIN_WORKLOAD_PORT \<le> port" "port \<le> MAX_WORKLOAD_PORT"
    using ok by (auto simp: add_allocation_def rbind_Ok_iff validate_port_Ok split: if_splits)
  note s' = get_server_any_Ok [OF s(1)]
  have vok: "validate_port port = Ok ()" using v by (simp add: validate_port_def)
  let ?f = "find (\<lambda>a. a_node a = s_node s \<and> a_port a = port) (allocations d)"
  show thesis
  proof (cases ?f)
    case None
    then have free: "\<forall>a\<in>set (allocations d). \<not> (a_node a = s_node s \<and> a_port a = port)"
      by (simp add: find_None_set)
    show thesis
    proof (cases "has_primary d sid")
      case True
      have "d' = with_alloc d (new_alloc now d s port notes False) \<and> i = alloc_seq d + 1"
        using ok vok s s' None True
        by (auto simp: add_allocation_def with_alloc_def new_alloc_def)
      then show thesis using secondary [of s] s s' True free v by blast
    next
      case False
      have "set_port now (with_alloc d (new_alloc now d s port notes True)) sid port = Ok d' \<and> i = alloc_seq d + 1"
        using ok vok s s' None False
        by (auto simp: add_allocation_def rbind_Ok_iff with_alloc_def new_alloc_def)
      then show thesis using primary [of s] set_port_Ok s s' False free v by blast
    qed
  next
    case (Some a)
    note a = find_Some_set [OF Some]
    from ok vok s Some have own': "a_server a = sid"
      by (auto simp: add_allocation_def split: if_splits)
    with a alloc_wf_primary [OF wf] have "has_primary d sid" by blast
    with ok vok s Some own' have "i = a_id a \<and> d' = (if notes = [] then d
        else d\<lparr>allocations := update_rows (\<lambda>b. a_id b = a_id a) (\<lambda>b. b\<lparr>a_notes := notes\<rparr>) (allocations d)\<rparr>)"
      by (auto simp: add_allocation_def)
    then show thesis using own [of a s] a own' s s' by auto
  qed
qed

lemma owners_wf_update:
  assumes "owners_wf d"
    and f: "\<And>s. s_id (f s) = s_id s" "\<And>s. s_deleted (f s) = s_deleted s"
    and g: "\<And>a. a_server (g a) = a_server a" "\<And>a. a_port (g a) = a_port a"
    and nodes: "\<And>s a. s_id s = a_server a \<Longrightarrow> s_node s = a_node a \<Longrightarrow>
      s_node (if s_id s = sid then f s else s) = a_node (if P a then g a else a)"
  shows "owners_wf (on_server sid f (d\<lparr>allocations := update_rows P g (allocations d)\<rparr>))"
  unfolding owners_wf_def
proof
  fix a' assume "a' \<in> set (allocations (on_server sid f (d\<lparr>allocations := update_rows P g (allocations d)\<rparr>)))"
  then obtain a where a: "a \<in> set (allocations d)" "a' = (if P a then g a else a)"
    by (auto simp: set_update_rows)
  with assms(1) obtain s where s: "s \<in> set (servers d)" "s_id s = a_server a" "s_node s = a_node a" "\<not> s_deleted s"
    and r: "MIN_WORKLOAD_PORT \<le> a_port a" "a_port a \<le> MAX_WORKLOAD_PORT"
    by (auto simp: owners_wf_def)
  define s' where "s' = (if s_id s = sid then f s else s)"
  have s': "s' \<in> set (servers (on_server sid f (d\<lparr>allocations := update_rows P g (allocations d)\<rparr>)))"
    using s(1) by (auto simp: s'_def servers_on_server set_update_rows)
  have cols: "s_id s' = a_server a'" "s_node s' = a_node a'" "\<not> s_deleted s'"
    using s f g nodes [OF s(2,3)] by (simp_all add: a(2) s'_def)
  have "a_port a' = a_port a" using g by (simp add: a(2))
  with r s' cols show "MIN_WORKLOAD_PORT \<le> a_port a' \<and> a_port a' \<le> MAX_WORKLOAD_PORT \<and>
    (\<exists>s\<in>set (servers (on_server sid f (d\<lparr>allocations := update_rows P g (allocations d)\<rparr>))).
       s_id s = a_server a' \<and> s_node s = a_node a' \<and> \<not> s_deleted s)"
    by auto
qed

lemma mirrors_on_server:
  "\<forall>t\<in>set (servers d). mirrors as (if s_id t = sid then f t else t) \<Longrightarrow>
     allocations d = as \<Longrightarrow> \<forall>t\<in>set (servers (on_server sid f d)). mirrors (allocations (on_server sid f d)) t"
  unfolding servers_on_server by (auto simp: set_update_rows)

lemma mirrors_map:
  assumes m: "mirrors as s" and s': "s_id s' = s_id s" "s_port s' = s_port s"
    and h: "\<And>a. a_server (h a) = a_server a" "\<And>a. a_port (h a) = a_port a"
      "\<And>a. a_server a = s_id s \<Longrightarrow> a_primary (h a) = a_primary a"
  shows "mirrors (map h as) s'"
proof (cases "s_port s")
  case None
  with m s' h show ?thesis by (simp add: mirrors_None)
next
  case (Some p)
  with m obtain a where a: "a \<in> set as" "a_server a = s_id s" "a_primary a" "a_port a = p"
    by (auto simp: mirrors_Some)
  then have "h a \<in> set (map h as)" "a_server (h a) = s_id s'" "a_primary (h a)" "a_port (h a) = p"
    using h s' by simp_all
  moreover have "\<forall>b\<in>set (map h as). a_server b = s_id s' \<longrightarrow> a_primary b \<longrightarrow> a_port b = p"
    using m Some s' h by (simp add: mirrors_Some)
  ultimately show ?thesis using Some s' by (metis mirrors_Some)
qed

lemma with_alloc_wf:
  assumes "alloc_wf d" "s \<in> set (servers d)" "\<not> s_deleted s"
    "\<forall>a\<in>set (allocations d). \<not> (a_node a = s_node s \<and> a_port a = port)"
    "MIN_WORKLOAD_PORT \<le> port" "port \<le> MAX_WORKLOAD_PORT"
  shows "keys_wf (with_alloc d (new_alloc now d s port nt pr))"
    "endpoints_unique (with_alloc d (new_alloc now d s port nt pr))"
    "owners_wf (with_alloc d (new_alloc now d s port nt pr))"
  using assms
  by (fastforce simp: alloc_wf_def keys_wf_def endpoints_unique_def owners_wf_def)+

lemma mirrors_append:
  "mirrors as s \<Longrightarrow> a_server a \<noteq> s_id s \<or> (\<not> a_primary a \<and> s_port s \<noteq> None) \<Longrightarrow> mirrors (as @ [a]) s"
  by (cases "s_port s") (auto simp: mirrors_None mirrors_Some)

lemma alloc_wf_add_secondary:
  assumes "alloc_wf d" "s \<in> set (servers d)" "\<not> s_deleted s" "has_primary d (s_id s)"
    "\<forall>a\<in>set (allocations d). \<not> (a_node a = s_node s \<and> a_port a = port)"
    "MIN_WORKLOAD_PORT \<le> port" "port \<le> MAX_WORKLOAD_PORT"
  shows "alloc_wf (with_alloc d (new_alloc now d s port nt False))"
proof -
  have "mirrors (allocations d @ [new_alloc now d s port nt False]) t" if t: "t \<in> set (servers d)" for t
  proof (rule mirrors_append)
    show m: "mirrors (allocations d) t" using assms(1) t by (simp add: alloc_wf_def)
    show "a_server (new_alloc now d s port nt False) \<noteq> s_id t
        \<or> (\<not> a_primary (new_alloc now d s port nt False) \<and> s_port t \<noteq> None)"
      using m assms(4) by (cases "s_port t") (auto simp: has_primary_def mirrors_None)
  qed
  then show ?thesis
    using with_alloc_wf [OF assms(1-3,5-7)] by (simp add: alloc_wf_def)
qed

lemma alloc_wf_add_primary:
  assumes "alloc_wf d" "s \<in> set (servers d)" "\<not> s_deleted s" "\<not> has_primary d (s_id s)"
    "\<forall>a\<in>set (allocations d). \<not> (a_node a = s_node s \<and> a_port a = port)"
    "MIN_WORKLOAD_PORT \<le> port" "port \<le> MAX_WORKLOAD_PORT"
  shows "alloc_wf (on_server (s_id s) (\<lambda>s. s\<lparr>s_port := Some port, s_updated_at := now\<rparr>)
           (with_alloc d (new_alloc now d s port nt True)))" (is "alloc_wf (on_server _ ?f ?d)")
proof -
  have none: "\<forall>a\<in>set (allocations d). a_server a \<noteq> s_id s"
    using alloc_wf_primary [OF assms(1)] assms(4) by fastforce
  note parts = with_alloc_wf [OF assms(1-3,5-7), where now = now and nt = nt and pr = True]
  have keys: "keys_wf (on_server (s_id s) ?f ?d)"
    using parts(1) by (auto simp: keys_wf_def servers_on_server map_update_rows set_update_rows)
  have owners: "owners_wf (on_server (s_id s) ?f ?d)"
  proof -
    have "?d\<lparr>allocations := update_rows (\<lambda>_. False) id (allocations ?d)\<rparr> = ?d"
      by (simp add: update_rows_def)
    moreover have "owners_wf (on_server (s_id s) ?f (?d\<lparr>allocations := update_rows (\<lambda>_. False) id (allocations ?d)\<rparr>))"
      using parts(3) by (rule owners_wf_update) auto
    ultimately show ?thesis by simp
  qed
  have "mirrors (allocations ?d) (if s_id t = s_id s then ?f t else t)" if t: "t \<in> set (servers d)" for t
  proof (cases "s_id t = s_id s")
    case True
    then show ?thesis using none by (auto simp: mirrors_Some)
  next
    case False
    with t assms(1) show ?thesis by (auto simp: alloc_wf_def intro!: mirrors_append)
  qed
  then have "\<forall>t\<in>set (servers (on_server (s_id s) ?f ?d)). mirrors (allocations (on_server (s_id s) ?f ?d)) t"
    by (intro mirrors_on_server) simp_all
  moreover have "endpoints_unique (on_server (s_id s) ?f ?d)" using parts(2) by (simp add: endpoints_unique_def)
  ultimately show ?thesis using keys owners by (simp add: alloc_wf_def)
qed

lemma add_allocation_wf:
  assumes "alloc_wf d" "add_allocation now d sid port notes = Ok (d', i)"
  shows "alloc_wf d'"
  using assms(2,1)
proof (cases rule: add_allocation_cases)
  case (own a s)
  then show ?thesis using assms(1) alloc_wf_notes by auto
next
  case (secondary s)
  then show ?thesis using alloc_wf_add_secondary [OF assms(1), of s] by blast
next
  case (primary s)
  then show ?thesis using alloc_wf_add_primary [OF assms(1), of s] by blast
qed

lemma set_primary_wf:
  assumes wf: "alloc_wf d" and ok: "set_primary_allocation now d i = Ok d'"
  shows "alloc_wf d'"
proof -
  obtain a where a: "a \<in> set (allocations d)" "a_id a = i" and
    sp: "set_port now (d\<lparr>allocations := update_rows (\<lambda>b. a_server b = a_server a)
         (\<lambda>b. b\<lparr>a_primary := (a_id b = i)\<rparr>) (allocations d)\<rparr>) (a_server a) (a_port a) = Ok d'"
    using ok by (auto simp: set_primary_allocation_def rbind_Ok_iff dest: get_allocation_Ok)
  let ?g = "\<lambda>b. b\<lparr>a_primary := (a_id b = i)\<rparr>" and ?f = "\<lambda>s. s\<lparr>s_port := Some (a_port a), s_updated_at := now\<rparr>"
  let ?as = "update_rows (\<lambda>b. a_server b = a_server a) ?g (allocations d)"
  have d': "d' = on_server (a_server a) ?f (d\<lparr>allocations := ?as\<rparr>)" using set_port_Ok [OF sp] .
  have keys: "keys_wf d'" "endpoints_unique d'"
    using wf by (auto simp: d' alloc_wf_defs servers_on_server map_update_rows set_update_rows)
  have owners: "owners_wf d'"
    unfolding d' using wf by (intro owners_wf_update) (auto simp: alloc_wf_def)
  have "mirrors ?as (if s_id t = a_server a then ?f t else t)" if t: "t \<in> set (servers d)" for t
  proof (cases "s_id t = a_server a")
    case True
    have "b = a" if "b \<in> set (allocations d)" "a_id b = i" for b
      using allocation_unique [of d b a] wf a that by (simp add: alloc_wf_def)
    then have only: "\<forall>b\<in>set ?as. a_server b = a_server a \<longrightarrow> a_primary b \<longrightarrow> a_port b = a_port a"
      by (auto simp: set_update_rows split: if_splits)
    have "?g a \<in> set ?as" using a(1) by (force simp: set_update_rows)
    with True a(2) only show ?thesis by (auto simp: mirrors_Some intro!: bexI [of _ "?g a"])
  next
    case False
    have "mirrors (allocations d) t" using wf t by (simp add: alloc_wf_def)
    then show ?thesis unfolding update_rows_def by (rule mirrors_map) (use False in auto)
  qed
  then have "\<forall>t\<in>set (servers d'). mirrors (allocations d') t"
    unfolding d' by (intro mirrors_on_server) auto
  then show ?thesis using keys owners by (simp add: alloc_wf_def)
qed

lemma set_server_node_wf:
  assumes wf: "alloc_wf d" and ok: "set_server_node now d sid node = Ok d'"
  shows "alloc_wf d'"
proof -
  let ?as = "update_rows (\<lambda>a. a_server a = sid) (\<lambda>a. a\<lparr>a_node := node\<rparr>) (allocations d)"
  let ?f = "\<lambda>s. s\<lparr>s_node := node, s_updated_at := now\<rparr>"
  have d': "d' = on_server sid ?f (d\<lparr>allocations := ?as\<rparr>)" and
    dist: "distinct (map (\<lambda>a. (a_node a, a_port a)) ?as)"
    using ok by (auto simp: set_server_node_def Let_def split: if_splits)
  have keys: "keys_wf d'"
    using wf by (auto simp: d' alloc_wf_defs servers_on_server map_update_rows set_update_rows)
  have owners: "owners_wf d'"
    unfolding d' using wf by (intro owners_wf_update) (auto simp: alloc_wf_def)
  have "mirrors ?as (if s_id t = sid then ?f t else t)" if t: "t \<in> set (servers d)" for t
  proof -
    have "mirrors (allocations d) t" using wf t by (simp add: alloc_wf_def)
    then show ?thesis unfolding update_rows_def by (rule mirrors_map) simp_all
  qed
  then have "\<forall>t\<in>set (servers d'). mirrors (allocations d') t"
    unfolding d' by (intro mirrors_on_server) auto
  moreover have "endpoints_unique d'" using dist by (simp add: endpoints_unique_def d')
  ultimately show ?thesis using keys owners by (simp add: alloc_wf_def)
qed

section \<open>Every reachable state\<close>

text \<open>
  The writes the panel performs on servers and allocations, each a step of its own: the database
  serialises writers, so an interleaving of requests is a sequence of these steps.
\<close>

inductive alloc_step :: "db \<Rightarrow> db \<Rightarrow> bool" where
  step_create: "create_server be now d uu n uid bp h st m dk c nt = Ok (d', i) \<Longrightarrow> alloc_step d d'"
| step_update: "alloc_step d (update_server now d s)"
| step_status: "alloc_step d (set_server_status now d i st)"
| step_suspend: "alloc_step d (set_server_suspended now d i b)"
| step_bump: "alloc_step d (bump_restart_count now d i)"
| step_delete: "alloc_step d (delete_server now d i)"
| step_purge: "alloc_step d (purge_server d i)"
| step_add: "add_allocation now d i p nt = Ok (d', k) \<Longrightarrow> alloc_step d d'"
| step_allocate: "allocate_port now d i p = Ok d' \<Longrightarrow> alloc_step d d'"
| step_primary: "set_primary_allocation now d i = Ok d' \<Longrightarrow> alloc_step d d'"
| step_notes: "set_allocation_notes d i nt = Ok d' \<Longrightarrow> alloc_step d d'"
| step_remove: "remove_allocation d i = Ok d' \<Longrightarrow> alloc_step d d'"
| step_free: "alloc_step d (free_ports now d i)"
| step_node: "set_server_node now d i nd = Ok d' \<Longrightarrow> alloc_step d d'"
| step_audit: "alloc_step d (audit_scoped ae d u a t ip x sv)"

definition fresh_db :: "db \<Rightarrow> bool" where
  "fresh_db d \<longleftrightarrow> servers d = [] \<and> allocations d = []"

lemma server_columns_wf:
  "alloc_wf d \<Longrightarrow> alloc_wf (update_server now d s)"
  "alloc_wf d \<Longrightarrow> alloc_wf (set_server_status now d i st)"
  "alloc_wf d \<Longrightarrow> alloc_wf (set_server_suspended now d i b)"
  "alloc_wf d \<Longrightarrow> alloc_wf (bump_restart_count now d i)"
  unfolding update_server_def set_server_status_def set_server_suspended_def bump_restart_count_def
  by (rule alloc_wf_server_update; simp add: srv_view_def)+

lemma release_wf:
  "alloc_wf d \<Longrightarrow> alloc_wf (free_ports now d i)" "alloc_wf d \<Longrightarrow> alloc_wf (delete_server now d i)"
  unfolding free_ports_def delete_server_def by (rule alloc_wf_release; simp)+

lemma remove_allocation_wf:
  assumes "alloc_wf d" "remove_allocation d i = Ok d'"
  shows "alloc_wf d'"
proof -
  from assms(2) obtain a where a: "a \<in> set (allocations d)" "a_id a = i" "\<not> a_primary a"
    and d': "d' = d\<lparr>allocations := filter (\<lambda>b. a_id b \<noteq> i) (allocations d)\<rparr>"
    by (auto simp: remove_allocation_def rbind_Ok_iff dest: get_allocation_Ok split: if_splits)
  have "a_id b \<noteq> i" if "b \<in> set (allocations d)" "a_primary b" for b
    using allocation_unique [of d b a] assms(1) a that by (auto simp: alloc_wf_def)
  then show ?thesis unfolding d' by (intro alloc_wf_filter [OF assms(1)])
qed

lemma audit_wf: "alloc_wf (audit_scoped ae d u a t ip x sv) = alloc_wf d"
  by (simp add: alloc_wf_defs)

lemma alloc_step_wf: "alloc_step d d' \<Longrightarrow> alloc_wf d \<Longrightarrow> alloc_wf d'"
proof (induction rule: alloc_step.induct)
  case step_create then show ?case using alloc_wf_create by blast
next
  case step_add then show ?case using add_allocation_wf by blast
next
  case step_allocate then show ?case
    by (auto simp: allocate_port_def rbind_Ok_iff intro: add_allocation_wf)
next
  case step_primary then show ?case using set_primary_wf by blast
next
  case step_notes then show ?case
    by (auto simp: set_allocation_notes_def intro: alloc_wf_notes split: if_splits)
next
  case step_remove then show ?case using remove_allocation_wf by blast
next
  case step_node then show ?case using set_server_node_wf by blast
qed (simp_all add: server_columns_wf release_wf alloc_wf_purge audit_wf)

lemma fresh_wf: "fresh_db d \<Longrightarrow> alloc_wf d"
  by (simp add: fresh_db_def alloc_wf_defs)

interpretation alloc: invariant_system fresh_db alloc_step alloc_wf
  by unfold_locales (fact fresh_wf, rule alloc_step_wf)

text \<open>
  The partial unique index on \<open>servers(node, port)\<close> follows from the one on allocations.
\<close>

lemma live_port_owner:
  assumes "alloc_wf d" "s \<in> set (servers d)" "s_port s = Some p"
  obtains a where "a \<in> set (allocations d)" "a_server a = s_id s" "a_primary a" "a_port a = p"
    "a_node a = s_node s" "\<not> s_deleted s"
proof -
  have "mirrors (allocations d) s" using assms by (simp add: alloc_wf_def)
  with assms(3) obtain a where a: "a \<in> set (allocations d)" "a_server a = s_id s" "a_primary a" "a_port a = p"
    by (auto simp: mirrors_Some)
  with assms(1) obtain t where "t \<in> set (servers d)" "s_id t = s_id s" "s_node t = a_node a" "\<not> s_deleted t"
    by (auto simp: alloc_wf_def owners_wf_def)
  with a that server_unique [of d t s] assms show thesis by (auto simp: alloc_wf_def)
qed

lemma server_port_unique:
  assumes wf: "alloc_wf d" and "s \<in> set (servers d)" "t \<in> set (servers d)" "s_node s = s_node t"
    "s_port s = Some p" "s_port t = Some p"
  shows "s = t"
proof -
  obtain a where a: "a \<in> set (allocations d)" "a_server a = s_id s" "a_port a = p" "a_node a = s_node s"
    using live_port_owner [OF wf assms(2,5)] .
  obtain b where b: "b \<in> set (allocations d)" "a_server b = s_id t" "a_port b = p" "a_node b = s_node t"
    using live_port_owner [OF wf assms(3,6)] .
  have "a = b" using endpoint_unique [of d a b] a b assms(4) wf by (simp add: alloc_wf_def)
  with a b assms server_unique [of d s t] show ?thesis by (simp add: alloc_wf_def)
qed

section \<open>The abstract endpoint registry\<close>

text \<open>
  What the component promises its callers: a partial map from endpoints (node and port) to the
  server that holds them.
\<close>

definition endpoints :: "db \<Rightarrow> string \<times> int \<rightharpoonup> int" where
  "endpoints d = map_of (map (\<lambda>a. ((a_node a, a_port a), a_server a)) (allocations d))"

lemma endpoints_Some:
  assumes "endpoints_unique d"
  shows "endpoints d (n, p) = Some i \<longleftrightarrow>
    (\<exists>a\<in>set (allocations d). a_node a = n \<and> a_port a = p \<and> a_server a = i)"
proof -
  have "distinct (map fst (map (\<lambda>a. ((a_node a, a_port a), a_server a)) (allocations d)))"
    using assms by (simp add: endpoints_unique_def comp_def)
  from map_of_eq_Some_iff [OF this] show ?thesis by (auto simp: endpoints_def)
qed

lemma endpoints_None:
  "endpoints d (n, p) = None \<longleftrightarrow> (\<forall>a\<in>set (allocations d). \<not> (a_node a = n \<and> a_port a = p))"
  by (simp add: endpoints_def map_of_eq_None_iff image_image image_iff) blast

lemma endpoints_eqI:
  assumes "endpoints_unique d" "\<And>n p i. m (n, p) = Some i \<longleftrightarrow>
    (\<exists>a\<in>set (allocations d). a_node a = n \<and> a_port a = p \<and> a_server a = i)"
  shows "endpoints d = m"
proof
  fix k :: "string \<times> int"
  obtain n p where k: "k = (n, p)" by fastforce
  show "endpoints d k = m k"
    using endpoints_Some [OF assms(1), of n p] assms(2) [of n p] unfolding k
    by (metis not_Some_eq)
qed

lemma endpoints_cong: "allocations d = allocations d' \<Longrightarrow> endpoints d = endpoints d'"
  by (simp add: endpoints_def)

lemma endpoints_notes:
  "endpoints (d\<lparr>allocations := update_rows P (\<lambda>b. b\<lparr>a_notes := n\<rparr>) (allocations d)\<rparr>) = endpoints d"
  by (auto simp: endpoints_def update_rows_def intro!: arg_cong [where f = map_of])

lemma endpoints_with_alloc:
  assumes "\<forall>b\<in>set (allocations d). \<not> (a_node b = a_node a \<and> a_port b = a_port a)"
  shows "endpoints (with_alloc d a) = (endpoints d)((a_node a, a_port a) \<mapsto> a_server a)"
proof -
  have "endpoints d (a_node a, a_port a) = None" using assms by (simp add: endpoints_None)
  then show ?thesis by (auto simp: endpoints_def map_add_def fun_eq_iff split: option.splits)
qed

lemma set_port_succeeds:
  assumes "\<And>s t. s \<in> set (servers d) \<Longrightarrow> t \<in> set (servers d) \<Longrightarrow> s_id s = sid \<Longrightarrow> s_node s = s_node t \<Longrightarrow> s_port t \<noteq> Some p"
  shows "\<exists>d'. set_port now d sid p = Ok d'"
proof -
  let ?d' = "on_server sid (\<lambda>s. s\<lparr>s_port := Some p, s_updated_at := now\<rparr>) d"
  have "s_port t \<noteq> Some p" if st: "s \<in> set (servers ?d')" "t \<in> set (servers ?d')" "s_id s = sid" "s_id t \<noteq> sid"
      "s_node s = s_node t" for s t
  proof -
    have "t \<in> set (servers d)" using st(2,4) by (auto simp: servers_on_server set_update_rows)
    moreover obtain s0 where "s0 \<in> set (servers d)"
        "s = (if s_id s0 = sid then s0\<lparr>s_port := Some p, s_updated_at := now\<rparr> else s0)"
      using st(1) unfolding servers_on_server update_rows_def by (auto simp del: if_image_distrib)
    ultimately show ?thesis using assms [of s0 t] st(3,5) by (simp split: if_splits)
  qed
  then show ?thesis unfolding set_port_def Let_def by auto
qed

lemma add_primary_no_clash:
  assumes wf: "alloc_wf d" and s: "s \<in> set (servers d)" "s_id s = sid"
    and free: "\<forall>a\<in>set (allocations d). \<not> (a_node a = s_node s \<and> a_port a = port)"
  shows "\<exists>d'. set_port now (with_alloc d (new_alloc now d s port nt True)) sid port = Ok d'"
proof -
  have "s_port t \<noteq> Some port" if "t \<in> set (servers d)" "s_node t = s_node s" for t
    using live_port_owner [OF wf that(1)] free that by metis
  moreover have "t = s" if "t \<in> set (servers d)" "s_id t = sid" for t
    using server_unique [of d t s] wf that s by (simp add: alloc_wf_def)
  ultimately show ?thesis by (intro set_port_succeeds) (metis with_alloc_simps(1))
qed

lemma add_allocation_total:
  assumes wf: "alloc_wf d" and s: "get_server_any d sid = Ok s" "\<not> s_deleted s"
    and r: "MIN_WORKLOAD_PORT \<le> port" "port \<le> MAX_WORKLOAD_PORT"
    and free: "\<forall>a\<in>set (allocations d). a_node a = s_node s \<longrightarrow> a_port a = port \<longrightarrow> a_server a = sid"
  shows "\<exists>d' i. add_allocation now d sid port nt = Ok (d', i)"
proof -
  note s' = get_server_any_Ok [OF s(1)]
  have vok: "validate_port port = Ok ()" using r by (simp add: validate_port_def)
  show ?thesis
  proof (cases "find (\<lambda>a. a_node a = s_node s \<and> a_port a = port) (allocations d)")
    case (Some a)
    note a = find_Some_set [OF Some]
    then have own: "a_server a = sid" using free by blast
    with a alloc_wf_primary [OF wf] have "has_primary d sid" by blast
    with Some own vok s show ?thesis by (simp add: add_allocation_def)
  next
    case None
    then have "\<forall>a\<in>set (allocations d). \<not> (a_node a = s_node s \<and> a_port a = port)"
      by (simp add: find_None_set)
    from add_primary_no_clash [OF wf _ _ this] s' obtain d' where
      "set_port now (with_alloc d (new_alloc now d s port nt True)) sid port = Ok d'" by blast
    with None vok s s' show ?thesis
      by (cases "has_primary d sid") (simp_all add: add_allocation_def with_alloc_def new_alloc_def)
  qed
qed

lemma add_allocation_endpoints:
  assumes "alloc_wf d" "add_allocation now d sid port nt = Ok (d', i)" "get_server_any d sid = Ok s"
  shows "endpoints d' = (endpoints d)((s_node s, port) \<mapsto> sid)"
proof -
  note uniq = server_unique [of d _ s] get_server_any_Ok [OF assms(3)]
  have ep: "endpoints_unique d" using assms(1) by (simp add: alloc_wf_def)
  from assms(2,1) show ?thesis
  proof (cases rule: add_allocation_cases)
    case (own a t)
    have "t = s" using uniq own assms(1) by (simp add: alloc_wf_def)
    with own have "endpoints d (s_node s, port) = Some sid" by (auto simp: endpoints_Some [OF ep])
    with own show ?thesis by (auto simp: endpoints_notes map_upd_triv)
  next
    case (secondary t)
    have "t = s" using uniq secondary assms(1) by (simp add: alloc_wf_def)
    with secondary show ?thesis by (simp add: endpoints_with_alloc)
  next
    case (primary t)
    have "t = s" using uniq primary assms(1) by (simp add: alloc_wf_def)
    with primary show ?thesis
      using endpoints_cong [of d' "with_alloc d (new_alloc now d s port nt True)"]
      by (simp add: endpoints_with_alloc)
  qed
qed

lemma add_allocation_error:
  assumes s: "get_server_any d sid = Ok s" "\<not> s_deleted s" and err: "add_allocation now d sid port nt = Err e"
    and wf: "alloc_wf d"
  shows "if MIN_WORKLOAD_PORT \<le> port \<and> port \<le> MAX_WORKLOAD_PORT
    then e = PortTaken \<and> (\<exists>j. j \<noteq> sid \<and> endpoints d (s_node s, port) = Some j) else e = PortRange"
proof (cases "MIN_WORKLOAD_PORT \<le> port \<and> port \<le> MAX_WORKLOAD_PORT")
  case True
  then have vok: "validate_port port = Ok ()" by (simp add: validate_port_def)
  from add_allocation_total [OF wf s] True err obtain a where
    "a \<in> set (allocations d)" "a_node a = s_node s" "a_port a = port" "a_server a \<noteq> sid" by (metis sum.distinct(1))
  note a = this
  have ep: "endpoints_unique d" using wf by (simp add: alloc_wf_def)
  have j: "endpoints d (s_node s, port) = Some (a_server a)" using a by (auto simp: endpoints_Some [OF ep])
  obtain b where b: "find (\<lambda>a. a_node a = s_node s \<and> a_port a = port) (allocations d) = Some b"
    using a by (cases "find (\<lambda>a. a_node a = s_node s \<and> a_port a = port) (allocations d)") (auto simp: find_None_set)
  have "b = a" using endpoint_unique [OF ep, of b a] find_Some_set [OF b] a by simp
  with b have "find (\<lambda>a. a_node a = s_node s \<and> a_port a = port) (allocations d) = Some a" by simp
  then show ?thesis using True j a err vok s by (auto simp: add_allocation_def)
next
  case False
  with err show ?thesis by (auto simp: add_allocation_def validate_port_def)
qed

text \<open>
  C13: \<open>add_allocation\<close> implements a claim on the abstract registry. On a live server it succeeds
  exactly when the port is a workload port and the endpoint on the server's node is free or already
  the server's own; then the registry gains exactly that endpoint. Otherwise it reports the range
  error or that the port is taken, and in no case does it trip a database constraint.
\<close>
theorem add_allocation_refines:
  assumes "alloc_wf d" "get_server_any d sid = Ok s" "\<not> s_deleted s"
  shows "case add_allocation now d sid port nt of
      Ok (d', i) \<Rightarrow> alloc_wf d' \<and> MIN_WORKLOAD_PORT \<le> port \<and> port \<le> MAX_WORKLOAD_PORT
        \<and> endpoints d (s_node s, port) \<in> {None, Some sid}
        \<and> endpoints d' = (endpoints d)((s_node s, port) \<mapsto> sid)
    | Err e \<Rightarrow> if MIN_WORKLOAD_PORT \<le> port \<and> port \<le> MAX_WORKLOAD_PORT
        then e = PortTaken \<and> (\<exists>j. j \<noteq> sid \<and> endpoints d (s_node s, port) = Some j)
        else e = PortRange"
proof (cases "add_allocation now d sid port nt")
  case (Inl e)
  with add_allocation_error [OF assms(2,3) Inl assms(1)] show ?thesis by simp
next
  case (Inr r)
  obtain d' i where r: "r = (d', i)" by (cases r)
  note ok = Inr [unfolded r]
  have "MIN_WORKLOAD_PORT \<le> port \<and> port \<le> MAX_WORKLOAD_PORT"
    using ok by (auto simp: add_allocation_def rbind_Ok_iff validate_port_Ok)
  moreover have "endpoints d (s_node s, port) \<in> {None, Some sid}"
    using ok assms(1)
  proof (cases rule: add_allocation_cases)
    case (own a t)
    with assms server_unique [of d t s] get_server_any_Ok [OF assms(2)] show ?thesis
      by (auto simp: endpoints_Some alloc_wf_def)
  qed (use assms server_unique [of d _ s] get_server_any_Ok [OF assms(2)] in \<open>auto simp: endpoints_None alloc_wf_def\<close>)
  ultimately show ?thesis
    using add_allocation_wf [OF assms(1) ok] add_allocation_endpoints [OF assms(1) ok assms(2)] ok r by simp
qed

text \<open>
  C12: In every state the panel can reach from an empty database by any sequence of its writes,
  endpoints are exclusive, allocations sit on a live server and on its node, and a server's port
  mirrors its primary allocation; no two servers on a node share a port.
\<close>
theorem reachable_allocations_wf:
  assumes "fresh_db d0" "alloc_step\<^sup>*\<^sup>* d0 d"
  shows "alloc_wf d \<and> (\<forall>s\<in>set (servers d). \<forall>t\<in>set (servers d).
    s_node s = s_node t \<longrightarrow> s_port s = s_port t \<longrightarrow> s_port s \<noteq> None \<longrightarrow> s = t)"
proof -
  have wf: "alloc_wf d" using assms by (rule alloc.reachable_inv)
  moreover have "s = t" if "s \<in> set (servers d)" "t \<in> set (servers d)" "s_node s = s_node t"
    "s_port s = s_port t" "s_port s \<noteq> None" for s t
    using server_port_unique [OF wf that(1-3)] that(4,5) by auto
  ultimately show ?thesis by blast
qed

definition moved_ports_free :: "db \<Rightarrow> int \<Rightarrow> string \<Rightarrow> bool" where
  "moved_ports_free d sid node \<longleftrightarrow> (\<forall>a\<in>set (allocations d). a_server a = sid \<longrightarrow>
     endpoints d (node, a_port a) \<in> {None, Some sid})"

lemma moved_distinct:
  assumes wf: "alloc_wf d"
  shows "distinct (map (\<lambda>a. (a_node a, a_port a))
           (update_rows (\<lambda>a. a_server a = sid) (\<lambda>a. a\<lparr>a_node := node\<rparr>) (allocations d)))
         \<longleftrightarrow> moved_ports_free d sid node" (is "distinct (map _ ?as) \<longleftrightarrow> _")
proof -
  have ep: "endpoints_unique d" and dist: "distinct (allocations d)"
    using wf by (auto simp: alloc_wf_def keys_wf_def distinct_map)
  have same: "a_node a = a_node b" if ab: "a \<in> set (allocations d)" "b \<in> set (allocations d)" "a_server a = a_server b" for a b
  proof -
    obtain s t where "s \<in> set (servers d)" "s_id s = a_server a" "s_node s = a_node a"
      "t \<in> set (servers d)" "s_id t = a_server b" "s_node t = a_node b"
      using wf ab(1,2) unfolding alloc_wf_def owners_wf_def by metis
    with server_unique [of d s t] wf ab(3) show ?thesis by (simp add: alloc_wf_def)
  qed
  let ?h = "\<lambda>a. (if a_server a = sid then node else a_node a, a_port a)"
  have "map (\<lambda>a. (a_node a, a_port a)) ?as = map ?h (allocations d)"
    by (auto simp: update_rows_def)
  then have "distinct (map (\<lambda>a. (a_node a, a_port a)) ?as) \<longleftrightarrow> inj_on ?h (set (allocations d))"
    using dist by (simp add: distinct_map)
  also have "\<dots> \<longleftrightarrow> moved_ports_free d sid node"
  proof
    assume inj: "inj_on ?h (set (allocations d))"
    show "moved_ports_free d sid node"
      unfolding moved_ports_free_def
    proof (intro ballI impI)
      fix a assume a: "a \<in> set (allocations d)" "a_server a = sid"
      show "endpoints d (node, a_port a) \<in> {None, Some sid}"
      proof (cases "endpoints d (node, a_port a)")
        case (Some j)
        then obtain b where b: "b \<in> set (allocations d)" "a_node b = node" "a_port b = a_port a" "a_server b = j"
          by (auto simp: endpoints_Some [OF ep])
        have "j = sid"
        proof (rule ccontr)
          assume "j \<noteq> sid"
          with a b have "?h a = ?h b" by simp
          from inj_onD [OF inj this a(1) b(1)] have "a = b" .
          with a b \<open>j \<noteq> sid\<close> show False by simp
        qed
        with Some show ?thesis by simp
      qed simp
    qed
  next
    assume free: "moved_ports_free d sid node"
    have other: "a_server b = sid" if "a \<in> set (allocations d)" "a_server a = sid" "b \<in> set (allocations d)"
      "a_node b = node" "a_port b = a_port a" for a b
    proof -
      have "endpoints d (node, a_port a) = Some (a_server b)" using that by (auto simp: endpoints_Some [OF ep])
      with free that(1,2) show ?thesis unfolding moved_ports_free_def by auto
    qed
    show "inj_on ?h (set (allocations d))"
    proof (rule inj_onI)
      fix a b assume ab: "a \<in> set (allocations d)" "b \<in> set (allocations d)" "?h a = ?h b"
      then have p: "a_port a = a_port b" by simp
      have "a_server a = sid \<longleftrightarrow> a_server b = sid"
      proof
        assume "a_server a = sid"
        with ab(3) have "a_server b = sid \<or> a_node b = node" by (cases "a_server b = sid") simp_all
        then show "a_server b = sid" using other [OF ab(1) \<open>a_server a = sid\<close> ab(2)] p by auto
      next
        assume "a_server b = sid"
        with ab(3) have "a_server a = sid \<or> a_node a = node" by (cases "a_server a = sid") simp_all
        then show "a_server a = sid" using other [OF ab(2) \<open>a_server b = sid\<close> ab(1)] p by auto
      qed
      then have "a_node a = a_node b" using same [OF ab(1,2)] ab(3) by (cases "a_server a = sid") simp_all
      with endpoint_unique [OF ep ab(1,2)] p show "a = b" by simp
    qed
  qed
  finally show ?thesis .
qed

text \<open>
  Moving a server to another node succeeds exactly when none of its ports is held there by
  another server; the registry then has the server's endpoints on the new node and all others
  unchanged. Otherwise the transaction is rolled back with a constraint violation.
\<close>
theorem set_server_node_refines:
  assumes wf: "alloc_wf d"
  shows "case set_server_node now d sid node of
      Ok d' \<Rightarrow> moved_ports_free d sid node \<and> alloc_wf d' \<and>
        (\<forall>n p j. endpoints d' (n, p) = Some j \<longleftrightarrow>
          (if j = sid then n = node \<and> (\<exists>m. endpoints d (m, p) = Some sid) else endpoints d (n, p) = Some j))
    | Err e \<Rightarrow> e = ConstraintViolation \<and> \<not> moved_ports_free d sid node"
proof -
  let ?as = "update_rows (\<lambda>a. a_server a = sid) (\<lambda>a. a\<lparr>a_node := node\<rparr>) (allocations d)"
  let ?f = "\<lambda>s. s\<lparr>s_node := node, s_updated_at := now\<rparr>"
  let ?d = "on_server sid ?f (d\<lparr>allocations := ?as\<rparr>)"
  have ep: "endpoints_unique d" using wf by (simp add: alloc_wf_def)
  have clash: "\<not> (s_id s = sid \<and> s_id t \<noteq> sid \<and> s_node s = s_node t \<and> s_port s \<noteq> None \<and> s_port s = s_port t)"
    if free: "moved_ports_free d sid node" and st: "s \<in> set (servers ?d)" "t \<in> set (servers ?d)" for s t
  proof (intro notI, elim conjE)
    assume h: "s_id s = sid" "s_id t \<noteq> sid" "s_node s = s_node t" "s_port s \<noteq> None" "s_port s = s_port t"
    obtain p where p: "s_port s = Some p" using h(4) by blast
    obtain s0 where s0: "s0 \<in> set (servers d)" "s = (if s_id s0 = sid then ?f s0 else s0)"
      using st(1) unfolding servers_on_server update_rows_def by (auto simp del: if_image_distrib)
    then have s0': "s_id s0 = sid" "s_node s = node" "s_port s0 = Some p" using h(1) p by (auto split: if_splits)
    have t: "t \<in> set (servers d)" using st(2) h(2) by (auto simp: servers_on_server set_update_rows)
    obtain a where a: "a \<in> set (allocations d)" "a_server a = sid" "a_port a = p"
      using live_port_owner [OF wf s0(1) s0'(3)] s0'(1) by metis
    obtain b where b: "b \<in> set (allocations d)" "a_server b = s_id t" "a_port b = p" "a_node b = node"
      using live_port_owner [OF wf t] h p s0'(2) by metis
    have "endpoints d (node, a_port a) = Some (s_id t)" using a b by (auto simp: endpoints_Some [OF ep])
    with free a h(2) show False unfolding moved_ports_free_def by auto
  qed
  show ?thesis
  proof (cases "moved_ports_free d sid node")
    case False
    with moved_distinct [OF wf, of sid node] show ?thesis by (simp add: set_server_node_def Let_def)
  next
    case True
    have no: "\<not> (\<exists>s\<in>set (servers ?d). \<exists>t\<in>set (servers ?d). s_id s = sid \<and> s_id t \<noteq> sid
              \<and> \<not> s_deleted s \<and> \<not> s_deleted t \<and> s_node s = s_node t
              \<and> s_port s \<noteq> None \<and> s_port s = s_port t)"
      using clash [OF True] by blast
    have ok: "set_server_node now d sid node = Ok ?d"
      using moved_distinct [OF wf, of sid node] True no
      unfolding set_server_node_def Let_def by simp
    have wf': "alloc_wf ?d" using set_server_node_wf [OF wf ok] .
    then have ep': "endpoints_unique ?d" by (simp add: alloc_wf_def)
    have as: "(\<exists>a\<in>set ?as. a_node a = n \<and> a_port a = p \<and> a_server a = j) \<longleftrightarrow>
        (\<exists>a\<in>set (allocations d). (if j = sid then node else a_node a) = n \<and> a_port a = p \<and> a_server a = j)" for n p j
      unfolding set_update_rows bex_simps by (rule bex_cong) auto
    have "endpoints ?d (n, p) = Some j \<longleftrightarrow>
          (if j = sid then n = node \<and> (\<exists>m. endpoints d (m, p) = Some sid) else endpoints d (n, p) = Some j)" for n p j
      using as [of n p j] unfolding endpoints_Some [OF ep'] endpoints_Some [OF ep] by (cases "j = sid") auto
    with ok wf' True show ?thesis by simp
  qed
qed

section \<open>The handlers: authorisation, isolation and the cap\<close>

text \<open>
  Without the \<open>allocation.write\<close> capability on the server, none of the writing handlers
  changes the database, and each answers with an error.
\<close>
theorem api_denied_no_effect:
  assumes "user_has_capability (e_json e) d u sid AllocationWrite \<noteq> Ok True"
  shows "(\<exists>x. api_add e d u sid port nt = (d, Err x)) \<and> (\<exists>x. api_update e d u sid i n pr = (d, Err x))
    \<and> (\<exists>x. api_remove e d u sid i = (d, Err x))"
proof -
  obtain x where x: "require_capability e d u sid AllocationWrite = Err x"
    using assms by (cases "user_has_capability (e_json e) d u sid AllocationWrite")
      (auto simp: require_capability_def of_model_def)
  show ?thesis
    by (auto simp: api_add_def api_update_def api_remove_def x split: sum.splits)
qed

lemma owned_allocation_foreign:
  assumes "\<forall>a\<in>set (allocations d). a_id a = i \<longrightarrow> a_server a \<noteq> sid"
  shows "owned_allocation d sid i = Err ApiNotFound"
proof (cases "get_allocation d i")
  case (Inl e)
  then show ?thesis by (simp add: owned_allocation_def of_model_def)
next
  case (Inr a)
  with get_allocation_Ok [OF Inr] assms show ?thesis by (auto simp: owned_allocation_def of_model_def)
qed

text \<open>
  An allocation id that is not one of the server's own, whether it belongs to another server or
  to none, is never touched through that server's path, and the answer does not depend on which of
  the two it is.
\<close>
theorem api_foreign_ids_indistinguishable:
  assumes "\<forall>a\<in>set (allocations d). a_id a = i \<or> a_id a = j \<longrightarrow> a_server a \<noteq> sid"
  shows "api_update e d u sid i n pr = api_update e d u sid j n pr \<and> fst (api_update e d u sid i n pr) = d
    \<and> api_remove e d u sid i = api_remove e d u sid j \<and> fst (api_remove e d u sid i) = d"
proof -
  have "owned_allocation d sid i = Err ApiNotFound" "owned_allocation d sid j = Err ApiNotFound"
    using assms by (auto intro!: owned_allocation_foreign)
  then show ?thesis by (auto simp: api_update_def api_remove_def split: sum.splits)
qed

lemma allocation_count_alt:
  "allocation_count d sid = int (length (filter (\<lambda>a. a_server a = sid) (allocations d)))"
  by (simp add: allocation_count_def ports_for_server_def list_allocations_def)

lemma allocation_limit_bounds: "1 \<le> allocation_limit e d \<and> allocation_limit e d \<le> 64"
  by (auto simp: allocation_limit_def clamp_to_def DEFAULT_ALLOCATION_LIMIT_def split: option.splits)

lemma add_allocation_count:
  assumes "alloc_wf d" "add_allocation now d sid port nt = Ok (d', i)"
  shows "allocation_count d' t \<le> allocation_count d t + (if t = sid then 1 else 0)"
  using assms(2,1)
proof (cases rule: add_allocation_cases)
  case (own a s)
  have "length (filter (\<lambda>a. a_server a = t) (update_rows P (\<lambda>b. b\<lparr>a_notes := n\<rparr>) as)) = length (filter (\<lambda>a. a_server a = t) as)"
    for P n and as :: "allocation list" by (induction as) (auto simp: update_rows_def)
  then show ?thesis using own by (auto simp: allocation_count_alt)
qed (auto simp: allocation_count_alt)

text \<open>
  The per-server cap lies between 1 and 64 whatever the setting says, and the self-service
  handler never takes a server over it; it never changes the number of ports of another server.
\<close>
theorem api_add_respects_cap:
  assumes "alloc_wf d"
  shows "allocation_limit e d \<in> {1..64} \<and>
    (allocation_count d sid \<le> allocation_limit e d \<longrightarrow>
       allocation_count (fst (api_add e d u sid port nt)) sid \<le> allocation_limit e d) \<and>
    (t \<noteq> sid \<longrightarrow> allocation_count (fst (api_add e d u sid port nt)) t \<le> allocation_count d t)"
proof -
  have "fst (api_add e d u sid port nt) = d \<or>
    (\<exists>d' i. add_allocation (e_now e) d sid port (trim nt) = Ok (d', i) \<and> allocation_count d sid < allocation_limit e d
       \<and> allocations (fst (api_add e d u sid port nt)) = allocations d')"
    by (simp add: api_add_def split: sum.split prod.split)
  then consider (same) "fst (api_add e d u sid port nt) = d"
    | (added) d' i where "add_allocation (e_now e) d sid port (trim nt) = Ok (d', i)"
        "allocation_count d sid < allocation_limit e d" "allocations (fst (api_add e d u sid port nt)) = allocations d'"
    by blast
  then show ?thesis
  proof cases
    case same
    then show ?thesis using allocation_limit_bounds by auto
  next
    case (added d' i)
    have "allocation_count (fst (api_add e d u sid port nt)) r = allocation_count d' r" for r
      using added(3) by (simp add: allocation_count_alt)
    then show ?thesis
      using add_allocation_count [OF assms added(1)] added(2) allocation_limit_bounds [of e d]
      by (auto simp: add1_zle_eq) (smt (verit))+
  qed
qed

section \<open>Witnesses\<close>

definition wadb :: db where
  "wadb = empty_db\<lparr>users := [wuser 1, wuser 2], servers := [(wserver 7 1)\<lparr>s_port := Some 2000\<rparr>, wserver 8 2],
     server_seq := 8, alloc_seq := 3, allocations := [
       \<lparr>a_id = 2, a_server = 7, a_port = 2000, a_node = ''local'', a_assigned_at = 0, a_notes = [], a_primary = True\<rparr>,
       \<lparr>a_id = 3, a_server = 7, a_port = 2001, a_node = ''local'', a_assigned_at = 0, a_notes = [], a_primary = False\<rparr>]\<rparr>"

definition wenv :: env where
  "wenv = \<lparr>e_json = (\<lambda>_. None), e_now = 5, e_audit = \<lparr>ae_enabled = True, ae_retention_days = 30, ae_now = 5, ae_prune = False\<rparr>,
     e_port_in_use = (\<lambda>_. False)\<rparr>"

lemmas alloc_witness = wadb_def witness_defs MIN_WORKLOAD_PORT_def MAX_WORKLOAD_PORT_def

lemma wadb_wf: "alloc_wf wadb"
  by (simp add: alloc_wf_defs mirrors_def alloc_witness)

theorem add_allocation_refines_witness:
  "(\<exists>d' i. add_allocation 9 wadb 8 2002 [] = Ok (d', i) \<and> endpoints d' = (endpoints wadb)((''local'', 2002) \<mapsto> 8))
    \<and> add_allocation 9 wadb 8 2001 [] = Err PortTaken"
proof -
  have s: "get_server_any wadb 8 = Ok (wserver 8 2)" by (simp add: get_server_any_def alloc_witness)
  have live: "\<not> s_deleted (wserver 8 2)" "s_node (wserver 8 2) = ''local''" by (simp_all add: wserver_def)
  have free: "endpoints wadb (''local'', 2002) = None" by (simp add: endpoints_def alloc_witness)
  have taken: "endpoints wadb (''local'', 2001) = Some 7" by (simp add: endpoints_def alloc_witness)
  note r = MIN_WORKLOAD_PORT_def MAX_WORKLOAD_PORT_def
  show ?thesis
    using add_allocation_refines [OF wadb_wf s live(1), where now = 9 and port = 2002 and nt = "[]"]
      add_allocation_refines [OF wadb_wf s live(1), where now = 9 and port = 2001 and nt = "[]"] live(2) free taken
    by (auto simp: r split: sum.splits if_splits)
qed

theorem reachable_allocations_wf_witness:
  "\<exists>d' i. add_allocation 9 ((empty_db\<lparr>users := [wuser 1]\<rparr>)\<lparr>servers := [new_server_row 4 1 ''u'' ''srv'' 1 1 [] [] 512 1024 100 0],
      server_seq := 1\<rparr>) 1 2000 [] = Ok (d', i) \<and> alloc_wf d'"
proof -
  let ?d0 = "empty_db\<lparr>users := [wuser 1]\<rparr>"
  let ?d1 = "?d0\<lparr>servers := [new_server_row 4 1 ''u'' ''srv'' 1 1 [] [] 512 1024 100 0], server_seq := 1\<rparr>"
  have "create_server (\<lambda>_. True) 4 ?d0 ''u'' ''srv'' 1 1 [] [] 512 1024 100 0 = Ok (?d1, 1)"
    by (simp add: create_server_def alloc_witness)
  then have 1: "alloc_step ?d0 ?d1" by (rule step_create)
  obtain d' i where ok: "add_allocation 9 ?d1 1 2000 [] = Ok (d', i)"
    by (simp add: add_allocation_def validate_port_def get_server_any_def has_primary_def set_port_def
        servers_on_server update_rows_def new_server_row_def alloc_witness)
  then have 2: "alloc_step ?d1 d'" by (rule step_add)
  have "fresh_db ?d0" by (simp add: fresh_db_def empty_db_def)
  moreover have "alloc_step\<^sup>*\<^sup>* ?d0 d'"
    using 1 2 by (simp add: converse_rtranclp_into_rtranclp)
  ultimately have "alloc_wf d'" using reachable_allocations_wf [of ?d0 d'] by blast
  with ok show ?thesis by blast
qed

theorem set_server_node_refines_witness:
  "(\<exists>d'. set_server_node 9 wadb 7 ''eu1'' = Ok d' \<and> endpoints d' (''eu1'', 2001) = Some 7)"
proof -
  have "moved_ports_free wadb 7 ''eu1''" by (simp add: moved_ports_free_def endpoints_def alloc_witness)
  moreover have "endpoints wadb (''local'', 2001) = Some 7" by (simp add: endpoints_def alloc_witness)
  ultimately show ?thesis
    using set_server_node_refines [OF wadb_wf, where now = 9 and sid = 7 and node = "''eu1''"] by (auto split: sum.splits)
qed

theorem api_denied_no_effect_witness:
  "\<exists>x. api_add wenv wadb (wuser 2) 7 2005 [] = (wadb, Err x)"
proof -
  have "user_has_capability (e_json wenv) wadb (wuser 2) 7 AllocationWrite \<noteq> Ok True"
    by (simp add: user_has_capability_def server_grant_def raw_server_grant_def owns_live_def
        count_rows_def squad_grant_def squad_join_def alloc_witness)
  from api_denied_no_effect [OF this] show ?thesis by blast
qed

theorem api_foreign_ids_indistinguishable_witness:
  "api_update wenv wadb (wuser 2) 8 3 None (Some True) = api_update wenv wadb (wuser 2) 8 99 None (Some True)"
proof -
  have "\<forall>a\<in>set (allocations wadb). a_id a = 3 \<or> a_id a = 99 \<longrightarrow> a_server a \<noteq> 8" by (simp add: alloc_witness)
  from api_foreign_ids_indistinguishable [OF this] show ?thesis by blast
qed

theorem api_add_respects_cap_witness:
  "allocation_count (fst (api_add wenv wadb (wuser 1) 7 2005 [])) 7 \<le> 16"
proof -
  have "allocation_limit wenv wadb = 16" "allocation_count wadb 7 = 2"
    by (simp_all add: allocation_limit_def get_setting_def DEFAULT_ALLOCATION_LIMIT_def allocation_count_alt
        wenv_def alloc_witness)
  with api_add_respects_cap [OF wadb_wf, where e = wenv and sid = 7] show ?thesis by (smt (verit))
qed

end
