(* ===== verification/Sessions.thy ===== *)
theory Sessions
  imports Store
begin

text \<open>
  Browser sessions and two-factor recovery codes: the session half of \<open>src/src/auth.rs\<close> and the
  recovery-code table of \<open>src/src/models.rs\<close>. SHA-256 (\<open>hash_token\<close>), the random token source and
  the clock are parameters. Every timestamp column compared here is written by the same code, so the
  comparison of RFC 3339 texts is the comparison of instants.
\<close>

section \<open>State\<close>

record session =
  ses_id :: int
  ses_token :: string
  ses_user :: int
  ses_agent :: string
  ses_ip :: string
  ses_created :: instant
  ses_expires :: instant
  ses_revoked :: bool
  ses_remember :: bool
  ses_last_seen :: "instant option"

record recovery_row =
  rc_id :: int
  rc_user :: int
  rc_hash :: string
  rc_used :: "instant option"
  rc_created :: instant

text \<open>\<open>ad_last_prune\<close> is the process-wide \<open>LAST_PRUNE\<close> counter of \<open>maybe_prune_sessions\<close>, in seconds.\<close>

record auth_db =
  ad_db :: db
  ad_sessions :: "session list"
  ad_session_seq :: int
  ad_last_prune :: int
  ad_recovery :: "recovery_row list"
  ad_recovery_seq :: int

datatype auth_error =
    SessionNotFound | SessionRevoked | SessionExpired | TtlTooLarge | TtlPanic | SessionConstraint
  | SessionModel model_error

definition LAST_SEEN_THROTTLE_MINS :: int where "LAST_SEEN_THROTTLE_MINS = 5"
definition MAX_SESSIONS_PER_USER :: nat where "MAX_SESSIONS_PER_USER = 10"
definition SESSION_PRUNE_INTERVAL_SECS :: int where "SESSION_PRUNE_INTERVAL_SECS = 3600"
definition SESSION_PRUNE_MAX_AGE_HOURS :: int where "SESSION_PRUNE_MAX_AGE_HOURS = 24 * 7"

definition secs :: "int \<Rightarrow> instant" where "secs n = n * 10 ^ 9"
definition hours :: "int \<Rightarrow> instant" where "hours n = secs (n * 3600)"

text \<open>The clock is read at each of these points of a request, in this order.\<close>

record ticks =
  tk_created :: instant
  tk_gate :: instant
  tk_prune :: instant
  tk_cap :: instant

section \<open>Sessions\<close>

definition dead :: "instant \<Rightarrow> session \<Rightarrow> bool" where
  "dead now s \<longleftrightarrow> ses_revoked s \<or> ses_expires s < now"

definition prune_sessions :: "instant \<Rightarrow> int \<Rightarrow> auth_db \<Rightarrow> auth_db" where
  "prune_sessions now max_age_hours a = a\<lparr>ad_sessions := filter
     (\<lambda>s. \<not> (dead now s \<and> ses_created s < now - hours max_age_hours)) (ad_sessions a)\<rparr>"

text \<open>
  The compare-and-exchange of \<open>LAST_PRUNE\<close> can only fail when another request wins the same race;
  \<open>cas_ok\<close> says whether it succeeded.
\<close>

definition maybe_prune_sessions :: "bool \<Rightarrow> instant \<Rightarrow> instant \<Rightarrow> auth_db \<Rightarrow> auth_db" where
  "maybe_prune_sessions cas_ok gate now a =
     (let t = gate div 10 ^ 9 in
      if SESSION_PRUNE_INTERVAL_SECS \<le> t - ad_last_prune a \<and> cas_ok
      then prune_sessions now SESSION_PRUNE_MAX_AGE_HOURS (a\<lparr>ad_last_prune := t\<rparr>)
      else a)"

definition of_user :: "int \<Rightarrow> session list \<Rightarrow> session list" where
  "of_user uid ss = filter (\<lambda>s. ses_user s = uid) ss"

text \<open>The \<open>ORDER BY bad ASC, created_at ASC, id DESC\<close> of the eviction query.\<close>

definition evict_key :: "instant \<Rightarrow> session \<Rightarrow> int \<times> instant \<times> int" where
  "evict_key now s = (if dead now s then 0 else 1, ses_created s, - ses_id s)"

definition victims :: "instant \<Rightarrow> int \<Rightarrow> session list \<Rightarrow> session list" where
  "victims now uid ss =
     (let mine = of_user uid ss in
      take (length mine - MAX_SESSIONS_PER_USER) (sort_key (evict_key now) mine))"

definition enforce_session_cap :: "instant \<Rightarrow> int \<Rightarrow> auth_db \<Rightarrow> auth_db" where
  "enforce_session_cap now uid a =
     (if length (of_user uid (ad_sessions a)) \<le> MAX_SESSIONS_PER_USER then a
      else a\<lparr>ad_sessions := filter (\<lambda>s. ses_id s \<notin> ses_id ` set (victims now uid (ad_sessions a)))
             (ad_sessions a)\<rparr>)"

definition session_ttl :: "nat \<Rightarrow> bool \<Rightarrow> (auth_error, int) result" where
  "session_ttl ttl_hours remember =
     (case (if remember then (if ttl_hours * 7 < 2 ^ 64 then Some (ttl_hours * 7) else None)
            else Some ttl_hours) of
        Some h \<Rightarrow> if h < 2 ^ 63 then Ok (int h) else Err TtlTooLarge
      | None \<Rightarrow> Err TtlTooLarge)"

text \<open>
  \<open>chrono\<close> panics when the duration does not fit its milliseconds or when the sum passes its latest
  date \<open>max_dt\<close>; both are the value \<open>TtlPanic\<close> here.
\<close>

definition create_session ::
  "(string \<Rightarrow> string) \<Rightarrow> instant \<Rightarrow> bool \<Rightarrow> ticks \<Rightarrow> auth_db \<Rightarrow> string \<Rightarrow> nat \<Rightarrow> int \<Rightarrow> string \<Rightarrow> string \<Rightarrow> bool
     \<Rightarrow> (auth_error, auth_db \<times> string \<times> instant) result" where
  "create_session hash_token max_dt cas_ok tk a raw ttl_hours uid agent ip remember =
     rbind (session_ttl ttl_hours remember) (\<lambda>ttl.
       let token = hash_token raw;
           expires = tk_created tk + hours ttl
       in if ttl * 3600 * 1000 > 2 ^ 63 - 1 \<or> max_dt < expires then Err TtlPanic
          else if exists_row (\<lambda>s. ses_token s = token) (ad_sessions a)
               \<or> \<not> exists_row (\<lambda>u. u_id u = uid) (users (ad_db a)) then Err SessionConstraint
          else
            let i = ad_session_seq a + 1;
                s = \<lparr>ses_id = i, ses_token = token, ses_user = uid, ses_agent = agent, ses_ip = ip,
                     ses_created = tk_created tk, ses_expires = expires, ses_revoked = False,
                     ses_remember = remember, ses_last_seen = None\<rparr>;
                a1 = a\<lparr>ad_sessions := ad_sessions a @ [s], ad_session_seq := i\<rparr>;
                a2 = maybe_prune_sessions cas_ok (tk_gate tk) (tk_prune tk) a1
            in Ok (enforce_session_cap (tk_cap tk) uid a2, raw, expires))"

definition session_update :: "(session \<Rightarrow> bool) \<Rightarrow> (session \<Rightarrow> session) \<Rightarrow> auth_db \<Rightarrow> auth_db" where
  "session_update P f a = a\<lparr>ad_sessions := update_rows P f (ad_sessions a)\<rparr>"

definition touch_session :: "instant \<Rightarrow> string \<Rightarrow> auth_db \<Rightarrow> auth_db" where
  "touch_session now token a = session_update (\<lambda>s. ses_token s = token \<and>
       (case ses_last_seen s of None \<Rightarrow> True | Some t \<Rightarrow> t < now - secs (LAST_SEEN_THROTTLE_MINS * 60)))
     (\<lambda>s. s\<lparr>ses_last_seen := Some now\<rparr>) a"

definition user_from_session ::
  "(string \<Rightarrow> string) \<Rightarrow> instant \<Rightarrow> instant \<Rightarrow> auth_db \<Rightarrow> string \<Rightarrow> auth_db \<times> (auth_error, user) result" where
  "user_from_session hash_token now now2 a raw =
     (case find (\<lambda>s. ses_token s = hash_token raw) (ad_sessions a) of
        None \<Rightarrow> (a, Err SessionNotFound)
      | Some s \<Rightarrow>
          if ses_revoked s then (a, Err SessionRevoked)
          else if ses_expires s < now then (a, Err SessionExpired)
          else (touch_session now2 (hash_token raw) a,
                case get_user (ad_db a) (ses_user s) of Ok u \<Rightarrow> Ok u | Err e \<Rightarrow> Err (SessionModel e)))"

definition revoke_session :: "(string \<Rightarrow> string) \<Rightarrow> auth_db \<Rightarrow> string \<Rightarrow> auth_db" where
  "revoke_session hash_token a raw =
     session_update (\<lambda>s. ses_token s = hash_token raw) (\<lambda>s. s\<lparr>ses_revoked := True\<rparr>) a"

definition revoke_all_user_sessions :: "(string \<Rightarrow> string) \<Rightarrow> auth_db \<Rightarrow> int \<Rightarrow> string option \<Rightarrow> auth_db" where
  "revoke_all_user_sessions hash_token a uid except =
     (case except of
        Some raw \<Rightarrow> session_update (\<lambda>s. ses_user s = uid \<and> ses_token s \<noteq> hash_token raw)
                     (\<lambda>s. s\<lparr>ses_revoked := True\<rparr>) a
      | None \<Rightarrow> session_update (\<lambda>s. ses_user s = uid) (\<lambda>s. s\<lparr>ses_revoked := True\<rparr>) a)"

section \<open>Recovery codes\<close>

definition RECOVERY_CODE_COUNT :: nat where "RECOVERY_CODE_COUNT = 10"
definition RECOVERY_ALPHABET :: string where "RECOVERY_ALPHABET = ''ABCDEFGHJKMNPQRSTUVWXYZ23456789''"

definition generate_recovery_code :: "nat list \<Rightarrow> string" where
  "generate_recovery_code buf = map (\<lambda>b. RECOVERY_ALPHABET ! (b mod length RECOVERY_ALPHABET)) buf"

definition generate_recovery_codes :: "(nat \<Rightarrow> nat list) \<Rightarrow> string list" where
  "generate_recovery_codes rng = map (\<lambda>k. generate_recovery_code (rng k)) [0..<RECOVERY_CODE_COUNT]"

definition normalize_recovery_code :: "string \<Rightarrow> string" where
  "normalize_recovery_code s = map to_ascii_upper (filter is_ascii_alphanumeric s)"

definition hash_recovery_code :: "(string \<Rightarrow> string) \<Rightarrow> string \<Rightarrow> string" where
  "hash_recovery_code hash_token c = hash_token (normalize_recovery_code c)"

fun insert_codes :: "(string \<Rightarrow> string) \<Rightarrow> instant \<Rightarrow> int \<Rightarrow> string list \<Rightarrow> auth_db \<Rightarrow> auth_db" where
  "insert_codes h now uid [] a = a"
| "insert_codes h now uid (c # cs) a = insert_codes h now uid cs
     (a\<lparr>ad_recovery := ad_recovery a @ [\<lparr>rc_id = ad_recovery_seq a + 1, rc_user = uid,
          rc_hash = hash_recovery_code h c, rc_used = None, rc_created = now\<rparr>],
        ad_recovery_seq := ad_recovery_seq a + 1\<rparr>)"

definition delete_recovery_codes :: "int \<Rightarrow> auth_db \<Rightarrow> auth_db" where
  "delete_recovery_codes uid a = a\<lparr>ad_recovery := filter (\<lambda>r. rc_user r \<noteq> uid) (ad_recovery a)\<rparr>"

definition replace_recovery_codes ::
  "(string \<Rightarrow> string) \<Rightarrow> instant \<Rightarrow> int \<Rightarrow> string list \<Rightarrow> auth_db \<Rightarrow> (auth_error, auth_db) result" where
  "replace_recovery_codes h now uid codes a =
     (if codes \<noteq> [] \<and> \<not> exists_row (\<lambda>u. u_id u = uid) (users (ad_db a)) then Err SessionConstraint
      else Ok (insert_codes h now uid codes (delete_recovery_codes uid a)))"

definition consume_recovery_code :: "(string \<Rightarrow> string) \<Rightarrow> instant \<Rightarrow> int \<Rightarrow> string \<Rightarrow> auth_db \<Rightarrow> auth_db \<times> bool" where
  "consume_recovery_code h now uid c a =
     (let P = (\<lambda>r. rc_user r = uid \<and> rc_hash r = hash_recovery_code h c \<and> rc_used r = None) in
      (a\<lparr>ad_recovery := update_rows P (\<lambda>r. r\<lparr>rc_used := Some now\<rparr>) (ad_recovery a)\<rparr>,
       0 < count_rows P (ad_recovery a)))"

section \<open>The session cap\<close>

lemma length_of_user_filter:
  assumes "set vs \<subseteq> set (of_user uid ss)" "distinct vs" "distinct (map ses_id ss)"
  shows "length (of_user uid (filter (\<lambda>s. ses_id s \<notin> ses_id ` set vs) ss)) = length (of_user uid ss) - length vs"
proof -
  have inj: "inj_on ses_id (set ss)" and dss: "distinct ss" using assms(3) by (auto simp: distinct_map)
  have sub: "set vs \<subseteq> set ss" using assms(1) by (auto simp: of_user_def)
  have "of_user uid (filter (\<lambda>s. ses_id s \<notin> ses_id ` set vs) ss) = filter (\<lambda>s. s \<notin> set vs) (of_user uid ss)"
    using inj sub by (auto simp: of_user_def intro!: filter_cong dest: inj_onD)
  moreover have "set (filter (\<lambda>s. s \<notin> set vs) (of_user uid ss)) = set (of_user uid ss) - set vs" by auto
  ultimately show ?thesis
    using assms(1,2) dss by (metis card_Diff_subset distinct_card distinct_filter finite_set of_user_def)
qed

lemma victims_sub: "set (victims now uid ss) \<subseteq> set (of_user uid ss)"
  by (auto simp: victims_def Let_def dest: in_set_takeD)

lemma victims_distinct: "distinct (map ses_id ss) \<Longrightarrow> distinct (victims now uid ss)"
  by (auto simp: victims_def Let_def of_user_def distinct_map intro!: distinct_take)

lemma length_victims: "length (victims now uid ss) = length (of_user uid ss) - MAX_SESSIONS_PER_USER"
  by (simp add: victims_def Let_def)

text \<open>Nothing that stays sorts before something that goes.\<close>

lemma evicted_before_kept:
  assumes "v \<in> set (victims now uid ss)" "s \<in> set (of_user uid ss)" "s \<notin> set (victims now uid ss)"
  shows "evict_key now v \<le> evict_key now s"
proof -
  let ?l = "sort_key (evict_key now) (of_user uid ss)" and ?n = "length (of_user uid ss) - MAX_SESSIONS_PER_USER"
  have "sorted (map (evict_key now) (take ?n ?l @ drop ?n ?l))" by simp
  moreover have "v \<in> set (take ?n ?l)" using assms(1) by (simp add: victims_def Let_def)
  moreover have "s \<in> set (drop ?n ?l)"
    using assms(2,3) by (metis Un_iff append_take_drop_id set_append set_sort victims_def)
  ultimately show ?thesis unfolding map_append sorted_append by auto
qed

definition ids_wf :: "auth_db \<Rightarrow> bool" where
  "ids_wf a \<longleftrightarrow> distinct (map ses_id (ad_sessions a)) \<and> (\<forall>s\<in>set (ad_sessions a). ses_id s \<le> ad_session_seq a)"

lemma enforce_cap_count:
  "ids_wf a \<Longrightarrow> length (of_user uid (ad_sessions (enforce_session_cap now uid a))) \<le> MAX_SESSIONS_PER_USER"
  using length_of_user_filter [OF victims_sub victims_distinct]
  by (auto simp: enforce_session_cap_def ids_wf_def length_victims)

section \<open>Every reachable session table\<close>

definition session_wf :: "auth_db \<Rightarrow> bool" where
  "session_wf a \<longleftrightarrow> ids_wf a \<and> distinct (map ses_token (ad_sessions a))
     \<and> (\<forall>uid. length (of_user uid (ad_sessions a)) \<le> MAX_SESSIONS_PER_USER)"

inductive session_step :: "auth_db \<Rightarrow> auth_db \<Rightarrow> bool" where
  step_create: "create_session h max_dt cas tk a raw ttl uid agent ip rem = Ok (a', r) \<Longrightarrow> session_step a a'"
| step_resolve: "session_step a (fst (user_from_session h now now2 a raw))"
| step_revoke: "session_step a (revoke_session h a raw)"
| step_revoke_all: "session_step a (revoke_all_user_sessions h a uid ex)"
| step_prune: "session_step a (prune_sessions now hrs a)"
| step_replace_codes: "replace_recovery_codes h now uid cs a = Ok a' \<Longrightarrow> session_step a a'"
| step_consume: "session_step a (fst (consume_recovery_code h now uid c a))"
| step_delete_codes: "session_step a (delete_recovery_codes uid a)"

definition no_sessions :: "auth_db \<Rightarrow> bool" where
  "no_sessions a \<longleftrightarrow> ad_sessions a = []"

lemma session_wf_cong:
  "session_wf a \<Longrightarrow> map (\<lambda>s. (ses_id s, ses_token s, ses_user s)) (ad_sessions a) =
       map (\<lambda>s. (ses_id s, ses_token s, ses_user s)) (ad_sessions a') \<Longrightarrow>
     ad_session_seq a' = ad_session_seq a \<Longrightarrow> session_wf a'"
proof -
  assume wf: "session_wf a" and m: "map (\<lambda>s. (ses_id s, ses_token s, ses_user s)) (ad_sessions a) =
       map (\<lambda>s. (ses_id s, ses_token s, ses_user s)) (ad_sessions a')" (is "map ?v _ = _")
    and q: "ad_session_seq a' = ad_session_seq a"
  have cols: "map ses_id (ad_sessions a) = map ses_id (ad_sessions a')"
    "map ses_token (ad_sessions a) = map ses_token (ad_sessions a')"
    "map ses_user (ad_sessions a) = map ses_user (ad_sessions a')"
    using arg_cong [OF m, of "map fst"] arg_cong [OF m, of "map (fst \<circ> snd)"] arg_cong [OF m, of "map (snd \<circ> snd)"]
    by (simp_all add: comp_def)
  have len: "length (of_user uid ss) = count_list (map ses_user ss) uid" for uid ss
    by (induction ss) (auto simp: of_user_def)
  have "ses_id ` set (ad_sessions a) = ses_id ` set (ad_sessions a')" using cols(1) by (metis set_map)
  then have "(\<forall>x\<in>ses_id ` set (ad_sessions a). x \<le> ad_session_seq a) \<longleftrightarrow> (\<forall>x\<in>ses_id ` set (ad_sessions a'). x \<le> ad_session_seq a)"
    by simp
  then have "(\<forall>s\<in>set (ad_sessions a). ses_id s \<le> ad_session_seq a) \<longleftrightarrow> (\<forall>s\<in>set (ad_sessions a'). ses_id s \<le> ad_session_seq a)"
    by simp
  with wf cols q show "session_wf a'" by (simp add: session_wf_def ids_wf_def len)
qed

lemma session_wf_update:
  assumes "session_wf a" "\<And>s. ses_id (f s) = ses_id s" "\<And>s. ses_token (f s) = ses_token s" "\<And>s. ses_user (f s) = ses_user s"
  shows "session_wf (session_update P f a)"
  by (rule session_wf_cong [OF assms(1)]) (auto simp: session_update_def update_rows_def assms)

lemma session_wf_same: "session_wf a \<Longrightarrow> ad_sessions a' = ad_sessions a \<Longrightarrow> ad_session_seq a' = ad_session_seq a \<Longrightarrow> session_wf a'"
  by (simp add: session_wf_def ids_wf_def)

lemma session_wf_filter:
  assumes "session_wf a" "ad_sessions a' = filter P (ad_sessions a)" "ad_session_seq a' = ad_session_seq a"
  shows "session_wf a'"
proof -
  have "length (of_user uid (filter P ss)) \<le> length (of_user uid ss)" for uid ss
    by (induction ss) (auto simp: of_user_def)
  with assms show ?thesis
    unfolding session_wf_def ids_wf_def by (auto simp: distinct_map_filter) (meson order_trans)
qed

lemma insert_codes_sessions [simp]:
  "ad_sessions (insert_codes h now uid cs a) = ad_sessions a"
  "ad_session_seq (insert_codes h now uid cs a) = ad_session_seq a"
  "ad_db (insert_codes h now uid cs a) = ad_db a"
  by (induction cs arbitrary: a) simp_all

lemma prune_fields [simp]:
  "ad_session_seq (prune_sessions now k a) = ad_session_seq a" "ad_db (prune_sessions now k a) = ad_db a"
  by (simp_all add: prune_sessions_def)

lemma maybe_prune_fields [simp]:
  "ad_session_seq (maybe_prune_sessions c g now a) = ad_session_seq a" "ad_db (maybe_prune_sessions c g now a) = ad_db a"
  by (simp_all add: maybe_prune_sessions_def Let_def)

lemma maybe_prune_filter:
  obtains P where "ad_sessions (maybe_prune_sessions c g now a) = filter P (ad_sessions a)" "\<And>s. \<not> dead now s \<Longrightarrow> P s"
proof (cases "SESSION_PRUNE_INTERVAL_SECS \<le> g div 10 ^ 9 - ad_last_prune a \<and> c")
  case True
  then show thesis
    by (intro that [of "\<lambda>s. \<not> (dead now s \<and> ses_created s < now - hours SESSION_PRUNE_MAX_AGE_HOURS)"])
      (auto simp: maybe_prune_sessions_def prune_sessions_def Let_def)
next
  case False
  then show thesis by (intro that [of "\<lambda>_. True"]) (auto simp: maybe_prune_sessions_def Let_def)
qed

text \<open>What a successful \<open>create_session\<close> did.\<close>

lemma create_session_Ok:
  assumes "create_session h max_dt cas tk a raw ttl uid agent ip rem = Ok (a', raw', ex)"
  obtains s P where "ses_id s = ad_session_seq a + 1" "ses_token s = h raw" "ses_user s = uid"
    "ses_created s = tk_created tk" "ses_expires s = ex" "\<not> ses_revoked s" "raw' = raw" "ex \<le> max_dt"
    "\<forall>t\<in>set (ad_sessions a). ses_token t \<noteq> h raw"
    "\<And>t. \<not> dead (tk_prune tk) t \<Longrightarrow> P t"
    "\<exists>b. a' = enforce_session_cap (tk_cap tk) uid b \<and> ad_sessions b = filter P (ad_sessions a @ [s])
       \<and> ad_session_seq b = ad_session_seq a + 1 \<and> ad_db b = ad_db a"
proof -
  from assms obtain n where n: "session_ttl ttl rem = Ok n" by (auto simp: create_session_def rbind_Ok_iff)
  define s where "s = \<lparr>ses_id = ad_session_seq a + 1, ses_token = h raw, ses_user = uid, ses_agent = agent, ses_ip = ip,
     ses_created = tk_created tk, ses_expires = tk_created tk + hours n, ses_revoked = False,
     ses_remember = rem, ses_last_seen = None\<rparr>"
  let ?a1 = "a\<lparr>ad_sessions := ad_sessions a @ [s], ad_session_seq := ad_session_seq a + 1\<rparr>"
  let ?a2 = "maybe_prune_sessions cas (tk_gate tk) (tk_prune tk) ?a1"
  have eff: "a' = enforce_session_cap (tk_cap tk) uid ?a2" "raw' = raw" "ex = ses_expires s" "ex \<le> max_dt"
    "\<forall>t\<in>set (ad_sessions a). ses_token t \<noteq> h raw"
    using assms n by (auto simp: create_session_def Let_def s_def exists_row_def split: if_splits)
  obtain P where P: "ad_sessions ?a2 = filter P (ad_sessions ?a1)" "\<And>t. \<not> dead (tk_prune tk) t \<Longrightarrow> P t"
    using maybe_prune_filter by blast
  show thesis
    by (rule that [of s P]) (use eff P in \<open>auto simp: s_def intro!: exI [of _ ?a2]\<close>)
qed

lemma enforce_cap_filter:
  obtains P where "ad_sessions (enforce_session_cap now uid a) = filter P (ad_sessions a)"
    "ad_session_seq (enforce_session_cap now uid a) = ad_session_seq a" "ad_db (enforce_session_cap now uid a) = ad_db a"
proof (cases "length (of_user uid (ad_sessions a)) \<le> MAX_SESSIONS_PER_USER")
  case True
  then show thesis by (intro that [of "\<lambda>_. True"]) (auto simp: enforce_session_cap_def)
next
  case False
  then show thesis
    by (intro that [of "\<lambda>s. ses_id s \<notin> ses_id ` set (victims now uid (ad_sessions a))"]) (auto simp: enforce_session_cap_def)
qed

lemma of_user_filter_le: "length (of_user u (filter P ss)) \<le> length (of_user u ss)"
  by (induction ss) (auto simp: of_user_def)

lemma create_session_wf:
  assumes wf: "session_wf a" and ok: "create_session h max_dt cas tk a raw ttl uid agent ip rem = Ok (a', raw', ex)"
  shows "session_wf a'"
proof -
  obtain s P b where s: "ses_id s = ad_session_seq a + 1" "ses_token s = h raw" "ses_user s = uid"
      "\<forall>t\<in>set (ad_sessions a). ses_token t \<noteq> h raw"
    and b: "a' = enforce_session_cap (tk_cap tk) uid b" "ad_sessions b = filter P (ad_sessions a @ [s])"
      "ad_session_seq b = ad_session_seq a + 1"
    using create_session_Ok [OF ok] by metis
  define c where "c = b\<lparr>ad_sessions := ad_sessions a @ [s]\<rparr>"
  have "ids_wf c \<and> distinct (map ses_token (ad_sessions c))"
    using wf s b(3) by (fastforce simp: session_wf_def ids_wf_def c_def)
  then have bwf: "ids_wf b" "distinct (map ses_token (ad_sessions b))"
    using b(2) by (auto simp: ids_wf_def c_def distinct_map_filter simp del: filter_append)
  obtain Q where Q: "ad_sessions a' = filter Q (ad_sessions b)" "ad_session_seq a' = ad_session_seq b"
    using enforce_cap_filter [of "tk_cap tk" uid b] b(1) by metis
  have "ids_wf a' \<and> distinct (map ses_token (ad_sessions a'))"
    using bwf Q by (auto simp: ids_wf_def distinct_map_filter)
  moreover have "length (of_user u (ad_sessions a')) \<le> MAX_SESSIONS_PER_USER" for u
  proof (cases "u = uid")
    case True
    then show ?thesis using enforce_cap_count [OF bwf(1)] b(1) by simp
  next
    case False
    have "length (of_user u (ad_sessions a')) \<le> length (of_user u (ad_sessions a @ [s]))"
      unfolding Q(1) b(2) by (rule order_trans [OF of_user_filter_le of_user_filter_le])
    also have "\<dots> \<le> MAX_SESSIONS_PER_USER" using False s(3) wf by (simp add: of_user_def session_wf_def)
    finally show ?thesis .
  qed
  ultimately show ?thesis by (simp add: session_wf_def)
qed

lemma session_step_wf: "session_step a a' \<Longrightarrow> session_wf a \<Longrightarrow> session_wf a'"
proof (induction rule: session_step.induct)
  case (step_create h max_dt cas tk a raw ttl uid agent ip rem a' r)
  then show ?case using create_session_wf by (cases r) blast
next
  case (step_resolve a h now now2 raw)
  then show ?case
    by (auto simp: user_from_session_def touch_session_def intro!: session_wf_update split: option.splits)
next
  case (step_revoke a h raw)
  then show ?case unfolding revoke_session_def by (rule session_wf_update) simp_all
next
  case (step_revoke_all a h uid ex)
  then show ?case
    by (cases ex) (auto simp: revoke_all_user_sessions_def intro!: session_wf_update)
next
  case (step_prune a now hrs)
  then show ?case by (rule session_wf_filter) (simp_all add: prune_sessions_def)
next
  case (step_replace_codes h now uid cs a a')
  from step_replace_codes(2) show ?case
    by (rule session_wf_same) (use step_replace_codes(1) in \<open>auto simp: replace_recovery_codes_def delete_recovery_codes_def split: if_splits\<close>)
next
  case (step_consume a h now uid c)
  then show ?case by (rule session_wf_same) (simp_all add: consume_recovery_code_def Let_def)
next
  case (step_delete_codes a uid)
  then show ?case by (rule session_wf_same) (simp_all add: delete_recovery_codes_def)
qed

lemma no_sessions_wf: "no_sessions a \<Longrightarrow> session_wf a"
  by (simp add: no_sessions_def session_wf_def ids_wf_def of_user_def)

interpretation sessions: invariant_system no_sessions session_step session_wf
  by unfold_locales (fact no_sessions_wf, rule session_step_wf)

text \<open>
  Over any sequence of logins, requests, revocations, sweeps and recovery-code operations, no
  user ever holds more than ten session rows, and session ids and tokens stay unique.
\<close>
theorem sessions_stay_capped:
  assumes "no_sessions a0" "session_step\<^sup>*\<^sup>* a0 a"
  shows "length (filter (\<lambda>s. ses_user s = uid) (ad_sessions a)) \<le> 10
    \<and> distinct (map ses_id (ad_sessions a)) \<and> distinct (map ses_token (ad_sessions a))"
  using sessions.reachable_inv [OF assms]
  by (auto simp: session_wf_def ids_wf_def of_user_def MAX_SESSIONS_PER_USER_def)

text \<open>
  The cap evicts dead sessions (revoked or expired) before live ones: when a live session is
  evicted, everything of that user that is kept is live and not older; other users are not touched.
\<close>
theorem eviction_order:
  assumes "ids_wf a" "v \<in> set (ad_sessions a)" "v \<notin> set (ad_sessions (enforce_session_cap now uid a))" "\<not> dead now v"
    "s \<in> set (ad_sessions (enforce_session_cap now uid a))" "ses_user s = uid"
  shows "ses_user v = uid \<and> \<not> dead now s \<and> ses_created v \<le> ses_created s"
proof -
  let ?vs = "victims now uid (ad_sessions a)"
  have over: "\<not> length (of_user uid (ad_sessions a)) \<le> MAX_SESSIONS_PER_USER"
    using assms(2,3) by (auto simp: enforce_session_cap_def split: if_splits)
  have kept: "ad_sessions (enforce_session_cap now uid a) = filter (\<lambda>s. ses_id s \<notin> ses_id ` set ?vs) (ad_sessions a)"
    using over by (simp add: enforce_session_cap_def)
  obtain w where w: "w \<in> set ?vs" "ses_id w = ses_id v" using assms(2,3) kept by auto
  have "w = v"
    using w assms(1,2) victims_sub [of now uid "ad_sessions a"]
    by (auto simp: ids_wf_def of_user_def distinct_map dest: inj_onD)
  with w have v: "v \<in> set ?vs" by simp
  have s: "s \<in> set (of_user uid (ad_sessions a))" "s \<notin> set ?vs"
    using assms(5,6) kept by (auto simp: of_user_def)
  have "evict_key now v \<le> evict_key now s" using evicted_before_kept [OF v s] .
  moreover have "ses_user v = uid" using v victims_sub [of now uid "ad_sessions a"] by (auto simp: of_user_def)
  ultimately show ?thesis using assms(4) by (auto simp: evict_key_def less_eq_prod_def split: if_splits)
qed

section \<open>Resolving a session\<close>

lemma find_token:
  assumes "distinct (map ses_token ss)" "s \<in> set ss" "ses_token s = tok"
  shows "find (\<lambda>t. ses_token t = tok) ss = Some s"
  using assms by (induction ss) auto

lemma newest_not_victim:
  assumes ids: "distinct (map ses_id ss)"
    and s: "\<not> dead now s" "\<And>t. t \<in> set ss \<Longrightarrow> ses_user t = uid \<Longrightarrow> t \<noteq> s \<Longrightarrow> ses_created t < ses_created s"
    and over: "MAX_SESSIONS_PER_USER < length (of_user uid ss)"
  shows "s \<notin> set (victims now uid ss)"
proof
  assume v: "s \<in> set (victims now uid ss)"
  have "length (victims now uid ss) < length (of_user uid ss)"
    using over by (simp add: length_victims MAX_SESSIONS_PER_USER_def)
  moreover have "distinct (of_user uid ss)" using ids by (simp add: of_user_def distinct_map)
  ultimately obtain t where t: "t \<in> set (of_user uid ss)" "t \<notin> set (victims now uid ss)"
    by (metis card_length card_mono distinct_card finite_set le_trans linorder_not_less subsetI)
  with v have "t \<noteq> s" "t \<in> set ss" "ses_user t = uid" by (auto simp: of_user_def)
  with s(2) have "ses_created t < ses_created s" by blast
  with evicted_before_kept [OF v t] s(1) show False by (auto simp: evict_key_def less_eq_prod_def split: if_splits)
qed

text \<open>
  A login round trip: the cookie that \<open>create_session\<close> returns resolves to its user until it
  expires, provided the clock has moved on since the user's previous login.
\<close>
theorem create_then_resolve:
  assumes wf: "session_wf a" and ok: "create_session h max_dt cas tk a raw ttl uid agent ip rem = Ok (a', raw', ex)"
    and mono: "\<And>t. t \<in> set (ad_sessions a) \<Longrightarrow> ses_user t = uid \<Longrightarrow> ses_created t < tk_created tk"
    and clock: "tk_prune tk \<le> ex" "tk_cap tk \<le> ex" "now \<le> ex"
    and u: "get_user (ad_db a) uid = Ok u"
  shows "raw' = raw \<and> snd (user_from_session h now now2 a' raw') = Ok u"
proof -
  obtain s P b where s: "ses_id s = ad_session_seq a + 1" "ses_token s = h raw" "ses_user s = uid"
      "ses_created s = tk_created tk" "ses_expires s = ex" "\<not> ses_revoked s" "raw' = raw"
      "\<forall>t\<in>set (ad_sessions a). ses_token t \<noteq> h raw"
    and P: "\<And>t. \<not> dead (tk_prune tk) t \<Longrightarrow> P t"
    and b: "a' = enforce_session_cap (tk_cap tk) uid b" "ad_sessions b = filter P (ad_sessions a @ [s])"
      "ad_session_seq b = ad_session_seq a + 1" "ad_db b = ad_db a"
    using create_session_Ok [OF ok] by metis
  have live: "\<not> dead (tk_prune tk) s" "\<not> dead (tk_cap tk) s" using s clock by (auto simp: dead_def)
  have sb: "s \<in> set (ad_sessions b)" using P [OF live(1)] b(2) by auto
  have new: "t \<in> set (ad_sessions a)" if "t \<in> set (ad_sessions b)" "t \<noteq> s" for t
    using that b(2) by (auto split: if_splits)
  have ids: "distinct (map ses_id (ad_sessions a @ [s]))"
    using wf s(1) by (fastforce simp: session_wf_def ids_wf_def)
  then have idb: "distinct (map ses_id (ad_sessions b))" unfolding b(2) by (rule distinct_map_filter)
  have "s \<in> set (ad_sessions a')"
  proof (cases "length (of_user uid (ad_sessions b)) \<le> MAX_SESSIONS_PER_USER")
    case True
    then show ?thesis using sb b(1) by (simp add: enforce_session_cap_def)
  next
    case False
    have "ses_created t < ses_created s" if "t \<in> set (ad_sessions b)" "ses_user t = uid" "t \<noteq> s" for t
      using mono new that s(4) by simp
    then have nv: "s \<notin> set (victims (tk_cap tk) uid (ad_sessions b))"
      using False idb live(2) by (intro newest_not_victim) auto
    have "ses_id s \<notin> ses_id ` set (victims (tk_cap tk) uid (ad_sessions b))"
      using nv sb idb victims_sub [of "tk_cap tk" uid "ad_sessions b"]
      by (auto simp: of_user_def distinct_map dest!: inj_onD)
    with sb False show ?thesis by (simp add: b(1) enforce_session_cap_def)
  qed
  moreover have "distinct (map ses_token (ad_sessions a'))"
    using create_session_wf [OF wf ok] by (simp add: session_wf_def)
  ultimately have "find (\<lambda>t. ses_token t = h raw) (ad_sessions a') = Some s" using find_token s(2) by blast
  moreover have "ad_db a' = ad_db a" using enforce_cap_filter [of "tk_cap tk" uid b] b(1,4) by metis
  ultimately show ?thesis using s clock(3) u by (simp add: user_from_session_def)
qed

text \<open>
  A session that was revoked, alone or together with all sessions of its user, does not resolve;
  revoking all but one leaves that one as it was.
\<close>
theorem revoked_never_resolves:
  assumes wf: "session_wf a" and s: "s \<in> set (ad_sessions a)" "ses_token s = h raw"
  shows "snd (user_from_session h now now2 (revoke_session h a raw) raw) = Err SessionRevoked
    \<and> ((case ex of Some raw' \<Rightarrow> h raw' \<noteq> h raw | None \<Rightarrow> True) \<longrightarrow>
      snd (user_from_session h now now2 (revoke_all_user_sessions h a (ses_user s) ex) raw) = Err SessionRevoked)
    \<and> snd (user_from_session h now now2 (revoke_all_user_sessions h a (ses_user s) (Some raw)) raw)
      = snd (user_from_session h now now2 a raw)"
proof -
  have tok: "distinct (map ses_token (ad_sessions a))" using wf by (simp add: session_wf_def)
  have f: "find (\<lambda>t. ses_token t = h raw) (update_rows P g (ad_sessions a)) = Some (if P s then g s else s)"
    if "\<And>t. ses_token (g t) = ses_token t" for P g
    using tok s that by (intro find_token) (auto simp: update_rows_def comp_def if_distrib cong: if_cong)
  have f0: "find (\<lambda>t. ses_token t = h raw) (ad_sessions a) = Some s" using find_token [OF tok s] .
  show ?thesis
    using s f0 by (auto simp: user_from_session_def revoke_session_def revoke_all_user_sessions_def
        session_update_def f split: option.splits)
qed

lemma find_filter_token:
  assumes "distinct (map ses_token ss)"
  shows "find (\<lambda>t. ses_token t = k) (filter P ss) =
    (case find (\<lambda>t. ses_token t = k) ss of Some s \<Rightarrow> if P s then Some s else None | None \<Rightarrow> None)"
  using assms by (induction ss) (auto simp: find_None_iff split: option.splits dest!: find_Some_set)

text \<open>
  A sweep never logs anybody out: a cookie that resolves before \<open>prune_sessions\<close> resolves after
  it to the same user, and the sweep makes no other cookie valid.
\<close>
theorem prune_keeps_live_sessions:
  assumes "session_wf a" "pnow \<le> now"
  shows "snd (user_from_session h now now2 (prune_sessions pnow hrs a) raw) = Ok u
    \<longleftrightarrow> snd (user_from_session h now now2 a raw) = Ok u"
  using assms
  by (auto simp: user_from_session_def prune_sessions_def session_wf_def find_filter_token dead_def
      split: option.splits)

text \<open>
  \<open>last_seen\<close> is written at most once in five minutes per session: a request changes it only
  when it was unset or older than that, and then sets it to the current time.
\<close>
lemma last_seen_throttled:
  assumes "s' \<in> set (ad_sessions (fst (user_from_session h now now2 a raw)))"
  shows "\<exists>s\<in>set (ad_sessions a). s' = s \<or> (s' = s\<lparr>ses_last_seen := Some now2\<rparr> \<and> ses_token s = h raw
    \<and> (\<forall>t. ses_last_seen s = Some t \<longrightarrow> t < now2 - 300 * 10 ^ 9))"
proof -
  have "s' \<in> set (ad_sessions a) \<or> s' \<in> set (ad_sessions (touch_session now2 (h raw) a))"
    using assms by (auto simp: user_from_session_def split: option.splits if_splits)
  then show ?thesis
    by (auto simp: touch_session_def session_update_def update_rows_def secs_def LAST_SEEN_THROTTLE_MINS_def
        split: option.splits if_splits)
qed

text \<open>
  A login within the same clock reading as earlier ones loses the race: among equal creation times
  the query evicts the highest id, the session just inserted.
\<close>

lemma tie_evicts_new_session:
  assumes ids: "distinct (map ses_id ss)" and s: "s \<in> set (of_user uid ss)"
    and tie: "\<And>t. t \<in> set (of_user uid ss) \<Longrightarrow> \<not> dead now t \<and> ses_created t = ses_created s \<and> ses_id t \<le> ses_id s"
    and over: "MAX_SESSIONS_PER_USER < length (of_user uid ss)"
  shows "s \<in> set (victims now uid ss)"
proof (rule ccontr)
  assume n: "s \<notin> set (victims now uid ss)"
  have "victims now uid ss \<noteq> []" using over length_victims [of now uid ss] by auto
  then obtain v where v: "v \<in> set (victims now uid ss)" by (metis list.set_sel(1))
  then have vm: "v \<in> set (of_user uid ss)" using victims_sub [of now uid ss] by auto
  have "evict_key now v \<le> evict_key now s" using evicted_before_kept [OF v s n] .
  with tie [OF vm] tie [OF s] have "ses_id v = ses_id s" by (auto simp: evict_key_def)
  with ids vm s have "v = s" by (auto simp: of_user_def distinct_map dest: inj_onD)
  with n v show False by simp
qed

section \<open>Recovery codes are single use\<close>









section \<open>Witnesses\<close>

definition wsession :: "int \<Rightarrow> session" where
  "wsession i = \<lparr>ses_id = i, ses_token = show_int i, ses_user = 1, ses_agent = [], ses_ip = [], ses_created = i,
     ses_expires = 10 ^ 18, ses_revoked = False, ses_remember = False, ses_last_seen = None\<rparr>"

definition wuser1 :: user where
  "wuser1 = \<lparr>u_id = 1, u_username = ''user'', u_email = ''u@example.org'', u_avatar = [],
     u_language = ''en'', u_theme = ''dark'', u_root_admin = False, u_active = True,
     u_twofa_secret = None, u_twofa_enabled = False, u_about = [], u_created_at = 0,
     u_updated_at = 0, u_key_scope = None\<rparr>"

definition wauth :: "session list \<Rightarrow> auth_db" where
  "wauth ss = \<lparr>ad_db = empty_db\<lparr>users := [wuser1]\<rparr>, ad_sessions = ss, ad_session_seq = 20, ad_last_prune = 0,
     ad_recovery = [], ad_recovery_seq = 0\<rparr>"

definition wticks :: ticks where
  "wticks = \<lparr>tk_created = 100, tk_gate = 101, tk_prune = 102, tk_cap = 103\<rparr>"

lemmas session_witness = wsession_def wuser1_def wauth_def wticks_def empty_db_def hours_def secs_def

lemma wauth_create:
  "create_session id (10 ^ 30) True wticks (wauth []) ''tok'' 24 1 [] [] False =
     Ok (wauth [] \<lparr>ad_sessions := [\<lparr>ses_id = 21, ses_token = ''tok'', ses_user = 1, ses_agent = [], ses_ip = [],
       ses_created = 100, ses_expires = 100 + 86400 * 10 ^ 9, ses_revoked = False, ses_remember = False,
       ses_last_seen = None\<rparr>], ad_session_seq := 21\<rparr>, ''tok'', 100 + 86400 * 10 ^ 9)"
  by (simp add: create_session_def session_ttl_def maybe_prune_sessions_def enforce_session_cap_def of_user_def
      SESSION_PRUNE_INTERVAL_SECS_def MAX_SESSIONS_PER_USER_def Let_def session_witness)

theorem sessions_stay_capped_witness:
  "\<exists>a'. session_step (wauth []) a' \<and> ad_sessions a' \<noteq> [] \<and> length (filter (\<lambda>s. ses_user s = 1) (ad_sessions a')) \<le> 10"
proof -
  note st = step_create [OF wauth_create]
  have "no_sessions (wauth [])" by (simp add: no_sessions_def wauth_def)
  note bound = sessions_stay_capped [OF this r_into_rtranclp, OF st, of 1]
  show ?thesis using st bound by (intro exI conjI, fastforce, simp, blast)
qed

theorem create_then_resolve_witness:
  "\<exists>a' ex. create_session id (10 ^ 30) True wticks (wauth []) ''tok'' 24 1 [] [] False = Ok (a', ''tok'', ex)
     \<and> snd (user_from_session id 500 501 a' ''tok'') = Ok wuser1"
proof -
  have wf: "session_wf (wauth [])" by (simp add: session_wf_def ids_wf_def of_user_def wauth_def)
  have u: "get_user (ad_db (wauth [])) 1 = Ok wuser1" by (simp add: get_user_def session_witness)
  from create_then_resolve [OF wf wauth_create _ _ _ _ u, of 500 501] wauth_create show ?thesis
    by (auto simp: wauth_def wticks_def)
qed

theorem eviction_order_witness:
  "wsession 1 \<in> set (victims 500 1 (map wsession [1..11])) \<and> ses_created (wsession 1) \<le> ses_created (wsession 2)"
proof -
  let ?a = "wauth (map wsession [1..11])"
  have up: "[1..11::int] = [1,2,3,4,5,6,7,8,9,10,11]" by (simp add: upto.simps)
  have key: "evict_key 500 (wsession i) = (1, i, - i)" for i by (simp add: evict_key_def dead_def wsession_def)
  have mine: "of_user 1 (map wsession [1..11]) = map wsession [1..11]" by (simp add: up of_user_def wsession_def)
  have "sorted (map (evict_key 500) (map wsession [1..11]))" by (simp add: up key)
  then have "sort_key (evict_key 500) (map wsession [1..11]) = map wsession [1..11]" by (rule sort_key_id_if_sorted)
  then have vs: "victims 500 1 (map wsession [1..11]) = [wsession 1]"
    unfolding victims_def mine Let_def MAX_SESSIONS_PER_USER_def by (simp add: upto.simps)
  have ids: "ids_wf ?a" by (simp add: ids_wf_def up wauth_def wsession_def)
  have wid: "ses_id (wsession i) = i" for i by (simp add: wsession_def)
  have kept: "ad_sessions (enforce_session_cap 500 1 ?a) = filter (\<lambda>s. ses_id s \<noteq> 1) (map wsession [1..11])"
    using vs mine by (simp add: enforce_session_cap_def wauth_def MAX_SESSIONS_PER_USER_def wsession_def)
  have "wsession 1 \<in> set (ad_sessions ?a)" "\<not> dead 500 (wsession 1)"
    "wsession 1 \<notin> set (ad_sessions (enforce_session_cap 500 1 ?a))"
    "wsession 2 \<in> set (ad_sessions (enforce_session_cap 500 1 ?a))" "ses_user (wsession 2) = 1"
    unfolding kept using wid [of 1] wid [of 2] by (auto simp: wauth_def dead_def wsession_def)
  from eviction_order [OF ids this(1,3,2,4,5)] vs show ?thesis by simp
qed

lemma wauth_one_wf: "session_wf (wauth [wsession 3])"
  by (auto simp: session_wf_def ids_wf_def of_user_def wauth_def wsession_def MAX_SESSIONS_PER_USER_def)

theorem revoked_never_resolves_witness:
  "snd (user_from_session id 500 501 (revoke_session id (wauth [wsession 3]) (show_int 3)) (show_int 3)) = Err SessionRevoked"
  using revoked_never_resolves [OF wauth_one_wf, of "wsession 3" id "show_int 3" 500 501]
  by (simp add: wauth_def wsession_def)

theorem prune_keeps_live_sessions_witness:
  "snd (user_from_session id 500 501 (prune_sessions 400 0 (wauth [wsession 3])) (show_int 3)) = Ok wuser1"
proof -
  have "snd (user_from_session id 500 501 (wauth [wsession 3]) (show_int 3)) = Ok wuser1"
    by (simp add: user_from_session_def get_user_def session_witness)
  with prune_keeps_live_sessions [OF wauth_one_wf, of 400 500 id 501 0 "show_int 3" wuser1] show ?thesis by simp
qed


end
