(* ===== verification/Totp.thy ===== *)
theory Totp
  imports Prelude "HOL-Library.Word"
begin

unbundle bit_operations_syntax

text \<open>
  The second-factor half of \<open>src/src/auth.rs\<close>: the hand-written base32 codec and percent encoder,
  constant-time comparison, the TOTP window search, single-use tracking and pending enrolments. The
  \<open>totp_rs\<close> crate is a parameter: which secrets it accepts and the code it generates for a time.
\<close>

section \<open>Base32\<close>

definition B32_ALPHABET :: string where "B32_ALPHABET = ''ABCDEFGHIJKLMNOPQRSTUVWXYZ234567''"

text \<open>The inner \<open>while bits >= 5\<close> loop.\<close>

function emit5 :: "32 word \<Rightarrow> nat \<Rightarrow> string \<Rightarrow> nat \<times> string" where
  "emit5 buffer bits out =
     (if 5 \<le> bits
      then emit5 buffer (bits - 5) (out @ [B32_ALPHABET ! unat (drop_bit (bits - 5) buffer AND 31)])
      else (bits, out))"
  by auto
termination by (relation "measure (\<lambda>(_, bits, _). bits)") auto

declare emit5.simps [simp del]

fun encode_loop :: "8 word list \<Rightarrow> 32 word \<Rightarrow> nat \<Rightarrow> string \<Rightarrow> string" where
  "encode_loop [] buffer bits out =
     (if 0 < bits then out @ [B32_ALPHABET ! unat (push_bit (5 - bits) buffer AND 31)] else out)"
| "encode_loop (b # bs) buffer bits out =
     (let buffer' = push_bit 8 buffer OR ucast b;
          (bits', out') = emit5 buffer' (bits + 8) out
      in encode_loop bs buffer' bits' out')"

definition base32_encode :: "8 word list \<Rightarrow> string" where
  "base32_encode bytes = encode_loop bytes 0 0 []"

text \<open>\<open>position\<close>: the index of the first match.\<close>

fun position :: "('a \<Rightarrow> bool) \<Rightarrow> 'a list \<Rightarrow> nat option" where
  "position P [] = None"
| "position P (x # xs) = (if P x then Some 0 else map_option Suc (position P xs))"

text \<open>
  A Rust \<open>char\<close> is a Unicode scalar value; upper-casing it is ASCII-only and the cast to \<open>u8\<close>
  keeps the low eight bits.
\<close>

definition char_upper_u8 :: "nat \<Rightarrow> nat" where
  "char_upper_u8 c = (if 97 \<le> c \<and> c \<le> 122 then c - 32 else c) mod 256"

definition b32_value :: "nat \<Rightarrow> nat option" where
  "b32_value c = position (\<lambda>a. code a = char_upper_u8 c) B32_ALPHABET"

datatype totp_error = InvalidBase32 | InvalidSecret

fun decode_loop :: "nat list \<Rightarrow> 32 word \<Rightarrow> nat \<Rightarrow> 8 word list \<Rightarrow> (totp_error, 8 word list) result" where
  "decode_loop [] buffer bits out = Ok out"
| "decode_loop (c # cs) buffer bits out =
     (case b32_value c of
        None \<Rightarrow> Err InvalidBase32
      | Some v \<Rightarrow>
          let buffer' = push_bit 5 buffer OR of_nat v;
              bits' = bits + 5
          in if 8 \<le> bits' then decode_loop cs buffer' (bits' - 8) (out @ [ucast (drop_bit (bits' - 8) buffer')])
             else decode_loop cs buffer' bits' out)"

definition base32_decode :: "nat list \<Rightarrow> (totp_error, 8 word list) result" where
  "base32_decode s = decode_loop s 0 0 []"

subsection \<open>The codec over pending bits\<close>

text \<open>
  Both loops keep more of the buffer than they need; only its lowest \<open>bits\<close> bits matter. The
  reference versions keep exactly that number, as a natural number.
\<close>

fun enc :: "nat list \<Rightarrow> nat \<Rightarrow> nat \<Rightarrow> nat list" where
  "enc [] v b = (if 0 < b then [v * 2 ^ (5 - b)] else [])"
| "enc (x # xs) v b =
     (let w = v * 256 + x in
      if b < 2 then (w div 2 ^ (b + 3)) # enc xs (w mod 2 ^ (b + 3)) (b + 3)
      else (w div 2 ^ (b + 3)) # (w mod 2 ^ (b + 3) div 2 ^ (b - 2)) # enc xs (w mod 2 ^ (b - 2)) (b - 2))"

fun dec :: "nat list \<Rightarrow> nat \<Rightarrow> nat \<Rightarrow> nat list" where
  "dec [] v b = []"
| "dec (x # xs) v b =
     (let w = v * 32 + x in
      if 3 \<le> b then (w div 2 ^ (b - 3)) # dec xs (w mod 2 ^ (b - 3)) (b - 3) else dec xs w (b + 5))"

lemma div_mod_at:
  "r < m \<Longrightarrow> (k * m + r) div m = (k :: nat)" "r < m \<Longrightarrow> (k * m + r) mod m = (r :: nat)"
  by simp_all

lemma split_at:
  assumes "x < (n :: nat)" "0 < m"
  obtains h l where "x = h * m + l" "h * m < n" "l < m"
  using assms that [of "x div m" "x mod m"] by (metis div_mult_mod_eq le_less_trans mod_less_divisor times_div_less_eq_dividend mult.commute)

lemma dec_enc_gen:
  "b < 5 \<Longrightarrow> v < 2 ^ b \<Longrightarrow> \<forall>x\<in>set xs. x < 256 \<Longrightarrow>
     (b = 0 \<longrightarrow> dec (enc xs 0 0) 0 0 = xs) \<and>
     (0 < b \<longrightarrow> q < 2 ^ (8 - b) \<longrightarrow> dec (enc xs v b) q (8 - b) = (q * 2 ^ b + v) # xs)"
proof (induction xs arbitrary: b v q)
  case Nil
  consider "b = 0" | "b = 1" | "b = 2" | "b = 3" | "b = 4" using Nil(1) by linarith
  then show ?case
  proof cases
    case 5
    have "(q * 32 + v * 2) div 2 = q * 16 + v" by presburger
    with 5 show ?thesis by (simp add: Let_def)
  qed (use Nil(2) in \<open>auto simp: Let_def algebra_simps\<close>)
next
  case (Cons x xs)
  have x: "x < 256" and xs: "\<forall>x\<in>set xs. x < 256" using Cons.prems(3) by auto
  consider (b0) "b = 0" | (b1) "b = 1" | (b2) "b = 2" | (b3) "b = 3" | (b4) "b = 4" using Cons.prems(1) by linarith
  then show ?case
  proof cases
    case b0
    have "dec (enc xs (x mod 8) 3) (x div 8) 5 = (x div 8 * 8 + x mod 8) # xs"
      using Cons.IH [of 3 "x mod 8" "x div 8"] xs x by simp
    then show ?thesis using b0 by (simp add: Let_def)
  next
    case b1
    obtain h l where x': "x = h * 16 + l" "h < 16" "l < 16" using split_at [OF x, of 16] by auto
    have "dec (enc xs l 4) h 4 = x # xs" using Cons.IH [of 4 l h] xs x' by simp
    moreover have "v * 256 + x = (v * 16 + h) * 16 + l" "q * 32 + (v * 16 + h) = (q * 2 + v) * 16 + h"
      using x'(1) by simp_all
    then have "(v * 256 + x) div 16 = v * 16 + h" "(v * 256 + x) mod 16 = l"
      "(q * 32 + (v * 16 + h)) div 16 = q * 2 + v" "(q * 32 + (v * 16 + h)) mod 16 = h"
      using x'(2,3) div_mod_at by metis+
    ultimately show ?thesis using b1 by (simp add: Let_def)
  next
    case b2
    obtain h l where x': "x = h * 32 + l" "h < 8" "l < 32" using split_at [OF x, of 32] by auto
    have "dec (enc xs 0 0) 0 0 = xs" using Cons.IH [of 0 0] xs by simp
    moreover have "v * 256 + x = (v * 8 + h) * 32 + l" "q * 32 + (v * 8 + h) = (q * 4 + v) * 8 + h"
      using x'(1) by simp_all
    then have "(v * 256 + x) div 32 = v * 8 + h" "(v * 256 + x) mod 32 = l"
      "(q * 32 + (v * 8 + h)) div 8 = q * 4 + v" "(q * 32 + (v * 8 + h)) mod 8 = h"
      using x'(2,3) div_mod_at by metis+
    ultimately show ?thesis using b2 x'(1) by (simp add: Let_def)
  next
    case b3
    obtain h r where x1: "x = h * 64 + r" "h < 4" "r < 64" using split_at [OF x, of 64] by auto
    obtain m l where x2: "r = m * 2 + l" "m < 32" "l < 2" using split_at [OF x1(3), of 2] by auto
    have "dec (enc xs l 1) (h * 32 + m) 7 = x # xs"
      using Cons.IH [of 1 l "h * 32 + m"] xs x1 x2 by simp
    moreover have "v * 256 + x = (v * 4 + h) * 64 + r" "q * 32 + (v * 4 + h) = (q * 8 + v) * 4 + h"
      "(v * 4 + h) * 64 + r = (v * 128 + h * 32 + m) * 2 + l"
      using x1(1) x2(1) by simp_all
    then have "(v * 256 + x) div 64 = v * 4 + h" "(v * 256 + x) mod 64 = r" "(v * 256 + x) mod 2 = l" "r div 2 = m"
      "(q * 32 + (v * 4 + h)) div 4 = q * 8 + v" "(q * 32 + (v * 4 + h)) mod 4 = h"
      using x1(2,3) x2 div_mod_at by metis+
    ultimately show ?thesis using b3 by (simp add: Let_def)
  next
    case b4
    obtain h r where x1: "x = h * 128 + r" "h < 2" "r < 128" using split_at [OF x, of 128] by auto
    obtain m l where x2: "r = m * 4 + l" "m < 32" "l < 4" using split_at [OF x1(3), of 4] by auto
    have "dec (enc xs l 2) (h * 32 + m) 6 = x # xs"
      using Cons.IH [of 2 l "h * 32 + m"] xs x1 x2 by simp
    moreover have "v * 256 + x = (v * 2 + h) * 128 + r" "q * 32 + (v * 2 + h) = (q * 16 + v) * 2 + h"
      "(v * 2 + h) * 128 + r = (v * 64 + h * 32 + m) * 4 + l"
      using x1(1) x2(1) by simp_all
    then have "(v * 256 + x) div 128 = v * 2 + h" "(v * 256 + x) mod 128 = r" "(v * 256 + x) mod 4 = l" "r div 4 = m"
      "(q * 32 + (v * 2 + h)) div 2 = q * 16 + v" "(q * 32 + (v * 2 + h)) mod 2 = h"
      using x1(2,3) x2 div_mod_at by metis+
    ultimately show ?thesis using b4 by (simp add: Let_def)
  qed
qed

lemma dec_enc: "\<forall>x\<in>set xs. x < 256 \<Longrightarrow> dec (enc xs 0 0) 0 0 = xs"
  using dec_enc_gen [of 0 0 xs 0] by simp

subsection \<open>The loops against the reference\<close>

lemma push_or_nat: "y < 2 ^ n \<Longrightarrow> push_bit n x OR y = x * 2 ^ n + (y :: nat)"
proof -
  assume "y < 2 ^ n"
  then have y: "take_bit n y = y" by (simp add: take_bit_nat_eq_self_iff)
  have "push_bit n x AND take_bit n y = 0" by (rule bit_eqI) (auto simp: bit_simps)
  with y show ?thesis by (simp add: disjunctive_add_eq_or [symmetric] push_bit_eq_mult)
qed

lemma pending_push:
  assumes v: "take_bit b (unat buffer) = v" and y: "unat u < 2 ^ n" and "n + b \<le> 32"
  shows "take_bit (b + n) (unat (push_bit n buffer OR u :: 32 word)) = v * 2 ^ n + unat u"
proof -
  have "unat u < 2 ^ (b + n)" using y by (meson le_add2 order_less_le_trans one_le_numeral power_increasing)
  then have u: "take_bit (b + n) (unat u) = unat u" by (simp add: take_bit_nat_eq_self_iff)
  have "unat (push_bit n buffer OR u) = take_bit 32 (push_bit n (unat buffer)) OR unat u"
    by (simp add: unsigned_or_eq unsigned_push_bit_eq)
  then have "take_bit (b + n) (unat (push_bit n buffer OR u)) = take_bit (b + n) (push_bit n (unat buffer)) OR unat u"
    using assms(3) u by (simp add: min_def add.commute)
  also have "\<dots> = push_bit n v OR unat u" using v by (simp add: take_bit_push_bit)
  finally show ?thesis using push_or_nat [OF y] by simp
qed

lemma position_nth: "distinct xs \<Longrightarrow> v < length xs \<Longrightarrow> position (\<lambda>a. a = xs ! v) xs = Some v"
proof (induction xs arbitrary: v)
  case (Cons x xs)
  then show ?case by (cases v) auto
qed simp

lemma sym_value: "v < 32 \<Longrightarrow> b32_value (code (B32_ALPHABET ! v)) = Some v"
proof -
  assume v: "v < 32"
  have "\<forall>c\<in>set B32_ALPHABET. \<not> 97 \<le> code c" by (simp add: B32_ALPHABET_def)
  moreover have len: "length B32_ALPHABET = 32" and dist: "distinct B32_ALPHABET" by (simp_all add: B32_ALPHABET_def)
  moreover have "code c < 256" for c :: char by (metis of_char_of mod_less_divisor of_char_mod_256 zero_less_numeral)
  ultimately have "char_upper_u8 (code (B32_ALPHABET ! v)) = code (B32_ALPHABET ! v)"
    using v by (simp add: char_upper_u8_def)
  then show ?thesis using position_nth [OF dist, of v] v len by (simp add: b32_value_def)
qed

lemma take_bit_sub: "take_bit n a = w \<Longrightarrow> k \<le> n \<Longrightarrow> take_bit k a = w mod (2 ^ k :: nat)"
  by (auto simp: min_def simp flip: take_bit_eq_mod)

definition syms :: "nat list \<Rightarrow> string" where
  "syms vs = map (\<lambda>v. B32_ALPHABET ! v) vs"

lemma and31: "unat (w AND 31 :: 32 word) = take_bit 5 (unat w)"
proof -
  have "w AND 31 = take_bit 5 w" by (simp add: take_bit_eq_mask mask_eq_exp_minus_1)
  then show ?thesis by (simp add: unsigned_take_bit_eq)
qed

lemma emit_sym:
  assumes "5 \<le> b" "take_bit b (unat buffer) = w" "b \<le> 32"
  shows "unat (drop_bit (b - 5) buffer AND 31 :: 32 word) = w div 2 ^ (b - 5)"
proof -
  have "unat (drop_bit (b - 5) buffer AND 31) = take_bit 5 (drop_bit (b - 5) (unat buffer))"
    using assms(1,3) by (simp add: and31 unsigned_drop_bit_eq take_bit_drop_bit)
  also have "\<dots> = drop_bit (b - 5) (take_bit b (unat buffer))" using assms(1) by (simp add: drop_bit_take_bit)
  finally show ?thesis using assms(2) by (simp add: drop_bit_eq_div)
qed

lemma emit5_spec:
  assumes "take_bit b (unat buffer) = w"
  shows "b < 5 \<Longrightarrow> emit5 buffer b out = (b, out)"
    "5 \<le> b \<Longrightarrow> b < 10 \<Longrightarrow> emit5 buffer b out = (b - 5, out @ syms [w div 2 ^ (b - 5)])"
    "10 \<le> b \<Longrightarrow> b < 15 \<Longrightarrow> emit5 buffer b out =
       (b - 10, out @ syms [w div 2 ^ (b - 5), w mod 2 ^ (b - 5) div 2 ^ (b - 10)])"
proof -
  have one: "emit5 buffer b out = emit5 buffer (b - 5) (out @ syms [w div 2 ^ (b - 5)])"
    if "5 \<le> b" "take_bit b (unat buffer) = w" "b \<le> 32" for b out w
    using that emit_sym [OF that] by (subst emit5.simps) (simp add: syms_def)
  have stop: "emit5 buffer b out = (b, out)" if "b < 5" for b out
    using that by (subst emit5.simps) simp
  show "b < 5 \<Longrightarrow> emit5 buffer b out = (b, out)" by (rule stop)
  show "5 \<le> b \<Longrightarrow> b < 10 \<Longrightarrow> emit5 buffer b out = (b - 5, out @ syms [w div 2 ^ (b - 5)])"
    using one [OF _ assms] stop by simp
  assume b: "10 \<le> b" "b < 15"
  have w: "take_bit (b - 5) (unat buffer) = w mod 2 ^ (b - 5)"
    using assms by (auto simp: take_bit_eq_mod [symmetric] min_def)
  show "emit5 buffer b out = (b - 10, out @ syms [w div 2 ^ (b - 5), w mod 2 ^ (b - 5) div 2 ^ (b - 10)])"
    using b one [OF _ assms] one [OF _ w] stop by (simp add: syms_def)
qed

lemma syms_append: "syms (xs @ ys) = syms xs @ syms ys"
  by (simp add: syms_def)

lemma encode_loop_spec:
  "b < 5 \<Longrightarrow> take_bit b (unat buffer) = v \<Longrightarrow>
     encode_loop bs buffer b out = out @ syms (enc (map unat bs) v b)"
proof (induction bs arbitrary: buffer b v out)
  case Nil
  have "take_bit 5 (unat (push_bit (5 - b) buffer OR 0 :: 32 word)) = v * 2 ^ (5 - b) + unat (0 :: 32 word)" if "0 < b"
    using pending_push [OF Nil(2), of 0 "5 - b"] Nil(1) by simp
  then have "unat (push_bit (5 - b) buffer AND 31 :: 32 word) = v * 2 ^ (5 - b)" if "0 < b"
    using that by (simp add: and31)
  then show ?case by (simp add: syms_def)
next
  case (Cons x bs)
  let ?buf = "push_bit 8 buffer OR ucast x :: 32 word"
  let ?w = "v * 256 + unat x"
  have x: "unat x < 256" using unsigned_less [where ?'a = nat, of x] by simp
  then have ux: "unat (ucast x :: 32 word) = unat x"
    by (simp add: unsigned_ucast_eq take_bit_nat_eq_self_iff)
  have w: "take_bit (b + 8) (unat ?buf) = ?w"
    using pending_push [OF Cons.prems(2), of "ucast x" 8] Cons.prems(1) ux x by simp
  have sub: "take_bit k (unat ?buf) = ?w mod 2 ^ k" if "k \<le> b + 8" for k
    using take_bit_sub [OF w that] .
  have e: "b + 8 - 5 = b + 3" "b + 8 - 10 = b - 2" by simp_all
  show ?case
  proof (cases "b < 2")
    case True
    then have "emit5 ?buf (b + 8) out = (b + 3, out @ syms [?w div 2 ^ (b + 3)])"
      using emit5_spec(2) [OF w, of out, unfolded e] by simp
    moreover have "encode_loop bs ?buf (b + 3) o' = o' @ syms (enc (map unat bs) (?w mod 2 ^ (b + 3)) (b + 3))" for o'
      using Cons.IH [of "b + 3" ?buf "?w mod 2 ^ (b + 3)" o'] sub [of "b + 3"] True by simp
    ultimately show ?thesis using True by (simp add: Let_def syms_def)
  next
    case False
    then have "emit5 ?buf (b + 8) out = (b - 2, out @ syms [?w div 2 ^ (b + 3), ?w mod 2 ^ (b + 3) div 2 ^ (b - 2)])"
      using emit5_spec(3) [OF w, of out, unfolded e] Cons.prems(1) by simp
    moreover have "encode_loop bs ?buf (b - 2) o' = o' @ syms (enc (map unat bs) (?w mod 2 ^ (b - 2)) (b - 2))" for o'
      using Cons.IH [of "b - 2" ?buf "?w mod 2 ^ (b - 2)" o'] sub [of "b - 2"] Cons.prems(1) by simp
    ultimately show ?thesis using False by (simp add: Let_def syms_def)
  qed
qed

lemma enc_syms_range: "b < 5 \<Longrightarrow> v < 2 ^ b \<Longrightarrow> \<forall>x\<in>set xs. x < 256 \<Longrightarrow> \<forall>y\<in>set (enc xs v b). y < 32"
proof (induction xs arbitrary: b v)
  case Nil
  have "v * 2 ^ (5 - b) < 2 ^ b * 2 ^ (5 - b)" using Nil(2) by simp
  also have "\<dots> = 32" using Nil(1) by (simp flip: power_add)
  finally show ?case by simp
next
  case (Cons x xs)
  let ?w = "v * 256 + x"
  have "?w < 2 ^ b * 256" using Cons.prems(2,3) by simp
  also have "\<dots> = 32 * 2 ^ (b + 3)" by (simp add: power_add)
  finally have 1: "?w div 2 ^ (b + 3) < 32" by (simp add: less_mult_imp_div_less)
  have 2: "?w mod 2 ^ (b + 3) div 2 ^ (b - 2) < 32" if "2 \<le> b"
  proof -
    have "?w mod 2 ^ (b + 3) < 32 * 2 ^ (b - 2)"
    proof -
      have "b + 3 = 5 + (b - 2)" using that by simp
      then have "(2 :: nat) ^ (b + 3) = 32 * 2 ^ (b - 2)" by (simp only: power_add) simp
      moreover have "?w mod 2 ^ (b + 3) < 2 ^ (b + 3)" by simp
      ultimately show ?thesis by simp
    qed
    then show ?thesis by (simp add: less_mult_imp_div_less)
  qed
  show ?case using 1 2 Cons.IH [of "b + 3" "?w mod 2 ^ (b + 3)"] Cons.IH [of "b - 2" "?w mod 2 ^ (b - 2)"] Cons.prems
    by (auto simp: Let_def)
qed

lemma decode_loop_spec:
  assumes "\<forall>y\<in>set ys. y < 32"
  shows "b < 8 \<Longrightarrow> take_bit b (unat buffer) = v \<Longrightarrow>
     decode_loop (map code (syms ys)) buffer b out = Ok (out @ map of_nat (dec ys v b))"
  using assms
proof (induction ys arbitrary: buffer b v out)
  case Nil
  then show ?case by (simp add: syms_def)
next
  case (Cons y ys)
  let ?buf = "push_bit 5 buffer OR of_nat y :: 32 word" and ?w = "v * 32 + y"
  have y: "y < 32" using Cons.prems(3) by simp
  then have uy: "unat (of_nat y :: 32 word) = y" by (simp add: unat_of_nat take_bit_nat_eq_self_iff)
  have w: "take_bit (b + 5) (unat ?buf) = ?w"
    using pending_push [OF Cons.prems(2), of "of_nat y" 5] Cons.prems(1) uy y by simp
  have sub: "take_bit k (unat ?buf) = ?w mod 2 ^ k" if "k \<le> b + 5" for k
    using take_bit_sub [OF w that] .
  have step: "b32_value (code (B32_ALPHABET ! y)) = Some y" using sym_value [OF y] .
  show ?case
  proof (cases "3 \<le> b")
    case False
    then have "decode_loop (map code (syms ys)) ?buf (b + 5) out = Ok (out @ map of_nat (dec ys ?w (b + 5)))"
      using Cons.IH [of "b + 5" ?buf ?w out] w Cons.prems(3) by simp
    then show ?thesis using False step by (simp add: syms_def)
  next
    case True
    have "unat (ucast (drop_bit (b - 3) ?buf) :: 8 word) = take_bit 8 (drop_bit (b - 3) (unat ?buf))"
      using Cons.prems(1) True by (simp only: unsigned_ucast_eq unsigned_drop_bit_eq) (simp add: take_bit_drop_bit)
    also have "\<dots> = drop_bit (b - 3) (take_bit (b + 5) (unat ?buf))" using True by (simp only: drop_bit_take_bit) simp
    also have "\<dots> = ?w div 2 ^ (b - 3)" unfolding w by (simp add: drop_bit_eq_div)
    finally have "unat (ucast (drop_bit (b - 3) ?buf) :: 8 word) = ?w div 2 ^ (b - 3)" .
    then have byte: "(ucast (drop_bit (b - 3) ?buf) :: 8 word) = of_nat (?w div 2 ^ (b - 3))"
      by (metis of_nat_unat ucast_id)
    have "decode_loop (map code (syms ys)) ?buf (b - 3) o' = Ok (o' @ map of_nat (dec ys (?w mod 2 ^ (b - 3)) (b - 3)))" for o'
      using Cons.IH [of "b - 3" ?buf "?w mod 2 ^ (b - 3)" o'] sub [of "b - 3"] Cons.prems by simp
    then show ?thesis using True step byte by (simp add: syms_def Let_def)
  qed
qed

text \<open>
  The base32 codec of the two-factor secrets is lossless: decoding an encoded secret gives back
  exactly its bytes, for secrets of every length, in spite of the 32-bit buffers that both loops
  shift without masking.
\<close>
theorem base32_roundtrip: "base32_decode (map code (base32_encode bs)) = Ok bs"
proof -
  have r: "\<forall>x\<in>set (map unat bs). x < 256"
    using unsigned_less [where ?'a = nat and ?'b = 8] by auto
  have "base32_encode bs = syms (enc (map unat bs) 0 0)"
    using encode_loop_spec [of 0 0 0 bs "[]"] by (simp add: base32_encode_def)
  moreover have "\<forall>y\<in>set (enc (map unat bs) 0 0). y < 32" using enc_syms_range [of 0 0 "map unat bs"] r by simp
  then have "decode_loop (map code (syms (enc (map unat bs) 0 0))) 0 0 [] = Ok (map of_nat (dec (enc (map unat bs) 0 0) 0 0))"
    using decode_loop_spec [of _ 0 0 0 "[]"] by simp
  ultimately show ?thesis using dec_enc [OF r] by (simp add: base32_decode_def comp_def)
qed

text \<open>
  The decoder also accepts characters outside ASCII: only the low byte of the character is looked
  up, so the letter with code point 321 reads as \<open>A\<close>.
\<close>

lemma base32_decode_aliases: "b32_value (c + 256) = b32_value c" if "c < 97"
  using that by (simp add: b32_value_def char_upper_u8_def)

lemma base32_decode_non_ascii: "base32_decode (map (\<lambda>_. 321) xs) = base32_decode (map (\<lambda>_. 65) xs)"
proof -
  have "b32_value 321 = b32_value 65" using base32_decode_aliases [of 65] by simp
  then have "decode_loop (map (\<lambda>_. 321) xs) buf b out = decode_loop (map (\<lambda>_. 65) xs) buf b out" for buf b out
    by (induction xs arbitrary: buf b out) (auto simp: Let_def split: option.splits)
  then show ?thesis by (simp add: base32_decode_def)
qed

section \<open>Constant-time comparison\<close>

fun diff_loop :: "(8 word \<times> 8 word) list \<Rightarrow> 8 word \<Rightarrow> 8 word" where
  "diff_loop [] d = d"
| "diff_loop ((x, y) # r) d = diff_loop r (d OR (x XOR y))"

definition constant_time_eq :: "8 word list \<Rightarrow> 8 word list \<Rightarrow> bool" where
  "constant_time_eq a b \<longleftrightarrow> length a = length b \<and> diff_loop (zip a b) 0 = 0"

lemma or_eq_0_word: "(x OR y = 0) \<longleftrightarrow> x = 0 \<and> (y :: 8 word) = 0"
  by (auto simp: bit_eq_iff bit_simps)

lemma diff_loop_zero: "diff_loop r d = 0 \<longleftrightarrow> d = 0 \<and> (\<forall>(x, y)\<in>set r. x = y)"
proof (induction r arbitrary: d)
  case (Cons p r)
  have "(x XOR y = 0) \<longleftrightarrow> x = y" for x y :: "8 word" by (auto simp: bit_eq_iff bit_simps)
  with Cons show ?case by (cases p) (auto simp: or_eq_0_word)
qed simp

lemma ct_eq_iff: "constant_time_eq a b \<longleftrightarrow> a = b"
proof
  assume h: "constant_time_eq a b"
  then have "\<forall>(x, y)\<in>set (zip a b). x = y" and len: "length a = length b"
    by (auto simp: constant_time_eq_def diff_loop_zero)
  then show "a = b" by (metis (mono_tags, lifting) case_prodD list_eq_iff_zip_eq)
next
  assume "a = b"
  then show "constant_time_eq a b" by (auto simp: constant_time_eq_def diff_loop_zero set_zip)
qed

section \<open>Percent encoding\<close>

definition hex_upper :: "nat \<Rightarrow> char" where
  "hex_upper n = (if n < 10 then char_of (48 + n) else char_of (55 + n))"

definition unreserved :: "char \<Rightarrow> bool" where
  "unreserved b \<longleftrightarrow> is_ascii_alphanumeric b \<or> b = CHR ''-'' \<or> b = CHR ''_'' \<or> b = CHR ''.'' \<or> b = CHR ''~''"

fun percent_encode :: "string \<Rightarrow> string" where
  "percent_encode [] = []"
| "percent_encode (b # bs) =
     (if unreserved b then [b]
      else [CHR ''%'', hex_upper (code b div 16), hex_upper (code b mod 16)]) @ percent_encode bs"

lemma hex_upper_code: "n < 16 \<Longrightarrow> code (hex_upper n) = (if n < 10 then 48 + n else 55 + n)"
  by (simp add: hex_upper_def)

lemma hex_upper_inj: "m < 16 \<Longrightarrow> n < 16 \<Longrightarrow> hex_upper m = hex_upper n \<Longrightarrow> m = n"
proof -
  assume h: "m < 16" "n < 16" "hex_upper m = hex_upper n"
  have "(if m < 10 then 48 + m else 55 + m) = (if n < 10 then 48 + n else 55 + n)"
    using hex_upper_code [OF h(1)] hex_upper_code [OF h(2)] h(3) by metis
  then show "m = n" by (cases "m < 10"; cases "n < 10") simp_all
qed

lemma code_less_256: "code (c :: char) < 256"
  by (metis of_char_of mod_less_divisor of_char_mod_256 zero_less_numeral)

lemma not_unreserved_percent [simp]: "\<not> unreserved CHR ''%''"
  by (simp add: unreserved_def is_ascii_alphanumeric_def is_ascii_digit_def is_ascii_upper_def is_ascii_lower_def)

lemma hex_upper_unreserved: "n < 16 \<Longrightarrow> unreserved (hex_upper n)"
proof -
  assume "n < 16"
  then have "is_ascii_digit (hex_upper n) \<or> is_ascii_upper (hex_upper n)"
    unfolding is_ascii_digit_def is_ascii_upper_def using hex_upper_code [of n] by (cases "n < 10") auto
  then show ?thesis unfolding unreserved_def is_ascii_alphanumeric_def by blast
qed

lemma percent_encode_chars: "c \<in> set (percent_encode s) \<Longrightarrow> unreserved c \<or> c = CHR ''%''"
proof (induction s)
  case (Cons b s)
  have "code b div 16 < 16" using code_less_256 [of b] by (simp add: less_mult_imp_div_less)
  with Cons show ?case using hex_upper_unreserved [of "code b div 16"] hex_upper_unreserved [of "code b mod 16"]
    by (cases "unreserved b") auto
qed simp

lemma escape_inj:
  "hex_upper (code b div 16) = hex_upper (code c div 16) \<Longrightarrow> hex_upper (code b mod 16) = hex_upper (code c mod 16) \<Longrightarrow> b = c"
proof -
  assume a: "hex_upper (code b div 16) = hex_upper (code c div 16)" "hex_upper (code b mod 16) = hex_upper (code c mod 16)"
  have "code b div 16 = code c div 16"
    using hex_upper_inj [OF _ _ a(1)] code_less_256 [of b] code_less_256 [of c] by (simp add: less_mult_imp_div_less)
  moreover have "code b mod 16 = code c mod 16" using hex_upper_inj [OF _ _ a(2)] by simp
  ultimately have "code b = code c" by (metis div_mult_mod_eq)
  then show "b = c" by simp
qed

lemma percent_encode_inj: "percent_encode s = percent_encode t \<Longrightarrow> s = t"
proof (induction s arbitrary: t)
  case Nil
  then show ?case by (cases t) (auto split: if_splits)
next
  case (Cons b s)
  then obtain c t' where t: "t = c # t'" by (cases t) (auto split: if_splits)
  have "b = c \<and> percent_encode s = percent_encode t'"
    using Cons.prems t escape_inj [of b c] by (cases "unreserved b"; cases "unreserved c") auto
  with Cons.IH t show ?case by blast
qed

text \<open>
  A percent-encoded account name cannot break out of the path label of the \<open>otpauth\<close> URI: the
  encoding consists of unreserved characters and percent signs only, and distinct names stay
  distinct.
\<close>
theorem percent_encode_safe:
  "set (percent_encode s) \<subseteq> {c. unreserved c} \<union> {CHR ''%''} \<and> inj percent_encode"
  using percent_encode_chars percent_encode_inj by (auto intro: injI)

section \<open>Codes and windows\<close>

text \<open>The \<open>totp_rs\<close> crate: which secrets \<open>TOTP::new\<close> accepts, and \<open>generate\<close> for a time in seconds.\<close>

record totp_lib =
  tl_valid :: "8 word list \<Rightarrow> bool"
  tl_generate :: "8 word list \<Rightarrow> nat \<Rightarrow> 8 word list"

text \<open>\<open>str::trim\<close> on Unicode scalar values.\<close>

definition is_whitespace :: "nat \<Rightarrow> bool" where
  "is_whitespace c \<longleftrightarrow> (9 \<le> c \<and> c \<le> 13) \<or> c \<in> {32, 133, 160, 5760, 8232, 8233, 8239, 8287, 12288} \<or> (8192 \<le> c \<and> c \<le> 8202)"

definition trim_chars :: "nat list \<Rightarrow> nat list" where
  "trim_chars s = rev (dropWhile is_whitespace (rev (dropWhile is_whitespace s)))"

definition totp_from_secret :: "totp_lib \<Rightarrow> nat list \<Rightarrow> (totp_error, 8 word list) result" where
  "totp_from_secret lib b64 =
     rbind (base32_decode (trim_chars b64)) (\<lambda>raw. if tl_valid lib raw then Ok raw else Err InvalidSecret)"

text \<open>Integer division of the source truncates towards zero; the cast to \<open>u64\<close> is modulo \<open>2 ^ 64\<close>.\<close>

definition quot_trunc :: "int \<Rightarrow> int \<Rightarrow> int" where
  "quot_trunc a b = sgn a * sgn b * (\<bar>a\<bar> div \<bar>b\<bar>)"

definition as_u64 :: "int \<Rightarrow> nat" where
  "as_u64 t = nat (t mod 2 ^ 64)"

definition totp_matched_window :: "totp_lib \<Rightarrow> int \<Rightarrow> nat list \<Rightarrow> 8 word list \<Rightarrow> int option" where
  "totp_matched_window lib now secret c =
     (case totp_from_secret lib secret of
        Err _ \<Rightarrow> None
      | Ok raw \<Rightarrow>
          map_option (\<lambda>t. quot_trunc t 30)
            (find (\<lambda>t. constant_time_eq (tl_generate lib raw (as_u64 t)) c)
              [sat_sub now 30, now, sat_add now 30]))"

definition verify_totp :: "totp_lib \<Rightarrow> int \<Rightarrow> nat list \<Rightarrow> 8 word list \<Rightarrow> bool" where
  "verify_totp lib now secret c \<longleftrightarrow> totp_matched_window lib now secret c \<noteq> None"

text \<open>
  The code check accepts exactly the codes that the library generates for the previous, the
  current or the next thirty-second step, and reports the window of the first that matches.
\<close>
theorem totp_window_correct:
  assumes "totp_from_secret lib s = Ok raw"
  shows "totp_matched_window lib now s c =
    (if tl_generate lib raw (as_u64 (sat_sub now 30)) = c then Some (quot_trunc (sat_sub now 30) 30)
     else if tl_generate lib raw (as_u64 now) = c then Some (quot_trunc now 30)
     else if tl_generate lib raw (as_u64 (sat_add now 30)) = c then Some (quot_trunc (sat_add now 30) 30)
     else None)"
  using assms by (simp add: totp_matched_window_def ct_eq_iff)

section \<open>Single use of codes\<close>

definition TOTP_REPLAY_TRACK_LIMIT :: nat where "TOTP_REPLAY_TRACK_LIMIT = 4096"

type_synonym replay_cache = "(int \<times> string, int) hmap"

definition verify_totp_replay ::
  "totp_lib \<Rightarrow> (nat list \<Rightarrow> string) \<Rightarrow> int \<Rightarrow> int \<Rightarrow> replay_cache \<Rightarrow> int \<Rightarrow> nat list \<Rightarrow> 8 word list \<Rightarrow> replay_cache \<times> bool" where
  "verify_totp_replay lib hash_token now now2 cache uid secret c =
     (case totp_matched_window lib now secret c of
        None \<Rightarrow> (cache, False)
      | Some window \<Rightarrow>
          let key = (uid, hash_token secret);
              cache' = (if TOTP_REPLAY_TRACK_LIMIT \<le> length cache
                        then hm_retain (\<lambda>_ last. quot_trunc now2 30 - 2 \<le> last) cache else cache)
          in if hm_get cache' key = Some window then (cache', False)
             else (hm_insert key window cache', True))"

section \<open>Pending enrolments\<close>

definition PENDING_TOTP_TTL_SECS :: int where "PENDING_TOTP_TTL_SECS = 600"
definition PENDING_TOTP_TRACK_LIMIT :: nat where "PENDING_TOTP_TRACK_LIMIT = 4096"

type_synonym pending_totp = "(int, string \<times> int) hmap"

definition store_pending_totp :: "int \<Rightarrow> int \<Rightarrow> pending_totp \<Rightarrow> int \<Rightarrow> string \<Rightarrow> pending_totp" where
  "store_pending_totp now now2 m uid secret =
     hm_insert uid (secret, now2 + PENDING_TOTP_TTL_SECS)
       (if PENDING_TOTP_TRACK_LIMIT \<le> length m then hm_retain (\<lambda>_ (_, ex). now < ex) m else m)"

definition get_pending_totp :: "int \<Rightarrow> pending_totp \<Rightarrow> int \<Rightarrow> pending_totp \<times> string option" where
  "get_pending_totp now m uid =
     (case hm_get m uid of
        Some (secret, ex) \<Rightarrow> if now < ex then (m, Some secret) else (hm_remove uid m, None)
      | None \<Rightarrow> (hm_remove uid m, None))"

definition clear_pending_totp :: "pending_totp \<Rightarrow> int \<Rightarrow> pending_totp" where
  "clear_pending_totp m uid = hm_remove uid m"

lemma totp_matched_window_near:
  assumes "totp_matched_window lib now secret c = Some w" "0 \<le> now" "now + 30 < 2 ^ 63"
  shows "now div 30 - 1 \<le> w \<and> w \<le> now div 30 + 1"
proof -
  obtain t where t: "t \<in> {sat_sub now 30, now, sat_add now 30}" "w = quot_trunc t 30"
    using assms(1) by (auto simp: totp_matched_window_def simp del: find.simps split: sum.splits dest!: find_Some_set)
  have "sat_sub now 30 = now - 30" "sat_add now 30 = now + 30"
    using assms(2,3) by (simp_all add: sat_sub_def sat_add_def sat_i64_def i64_bounds)
  with t assms(2) show ?thesis by (auto simp: quot_trunc_def sgn_if)
qed

text \<open>
  A stretch of time in which no attempt for the key \<open>K\<close> is accepted: attempts for other keys, and
  rejected ones for \<open>K\<close>, each reading the clock no earlier than the one before.
\<close>

inductive quiet :: "totp_lib \<Rightarrow> (nat list \<Rightarrow> string) \<Rightarrow> int \<times> string \<Rightarrow> int \<Rightarrow> replay_cache \<Rightarrow> int \<Rightarrow> replay_cache \<Rightarrow> bool"
  for lib h K where
  quiet_nil: "quiet lib h K t m t m"
| quiet_step: "quiet lib h K t m t' m' \<Longrightarrow> t' \<le> now \<Longrightarrow> now \<le> now2 \<Longrightarrow>
     verify_totp_replay lib h now now2 m' uid s c = (m'', ok) \<Longrightarrow> (uid, h s) \<noteq> K \<or> \<not> ok \<Longrightarrow>
     quiet lib h K t m now2 m''"

definition tracked :: "int \<times> string \<Rightarrow> int \<Rightarrow> int \<Rightarrow> replay_cache \<Rightarrow> bool" where
  "tracked K w t m \<longleftrightarrow> hm_wf m \<and> (hm_get m K = Some w \<or> w < t div 30 - 2)"

lemma quot_trunc_pos: "0 \<le> a \<Longrightarrow> quot_trunc a 30 = a div 30"
  by (cases "a = 0") (simp_all add: quot_trunc_def)

lemma replay_step_tracked:
  assumes tr: "tracked K w t m" and clk: "t \<le> now" "now \<le> now2" "0 \<le> t"
    and v: "verify_totp_replay lib h now now2 m uid s c = (m', ok)" and q: "(uid, h s) \<noteq> K \<or> \<not> ok"
  shows "tracked K w now2 m'"
proof -
  let ?m = "if TOTP_REPLAY_TRACK_LIMIT \<le> length m then hm_retain (\<lambda>_ last. quot_trunc now2 30 - 2 \<le> last) m else m"
  have "t div 30 \<le> now2 div 30" using clk by (intro zdiv_mono1) auto
  then have tm: "tracked K w now2 m" "tracked K w now2 ?m"
    using tr quot_trunc_pos [of now2] clk by (auto simp: tracked_def hm_get_retain)
  show ?thesis
    using v q tm by (auto simp: verify_totp_replay_def Let_def tracked_def split: option.splits if_splits)
qed

lemma quiet_tracked:
  "quiet lib h K t m t' m' \<Longrightarrow> 0 \<le> t \<Longrightarrow> tracked K w t m \<Longrightarrow> t \<le> t' \<and> tracked K w t' m'"
proof (induction rule: quiet.induct)
  case (quiet_step t m t' m' now now2 uid s c m'' ok)
  then show ?case using replay_step_tracked [of K w t' m' now now2 lib h uid s c m'' ok] by auto
qed simp

text \<open>
  C29: Once a code has been accepted for a user and secret, the same window is refused until some
  other window has been accepted for them, whatever other attempts and clean-ups happen in between.
\<close>
theorem totp_code_single_use:
  assumes m: "hm_wf m" and acc: "verify_totp_replay lib h now now2 m uid s c = (m1, True)"
    and w: "totp_matched_window lib now s c = Some w"
    and q: "quiet lib h (uid, h s) now2 m1 t m2"
    and w': "totp_matched_window lib now' s c' = Some w"
    and clk: "0 \<le> now2" "t \<le> now'" "now' \<le> now2'" "now2' \<le> now' + 30" "now' + 30 < 2 ^ 63"
  shows "\<not> snd (verify_totp_replay lib h now' now2' m2 uid s c')"
proof -
  have "tracked (uid, h s) w now2 m1"
    using acc w m by (auto simp: verify_totp_replay_def tracked_def Let_def split: if_splits)
  with quiet_tracked [OF q clk(1)] have tr: "now2 \<le> t" "tracked (uid, h s) w t m2" by auto
  have near: "now' div 30 - 1 \<le> w" using totp_matched_window_near [OF w'] clk tr(1) by simp
  have "t div 30 \<le> now' div 30" using clk by (intro zdiv_mono1) auto
  with near tr(2) have got: "hm_get m2 (uid, h s) = Some w" "hm_wf m2" by (auto simp: tracked_def)
  have "now2' div 30 \<le> (now' + 30) div 30" using clk by (intro zdiv_mono1) auto
  then have "quot_trunc now2' 30 - 2 \<le> w" using near quot_trunc_pos [of now2'] clk tr(1) by simp
  with got w' show ?thesis by (simp add: verify_totp_replay_def Let_def hm_get_retain)
qed

text \<open>
  Only the last window is remembered: accepting the code of a second window makes the first code
  usable again while it is still in range.
\<close>

lemma totp_replay_after_other_window:
  assumes "totp_matched_window lib now s c = Some w" "totp_matched_window lib now s c' = Some w'" "w \<noteq> w'"
    "length m + 2 < TOTP_REPLAY_TRACK_LIMIT" "hm_get m (uid, h s) = None"
  shows "\<exists>m1 m2 m3. verify_totp_replay lib h now now m uid s c = (m1, True)
    \<and> verify_totp_replay lib h now now m1 uid s c' = (m2, True)
    \<and> verify_totp_replay lib h now now m2 uid s c = (m3, True)"
proof -
  let ?k = "(uid, h s)"
  let ?m1 = "hm_insert ?k w m" and ?m2 = "hm_insert ?k w' (hm_insert ?k w m)"
  have l: "length ?m1 < TOTP_REPLAY_TRACK_LIMIT" "length ?m2 < TOTP_REPLAY_TRACK_LIMIT"
    using assms(4) length_hm_insert [of ?k w m] length_hm_insert [of ?k w' ?m1] by (auto split: if_splits)
  then show ?thesis using assms by (simp add: verify_totp_replay_def Let_def)
qed

text \<open>A pending enrolment is returned for ten minutes and never afterwards.\<close>

lemma pending_totp_lifetime:
  "snd (get_pending_totp t (store_pending_totp now now2 m uid secret) uid)
     = (if t < now2 + 600 then Some secret else None)"
  by (simp add: get_pending_totp_def store_pending_totp_def PENDING_TOTP_TTL_SECS_def)

lemma pending_totp_expired_dropped:
  "snd (get_pending_totp t m uid) = None \<Longrightarrow> hm_get (fst (get_pending_totp t m uid)) uid = None"
  by (auto simp: get_pending_totp_def split: option.splits if_splits)

section \<open>Witnesses\<close>

definition wlib :: totp_lib where
  "wlib = \<lparr>tl_valid = (\<lambda>_. True), tl_generate = (\<lambda>_ t. [of_nat (t div 30)])\<rparr>"

lemma wlib_window: "totp_matched_window wlib 60 [] [2] = Some 2"
  by (simp add: totp_matched_window_def totp_from_secret_def trim_chars_def base32_decode_def wlib_def
      ct_eq_iff quot_trunc_def as_u64_def sat_sub_def sat_add_def sat_i64_def i64_bounds)

theorem totp_code_single_use_witness:
  "snd (verify_totp_replay wlib (\<lambda>_. []) 60 60 [] 1 [] [2])
     \<and> \<not> snd (verify_totp_replay wlib (\<lambda>_. []) 60 60 [((1, []), 2)] 1 [] [2])"
proof -
  have acc: "verify_totp_replay wlib (\<lambda>_. []) 60 60 [] 1 [] [2] = ([((1, []), 2)], True)"
    by (simp add: verify_totp_replay_def wlib_window TOTP_REPLAY_TRACK_LIMIT_def hm_insert_def hm_remove_def)
  show ?thesis
    using acc totp_code_single_use [OF hm_wf_nil acc wlib_window quiet_nil wlib_window, of 60] by simp
qed

theorem totp_window_correct_witness: "totp_matched_window wlib 60 [] [3] = Some 3"
proof -
  have "totp_from_secret wlib [] = Ok []" by (simp add: totp_from_secret_def trim_chars_def base32_decode_def wlib_def)
  from totp_window_correct [OF this, of 60 "[3]"] show ?thesis
    by (simp add: wlib_def quot_trunc_def as_u64_def sat_sub_def sat_add_def sat_i64_def i64_bounds)
qed

end
