(* ===== verification/RateLimit.thy ===== *)
theory RateLimit
  imports Prelude Complex_Main
begin

text \<open>
  The request limiter of \<open>src/src/auth.rs\<close>: a token bucket per key, with the per-minute counters of
  \<open>src/src/models.rs\<close> that the administration page shows. Tokens are \<open>f64\<close> values: every arithmetic
  operation of the source is the real one followed by the rounding \<open>rnd\<close> to a representable number.
\<close>

record bucket =
  tokens :: real
  last_refill :: int

record limiter =
  rl_window :: int
  rl_rows :: "(string, int \<times> int) hmap"
  rl_buckets :: "(string, bucket) hmap"

definition BUCKET_TRACK_LIMIT :: nat where "BUCKET_TRACK_LIMIT = 4096"

definition bump_rate_limit :: "(string, int \<times> int) hmap \<Rightarrow> string \<Rightarrow> int \<Rightarrow> (string, int \<times> int) hmap" where
  "bump_rate_limit rows key window =
     (case hm_get rows key of
        Some (w, n) \<Rightarrow> hm_insert key (window, if w = window then n + 1 else 1) rows
      | None \<Rightarrow> hm_insert key (window, 1) rows)"

definition reset_rate_limit_rows :: "limiter \<Rightarrow> limiter" where
  "reset_rate_limit_rows st = st\<lparr>rl_rows := []\<rparr>"

definition reset_rate_limits :: "limiter \<Rightarrow> limiter" where
  "reset_rate_limits st = st\<lparr>rl_buckets := []\<rparr>"

text \<open>\<open>limit\<close> is \<open>security.rate_limit_per_min\<close>, a \<open>u32\<close>; \<open>now\<close> is in whole seconds.\<close>

definition refill :: "(real \<Rightarrow> real) \<Rightarrow> nat \<Rightarrow> int \<Rightarrow> bucket \<Rightarrow> real" where
  "refill rnd limit now b =
     (let rate = rnd (real limit / 60);
          elapsed = rnd (real_of_int (max (now - last_refill b) 0))
      in min (rnd (tokens b + rnd (elapsed * rate))) (real limit))"

definition rate_limit :: "(real \<Rightarrow> real) \<Rightarrow> nat \<Rightarrow> int \<Rightarrow> limiter \<Rightarrow> string \<Rightarrow> limiter \<times> bool" where
  "rate_limit rnd limit now st key =
     (let window = now div 60;
          rows = (if rl_window st \<noteq> window then hm_retain (\<lambda>_ (w, _). \<not> w < window - 2) (rl_rows st)
                  else rl_rows st);
          buckets = (if BUCKET_TRACK_LIMIT \<le> length (rl_buckets st)
                     then hm_retain (\<lambda>_ b. now - last_refill b < 3600) (rl_buckets st)
                     else rl_buckets st);
          rows' = (if hm_get buckets key \<noteq> None \<or> length buckets < BUCKET_TRACK_LIMIT
                   then bump_rate_limit rows key window else rows);
          b = (case hm_get buckets key of Some b \<Rightarrow> b | None \<Rightarrow> \<lparr>tokens = real limit, last_refill = now\<rparr>);
          t = refill rnd limit now b;
          ok = (1 \<le> t)
      in (\<lparr>rl_window = window, rl_rows = rows',
           rl_buckets = hm_insert key \<lparr>tokens = (if ok then rnd (t - 1) else t), last_refill = now\<rparr> buckets\<rparr>, ok))"

definition window_now :: "int \<Rightarrow> int" where
  "window_now now = now div 60"

section \<open>Bursts\<close>

text \<open>
  What the proofs use of IEEE 754 rounding: it is idempotent, exact on the whole numbers a
  \<open>u32\<close> can hold, and exact when 1 is taken from a representable number in that range.
\<close>

definition rounding :: "(real \<Rightarrow> real) \<Rightarrow> bool" where
  "rounding rnd \<longleftrightarrow> (\<forall>x. rnd (rnd x) = rnd x) \<and> (\<forall>n :: nat. n < 2 ^ 32 \<longrightarrow> rnd (real n) = real n)
     \<and> (\<forall>x. rnd x = x \<longrightarrow> 1 \<le> x \<longrightarrow> x < 2 ^ 32 \<longrightarrow> rnd (x - 1) = x - 1)"

definition limiter_wf :: "(real \<Rightarrow> real) \<Rightarrow> nat \<Rightarrow> limiter \<Rightarrow> bool" where
  "limiter_wf rnd limit st \<longleftrightarrow> hm_wf (rl_buckets st) \<and>
     (\<forall>k b. hm_get (rl_buckets st) k = Some b \<longrightarrow> tokens b \<le> real limit \<and> rnd (tokens b) = tokens b)"

text \<open>What a key can still spend in the second \<open>now\<close>.\<close>

definition budget :: "nat \<Rightarrow> int \<Rightarrow> limiter \<Rightarrow> string \<Rightarrow> real" where
  "budget limit now st k = (case hm_get (rl_buckets st) k of
     Some b \<Rightarrow> if last_refill b = now then tokens b else real limit | None \<Rightarrow> real limit)"

lemma rounding_limit: "rounding rnd \<Longrightarrow> limit < 2 ^ 32 \<Longrightarrow> rnd (real limit) = real limit"
  by (simp add: rounding_def)

lemma rounding_zero: "rounding rnd \<Longrightarrow> rnd 0 = 0"
  using rounding_limit [of rnd 0] by simp

lemma refill_props:
  assumes "rounding rnd" "limit < 2 ^ 32"
  shows "refill rnd limit now b \<le> real limit" "rnd (refill rnd limit now b) = refill rnd limit now b"
    "last_refill b = now \<Longrightarrow> tokens b \<le> real limit \<Longrightarrow> rnd (tokens b) = tokens b \<Longrightarrow> refill rnd limit now b = tokens b"
  using assms rounding_zero [OF assms(1)]
  by (auto simp: refill_def Let_def min_def rounding_def)

lemma rate_limit_step:
  assumes r: "rounding rnd" "limit < 2 ^ 32" and wf: "limiter_wf rnd limit st"
    and run: "rate_limit rnd limit now st key = (st', ok)"
  shows "limiter_wf rnd limit st'"
    "budget limit now st' k + (if k = key \<and> ok then 1 else 0) \<le> budget limit now st k"
    "k = key \<Longrightarrow> ok \<Longrightarrow> 0 \<le> budget limit now st' k"
proof -
  define bs where "bs = (if BUCKET_TRACK_LIMIT \<le> length (rl_buckets st)
     then hm_retain (\<lambda>_ b. now - last_refill b < 3600) (rl_buckets st) else rl_buckets st)"
  define b where "b = (case hm_get bs key of Some b \<Rightarrow> b | None \<Rightarrow> \<lparr>tokens = real limit, last_refill = now\<rparr>)"
  define t where "t = refill rnd limit now b"
  have hw: "hm_wf (rl_buckets st)" using wf by (simp add: limiter_wf_def)
  have st': "rl_buckets st' = hm_insert key \<lparr>tokens = (if ok then rnd (t - 1) else t), last_refill = now\<rparr> bs"
    and ok: "ok \<longleftrightarrow> 1 \<le> t"
    using run by (auto simp: rate_limit_def Let_def bs_def b_def t_def)
  have bs: "hm_wf bs" "hm_get bs k = Some x \<Longrightarrow> hm_get (rl_buckets st) k = Some x" for k x
    using hw by (auto simp: bs_def hm_get_retain split: option.splits if_splits)
  have keep: "hm_get bs k = Some x" if "hm_get (rl_buckets st) k = Some x" "last_refill x = now" for k x
    using hw that by (simp add: bs_def hm_get_retain)
  have t: "t \<le> real limit" "rnd t = t" using refill_props(1,2) [OF r, where now = now and b = b] by (simp_all add: t_def)
  have minus: "rnd (t - 1) = t - 1" if "1 \<le> t"
    using r t that unfolding rounding_def by (metis of_nat_less_iff of_nat_numeral of_nat_power order_le_less_trans)
  show "limiter_wf rnd limit st'"
    using wf bs t minus ok unfolding limiter_wf_def st' by (auto split: if_splits)
  have "t \<le> budget limit now st key"
  proof (cases "hm_get (rl_buckets st) key")
    case (Some x)
    show ?thesis
    proof (cases "last_refill x = now")
      case True
      then have "b = x" using keep [OF Some] by (simp add: b_def)
      then show ?thesis using refill_props(3) [OF r True] wf Some True by (simp add: t_def budget_def limiter_wf_def)
    qed (use t(1) Some in \<open>simp add: budget_def\<close>)
  qed (use t(1) in \<open>simp add: budget_def\<close>)
  moreover have "budget limit now st' k \<le> budget limit now st k" if "k \<noteq> key"
  proof (cases "hm_get bs k")
    case None
    then have "hm_get (rl_buckets st) k = Some x \<Longrightarrow> last_refill x \<noteq> now" for x using keep by fastforce
    then show ?thesis using that None by (auto simp: budget_def st' split: option.splits)
  next
    case (Some x)
    then show ?thesis using that bs(2) [OF Some] by (simp add: budget_def st')
  qed
  ultimately show "budget limit now st' k + (if k = key \<and> ok then 1 else 0) \<le> budget limit now st k"
    using ok minus by (cases "k = key") (auto simp: budget_def st')
  show "k = key \<Longrightarrow> ok \<Longrightarrow> 0 \<le> budget limit now st' k" using ok minus by (auto simp: budget_def st')
qed

fun burst :: "(real \<Rightarrow> real) \<Rightarrow> nat \<Rightarrow> int \<Rightarrow> limiter \<Rightarrow> string list \<Rightarrow> (string \<times> bool) list" where
  "burst rnd limit now st [] = []"
| "burst rnd limit now st (k # ks) = (let (st', ok) = rate_limit rnd limit now st k in (k, ok) # burst rnd limit now st' ks)"

lemma burst_budget:
  assumes r: "rounding rnd" "limit < 2 ^ 32"
  shows "limiter_wf rnd limit st \<Longrightarrow> 0 < length (filter (\<lambda>e. e = (k, True)) (burst rnd limit now st ks)) \<Longrightarrow>
    real (length (filter (\<lambda>e. e = (k, True)) (burst rnd limit now st ks))) \<le> budget limit now st k"
proof (induction ks arbitrary: st)
  case (Cons key ks)
  obtain st' ok where run: "rate_limit rnd limit now st key = (st', ok)" by fastforce
  note step = rate_limit_step [OF r Cons.prems(1) run]
  let ?n = "length (filter (\<lambda>e. e = (k, True)) (burst rnd limit now st' ks))"
  have "?n = 0 \<or> real ?n \<le> budget limit now st' k" using Cons.IH [OF step(1)] by auto
  with step(2) [of k] step(3) [of k] Cons.prems(2) run show ?case by (auto split: if_splits)
qed simp

text \<open>
  C30: However the requests of one second are interleaved over keys, no key gets more of them through
  than its per-minute limit; there is no window boundary at which the limit can be spent twice.
\<close>
theorem burst_within_limit:
  assumes "rounding rnd" "limit < 2 ^ 32" "limiter_wf rnd limit st"
  shows "length (filter (\<lambda>e. e = (k, True)) (burst rnd limit now st ks)) \<le> limit"
proof -
  have "budget limit now st k \<le> real limit"
    using assms(3) by (auto simp: budget_def limiter_wf_def split: option.splits)
  then show ?thesis using burst_budget [OF assms, of k now ks] by (cases "length (filter (\<lambda>e. e = (k, True)) (burst rnd limit now st ks)) = 0") auto
qed

text \<open>The counter rows count the requests of the current minute.\<close>

lemma bump_rate_limit_count:
  "hm_get (bump_rate_limit rows key w) key = Some (w, (case hm_get rows key of
     Some (w', n) \<Rightarrow> if w' = w then n + 1 else 1 | None \<Rightarrow> 1))"
  by (auto simp: bump_rate_limit_def split: option.splits)

text \<open>
  A new key is tracked even when the table is at its limit and nothing in it is idle: the bucket is
  inserted although its counter row is not.
\<close>

lemma tracked_past_limit:
  assumes "hm_get (rl_buckets st) key = None" "BUCKET_TRACK_LIMIT \<le> length (rl_buckets st)"
    "\<forall>(k, b)\<in>set (rl_buckets st). now - last_refill b < 3600"
  shows "length (rl_buckets (fst (rate_limit rnd limit now st key))) = length (rl_buckets st) + 1"
proof -
  have keep: "hm_retain (\<lambda>_ b. now - last_refill b < 3600) (rl_buckets st) = rl_buckets st"
    using assms(3) by (auto simp: hm_retain_def intro!: filter_True)
  have "filter (\<lambda>e. fst e \<noteq> key) (rl_buckets st) = rl_buckets st"
    using assms(1) by (auto simp: hm_get_def map_of_eq_None_iff intro!: filter_True)
  then show ?thesis using assms(2) keep by (simp add: rate_limit_def Let_def hm_insert_def hm_remove_def)
qed

section \<open>Witnesses\<close>

text \<open>A binary fixed-point grid rounds like this.\<close>

definition grid :: "real \<Rightarrow> real" where
  "grid x = of_int \<lfloor>x * 2 ^ 20\<rfloor> / 2 ^ 20"

lemma grid_int: "grid (of_int n) = of_int n"
proof -
  have "(of_int n :: real) * 2 ^ 20 = of_int (n * 2 ^ 20)" by simp
  then have "\<lfloor>(of_int n :: real) * 2 ^ 20\<rfloor> = n * 2 ^ 20" by (metis floor_of_int)
  then show ?thesis by (simp add: grid_def)
qed

lemma grid_rounding: "rounding grid"
proof -
  have "grid (grid x) = grid x" for x by (simp add: grid_def)
  moreover have "grid (real n) = real n" for n using grid_int [of "int n"] by simp
  moreover have "grid (x - 1) = grid x - 1" for x
  proof -
    have "(x - 1) * 2 ^ 20 = x * 2 ^ 20 - of_int (2 ^ 20)" by (simp add: algebra_simps)
    then have "\<lfloor>(x - 1) * 2 ^ 20\<rfloor> = \<lfloor>x * 2 ^ 20\<rfloor> - 2 ^ 20" by (metis floor_diff_of_int)
    then show ?thesis by (simp add: grid_def diff_divide_distrib)
  qed
  ultimately show ?thesis by (simp add: rounding_def)
qed

definition wlimiter :: limiter where
  "wlimiter = \<lparr>rl_window = 0, rl_rows = [], rl_buckets = []\<rparr>"

theorem burst_within_limit_witness:
  "length (filter (\<lambda>e. e = (''ip'', True)) (burst grid 2 100 wlimiter [''ip'', ''ip'', ''ip''])) \<le> 2"
  by (rule burst_within_limit [OF grid_rounding]) (simp_all add: limiter_wf_def wlimiter_def)

end
