(* ===== verification/NodeProtocol.thy ===== *)
theory NodeProtocol
  imports Prelude
begin

text \<open>
  The signed wire protocol between the panel and the \<open>voltd\<close> agents (\<open>src/src/node_protocol.rs\<close>, and
  the response signer of \<open>src/src/bin/voltd.rs\<close>). SHA-256, HMAC-SHA256, the hex codec and the UUID
  parser are a parameter, the record \<open>crypto\<close>.
\<close>

record crypto =
  cr_sha256_hex :: "string \<Rightarrow> string"
  cr_hmac :: "string \<Rightarrow> string \<Rightarrow> string"
  cr_hex :: "string \<Rightarrow> string"
  cr_unhex :: "string \<Rightarrow> string option"
  cr_is_uuid :: "string \<Rightarrow> bool"

text \<open>
  What the protocol relies on: hex decoding inverts hex encoding, and the hex text of a MAC is 64
  lower-case hex digits.
\<close>

definition crypto_ok :: "crypto \<Rightarrow> bool" where
  "crypto_ok cr \<longleftrightarrow> (\<forall>x. cr_unhex cr (cr_hex cr x) = Some x)
     \<and> (\<forall>k m. length (cr_hex cr (cr_hmac cr k m)) = 64 \<and> list_all is_ascii_hexdigit (cr_hex cr (cr_hmac cr k m)))"

definition MAX_CLOCK_SKEW_SECS :: int where "MAX_CLOCK_SKEW_SECS = 90"
definition STREAM_FOOTER_MAGIC :: string where "STREAM_FOOTER_MAGIC = ''VOLTSTREAM1''"
definition STREAM_FOOTER_LEN :: nat where "STREAM_FOOTER_LEN = 1 + length STREAM_FOOTER_MAGIC + 1 + 64 + 1"

datatype proto_error =
    RequestExpired | InvalidNodeId | InvalidSignatureEncoding | SignatureMismatch
  | MisaddressedSignature | InvalidResponseEncoding | ResponseMismatch | FooterTooShort | MalformedFooter

record signed_headers =
  sh_node_id :: string
  sh_timestamp :: int
  sh_nonce :: string
  sh_signature :: string

record pending_request =
  pr_node_id :: string
  pr_timestamp :: int
  pr_nonce :: string
  pr_signature :: string

section \<open>Requests\<close>

definition body_hash :: "crypto \<Rightarrow> string \<Rightarrow> string" where
  "body_hash cr body = cr_sha256_hex cr body"

definition canonical_hash :: "string \<Rightarrow> string \<Rightarrow> string \<Rightarrow> int \<Rightarrow> string \<Rightarrow> string \<Rightarrow> string" where
  "canonical_hash node_id method_name path timestamp nonce sha256_hex =
     join_with newline [node_id, map to_ascii_upper method_name, path, show_int timestamp, nonce, sha256_hex]"

definition canonical :: "crypto \<Rightarrow> string \<Rightarrow> string \<Rightarrow> string \<Rightarrow> int \<Rightarrow> string \<Rightarrow> string \<Rightarrow> string" where
  "canonical cr node_id method_name path timestamp nonce body =
     canonical_hash node_id method_name path timestamp nonce (body_hash cr body)"

definition sign_body_hash ::
  "crypto \<Rightarrow> int \<Rightarrow> string \<Rightarrow> string \<Rightarrow> string \<Rightarrow> string \<Rightarrow> string \<Rightarrow> string \<Rightarrow> signed_headers" where
  "sign_body_hash cr timestamp nonce secret method_name path body_sha256_hex node_id =
     \<lparr>sh_node_id = node_id, sh_timestamp = timestamp, sh_nonce = nonce,
      sh_signature = cr_hex cr (cr_hmac cr secret
        (canonical_hash node_id method_name path timestamp nonce body_sha256_hex))\<rparr>"

definition sign ::
  "crypto \<Rightarrow> int \<Rightarrow> string \<Rightarrow> string \<Rightarrow> string \<Rightarrow> string \<Rightarrow> string \<Rightarrow> string \<Rightarrow> signed_headers" where
  "sign cr timestamp nonce secret method_name path body node_id =
     sign_body_hash cr timestamp nonce secret method_name path (body_hash cr body) node_id"

definition verify_pending :: "crypto \<Rightarrow> signed_headers \<Rightarrow> int \<Rightarrow> (proto_error, pending_request) result" where
  "verify_pending cr hs now =
     (if MAX_CLOCK_SKEW_SECS < \<bar>sat_sub now (sh_timestamp hs)\<bar> then Err RequestExpired
      else if \<not> cr_is_uuid cr (sh_node_id hs) then Err InvalidNodeId
      else case cr_unhex cr (sh_signature hs) of
        None \<Rightarrow> Err InvalidSignatureEncoding
      | Some sig \<Rightarrow> Ok \<lparr>pr_node_id = sh_node_id hs, pr_timestamp = sh_timestamp hs,
                        pr_nonce = sh_nonce hs, pr_signature = sig\<rparr>)"

definition complete_verify ::
  "crypto \<Rightarrow> string \<Rightarrow> string \<Rightarrow> string \<Rightarrow> pending_request \<Rightarrow> string \<Rightarrow> (proto_error, unit) result" where
  "complete_verify cr secret method_name path p body_sha256_hex =
     (if cr_hmac cr secret (canonical_hash (pr_node_id p) method_name path (pr_timestamp p) (pr_nonce p) body_sha256_hex)
           = pr_signature p
      then Ok () else Err SignatureMismatch)"

definition verify ::
  "crypto \<Rightarrow> string \<Rightarrow> string \<Rightarrow> string \<Rightarrow> string \<Rightarrow> signed_headers \<Rightarrow> int \<Rightarrow> (proto_error, unit) result" where
  "verify cr secret method_name path body hs now =
     rbind (verify_pending cr hs now) (\<lambda>p. complete_verify cr secret method_name path p (body_hash cr body))"

section \<open>Responses\<close>

definition response_canonical_hash :: "string \<Rightarrow> string \<Rightarrow> string \<Rightarrow> nat \<Rightarrow> string \<Rightarrow> string \<Rightarrow> string" where
  "response_canonical_hash node_id method_name path status nonce sha256_hex =
     join_with newline [node_id, map to_ascii_upper method_name, path, show_nat status, nonce, sha256_hex]"

definition response_canonical :: "crypto \<Rightarrow> string \<Rightarrow> string \<Rightarrow> string \<Rightarrow> nat \<Rightarrow> string \<Rightarrow> string \<Rightarrow> string" where
  "response_canonical cr node_id method_name path status nonce body =
     response_canonical_hash node_id method_name path status nonce (body_hash cr body)"

definition sign_response ::
  "crypto \<Rightarrow> string \<Rightarrow> string \<Rightarrow> string \<Rightarrow> nat \<Rightarrow> string \<Rightarrow> string \<Rightarrow> string \<Rightarrow> string" where
  "sign_response cr secret method_name path status nonce body node_id =
     cr_hex cr (cr_hmac cr secret (response_canonical cr node_id method_name path status nonce body))"

datatype response_auth = Unsigned | Verified

text \<open>\<open>std::str::from_utf8\<close> accepts exactly the well-formed byte sequences.\<close>

abbreviation cont :: "char \<Rightarrow> bool" where
  "cont c \<equiv> 128 \<le> code c \<and> code c \<le> 191"

text \<open>\<open>utf8_len\<close> is the length of the character a byte string starts with, 0 when it is malformed.\<close>

fun utf8_len :: "string \<Rightarrow> nat" where
  "utf8_len [] = 0"
| "utf8_len (a # s) =
     (if code a < 128 then 1
      else case s of
        [] \<Rightarrow> 0
      | b # s1 \<Rightarrow>
          if 194 \<le> code a \<and> code a \<le> 223 then (if cont b then 2 else 0)
          else case s1 of
            [] \<Rightarrow> 0
          | c # s2 \<Rightarrow>
              if 224 \<le> code a \<and> code a \<le> 239
              then (if cont b \<and> cont c \<and> (code a = 224 \<longrightarrow> 160 \<le> code b) \<and> (code a = 237 \<longrightarrow> code b \<le> 159) then 3 else 0)
              else case s2 of
                [] \<Rightarrow> 0
              | d # _ \<Rightarrow>
                  if 240 \<le> code a \<and> code a \<le> 244 \<and> cont b \<and> cont c \<and> cont d
                     \<and> (code a = 240 \<longrightarrow> 144 \<le> code b) \<and> (code a = 244 \<longrightarrow> code b \<le> 143)
                  then 4 else 0)"

function utf8_valid :: "string \<Rightarrow> bool" where
  "utf8_valid s = (if s = [] then True else if utf8_len s = 0 then False
     else utf8_valid (drop (utf8_len s) s))"
  by pat_completeness auto
termination by (relation "measure length") auto

declare utf8_valid.simps [simp del]

definition sig_marker :: string where
  "sig_marker = CHR '','' # quote # ''signature'' @ [quote] @ '':'' @ [quote]"

definition nonce_marker :: string where
  "nonce_marker = quote # CHR '','' # quote # ''nonce'' @ [quote] @ '':'' @ [quote]"

definition split_response_signature ::
  "string \<Rightarrow> string \<Rightarrow> (proto_error, (string \<times> string) option) result" where
  "split_response_signature raw request_nonce =
     (if \<not> utf8_valid raw then Ok None
      else case rfind_sub sig_marker raw of
        None \<Rightarrow> Ok None
      | Some at \<Rightarrow>
          let h = take 64 (drop (at + length sig_marker) raw) in
          if length h < 64 \<or> \<not> list_all is_ascii_hexdigit h then Ok None
          else case strip_prefix nonce_marker (drop (at + length sig_marker + 64) raw) of
            None \<Rightarrow> Ok None
          | Some after_nonce \<Rightarrow>
              (case find_sub [quote] after_nonce of
                 None \<Rightarrow> Ok None
               | Some q \<Rightarrow>
                   if drop q after_nonce \<noteq> [quote, CHR ''}''] then Ok None
                   else if take q after_nonce \<noteq> request_nonce then Err MisaddressedSignature
                   else Ok (Some (take at raw @ ''}'', h))))"

definition verify_response ::
  "crypto \<Rightarrow> string \<Rightarrow> string \<Rightarrow> string \<Rightarrow> nat \<Rightarrow> string \<Rightarrow> string \<Rightarrow> string \<Rightarrow> (proto_error, response_auth) result" where
  "verify_response cr secret method_name path status request_nonce raw node_id =
     rbind (split_response_signature raw request_nonce) (\<lambda>sp.
       case sp of
         None \<Rightarrow> Ok Unsigned
       | Some (signed_body, signature) \<Rightarrow>
           let payload = response_canonical cr node_id method_name path status request_nonce signed_body in
           (case cr_unhex cr signature of
              None \<Rightarrow> Err InvalidResponseEncoding
            | Some sig \<Rightarrow> if cr_hmac cr secret payload = sig then Ok Verified else Err ResponseMismatch))"

text \<open>The agent's side: \<open>sign_response_body\<close> of \<open>voltd\<close>.\<close>

definition sign_response_body ::
  "crypto \<Rightarrow> string \<Rightarrow> string \<Rightarrow> string \<Rightarrow> string \<Rightarrow> nat \<Rightarrow> string \<Rightarrow> string \<Rightarrow> string option" where
  "sign_response_body cr secret node_id method_name path status nonce body =
     (if \<not> utf8_valid body \<or> \<not> ends_with ''}'' body then None
      else Some (butlast body @ sig_marker
             @ sign_response cr secret method_name path status nonce body node_id
             @ nonce_marker @ nonce @ [quote, CHR ''}'']))"

section \<open>Streams\<close>

definition stream_footer :: "string \<Rightarrow> string" where
  "stream_footer signature = [newline] @ STREAM_FOOTER_MAGIC @ [newline] @ signature @ [newline]"

definition split_stream_footer :: "string \<Rightarrow> (proto_error, string \<times> string) result" where
  "split_stream_footer body =
     (if length body < STREAM_FOOTER_LEN then Err FooterTooShort
      else
        let at = length body - STREAM_FOOTER_LEN;
            footer = drop at body
        in if \<not> utf8_valid footer then Err MalformedFooter
           else case split_on newline footer of
             p0 # p1 # rest \<Rightarrow>
               if p0 \<noteq> [] then Err MalformedFooter
               else if p1 \<noteq> STREAM_FOOTER_MAGIC then Err MalformedFooter
               else
                 let signature = (case rest of s # _ \<Rightarrow> s | [] \<Rightarrow> [])
                 in if length signature \<noteq> 64 \<or> \<not> list_all is_ascii_hexdigit signature then Err MalformedFooter
                    else (case tl rest of
                            [p3] \<Rightarrow> if p3 = [] then Ok (take at body, signature) else Err MalformedFooter
                          | _ \<Rightarrow> Err MalformedFooter)
           | _ \<Rightarrow> Err MalformedFooter)"

definition sign_stream_response ::
  "crypto \<Rightarrow> string \<Rightarrow> string \<Rightarrow> string \<Rightarrow> nat \<Rightarrow> string \<Rightarrow> string \<Rightarrow> string \<Rightarrow> string" where
  "sign_stream_response cr secret method_name path status nonce body_sha256_hex node_id =
     cr_hex cr (cr_hmac cr secret (response_canonical_hash node_id method_name path status nonce body_sha256_hex))"

definition verify_stream_response ::
  "crypto \<Rightarrow> string \<Rightarrow> string \<Rightarrow> string \<Rightarrow> nat \<Rightarrow> string \<Rightarrow> string \<Rightarrow> string \<Rightarrow> string \<Rightarrow> (proto_error, unit) result" where
  "verify_stream_response cr secret method_name path status request_nonce body_sha256_hex signature node_id =
     (let payload = response_canonical_hash node_id method_name path status request_nonce body_sha256_hex in
      case cr_unhex cr signature of
        None \<Rightarrow> Err InvalidResponseEncoding
      | Some sig \<Rightarrow> if cr_hmac cr secret payload = sig then Ok () else Err ResponseMismatch)"

section \<open>Requests: what a signature binds\<close>

lemma join_inj:
  assumes "\<forall>p\<in>set ps. c \<notin> set p" "\<forall>q\<in>set qs. c \<notin> set q" "ps \<noteq> []" "qs \<noteq> []" "join_with c ps = join_with c qs"
  shows "ps = qs"
proof -
  have "split_on c (join_with c ps) = ps" if "\<forall>p\<in>set ps. c \<notin> set p" "ps \<noteq> []" for ps
    using that by (induction c ps rule: join_with.induct) (auto simp: split_on_append_sep)
  with assms show ?thesis by metis
qed

lemma newline_show_int: "newline \<notin> set (show_int i)"
  using show_int_chars [of newline i] by (auto simp: newline_def is_ascii_digit_def)

lemma newline_upper: "newline \<notin> set m \<Longrightarrow> newline \<notin> set (map to_ascii_upper m)"
proof
  assume m: "newline \<notin> set m" and "newline \<in> set (map to_ascii_upper m)"
  then obtain c where c: "c \<in> set m" "to_ascii_upper c = newline" by auto
  have "code newline = 10" by (simp add: newline_def)
  then have "code (to_ascii_upper c) = 10" using c(2) by simp
  then have "code c = 10" unfolding code_to_ascii_upper by (auto simp: is_ascii_lower_def split: if_splits)
  then have "c = newline" using \<open>code newline = 10\<close> by (metis of_char_eq_iff)
  with c m show False by simp
qed

text \<open>
  The string a request signature covers determines every field of the request: node, method (up
  to letter case), path, timestamp, nonce and body hash, as long as no text field contains a line
  break, which HTTP header and request-line values cannot.
\<close>
theorem canonical_binds_fields:
  assumes nl: "\<forall>x\<in>{n, m, p, k, b, n', m', p', k', b'}. newline \<notin> set x"
    and eq: "canonical_hash n m p t k b = canonical_hash n' m' p' t' k' b'"
  shows "n = n' \<and> map to_ascii_upper m = map to_ascii_upper m' \<and> p = p' \<and> t = t' \<and> k = k' \<and> b = b'"
proof -
  have "[n, map to_ascii_upper m, p, show_int t, k, b] = [n', map to_ascii_upper m', p', show_int t', k', b']"
    using eq nl newline_upper [of m] newline_upper [of m'] newline_show_int unfolding canonical_hash_def
    by (intro join_inj [of _ newline]) auto
  then show ?thesis using show_int_inj by auto
qed

lemma verify_iff:
  "verify cr secret m p body hs now = Ok () \<longleftrightarrow>
     \<bar>sat_sub now (sh_timestamp hs)\<bar> \<le> 90 \<and> cr_is_uuid cr (sh_node_id hs)
     \<and> cr_unhex cr (sh_signature hs) = Some (cr_hmac cr secret
         (canonical cr (sh_node_id hs) m p (sh_timestamp hs) (sh_nonce hs) body))"
  by (auto simp: verify_def rbind_Ok_iff verify_pending_def complete_verify_def canonical_def MAX_CLOCK_SKEW_SECS_def
      split: option.splits if_splits)

text \<open>
  A request verifies exactly within ninety seconds of the time it was signed for, whatever the
  letter case of the method; and for a request signed by the panel every other field of the
  verification is satisfied.
\<close>
theorem sign_then_verify:
  assumes "crypto_ok cr" "cr_is_uuid cr node_id" "in_i64 ts" "in_i64 now"
    "map to_ascii_upper m = map to_ascii_upper m'"
  shows "verify cr secret m' p body (sign cr ts nonce secret m p body node_id) now =
    (if \<bar>now - ts\<bar> \<le> 90 then Ok () else Err RequestExpired)"
proof -
  have sat: "\<bar>sat_sub now ts\<bar> \<le> 90 \<longleftrightarrow> \<bar>now - ts\<bar> \<le> 90"
    by (auto simp: sat_sub_def sat_i64_def i64_bounds abs_if)
  have canon: "canonical_hash node_id m' p ts nonce b = canonical_hash node_id m p ts nonce b" for b
    using assms(5) by (simp add: canonical_hash_def)
  show ?thesis
    using assms(1,2) sat unfolding linorder_not_less [symmetric]
    by (simp add: verify_def verify_pending_def complete_verify_def sign_def sign_body_hash_def MAX_CLOCK_SKEW_SECS_def
        crypto_ok_def canon)
qed

section \<open>Responses\<close>

lemma utf8_valid_Nil [simp]: "utf8_valid []"
  by (subst utf8_valid.simps) simp

lemma utf8_valid_step: "x \<noteq> [] \<Longrightarrow> utf8_valid x \<longleftrightarrow> utf8_len x \<noteq> 0 \<and> utf8_valid (drop (utf8_len x) x)"
  by (subst utf8_valid.simps) simp

lemma utf8_len_le: "utf8_len x \<le> length x"
  by (cases x) (auto split: list.splits)

lemma four_cases:
  obtains "x = []" | a where "x = [a]" | a b where "x = [a, b]" | a b c where "x = [a, b, c]"
    | a b c d r where "x = a # b # c # d # r"
  by (metis neq_Nil_conv)

lemma utf8_len_append: "utf8_len x \<noteq> 0 \<Longrightarrow> utf8_len (x @ y) = utf8_len x"
proof (cases x rule: four_cases)
  case (2 a)
  then show "utf8_len x \<noteq> 0 \<Longrightarrow> ?thesis" by (simp split: if_splits)
next
  case (3 a b)
  then show "utf8_len x \<noteq> 0 \<Longrightarrow> ?thesis" by (simp split: if_splits)
next
  case (4 a b c)
  then show "utf8_len x \<noteq> 0 \<Longrightarrow> ?thesis" by (simp split: if_splits)
qed simp_all

lemma utf8_append: "utf8_valid x \<Longrightarrow> utf8_valid y \<Longrightarrow> utf8_valid (x @ y)"
proof (induction "length x" arbitrary: x rule: less_induct)
  case less
  show ?case
  proof (cases "x = []")
    case False
    with less(2) have v: "utf8_len x \<noteq> 0" "utf8_valid (drop (utf8_len x) x)" using utf8_valid_step [of x] by auto
    have "utf8_valid (drop (utf8_len x) x @ y)" using less(1) [of "drop (utf8_len x) x"] v less(3) False by simp
    then have "utf8_valid (drop (utf8_len (x @ y)) (x @ y))"
      using utf8_len_append [OF v(1), of y] utf8_len_le [of x] by simp
    then show ?thesis using utf8_valid_step [of "x @ y"] utf8_len_append [OF v(1), of y] v(1) False by simp
  qed (use less in simp)
qed

lemma utf8_ascii: "list_all (\<lambda>c. code c < 128) s \<Longrightarrow> utf8_valid s"
proof (induction s)
  case (Cons c s)
  then show ?case using utf8_valid_step [of "c # s"] by simp
qed simp

lemma utf8_len_butlast:
  assumes "utf8_len (x @ [c]) \<noteq> 0" "code c < 128" "x \<noteq> []"
  shows "utf8_len (x @ [c]) = utf8_len x"
proof -
  show ?thesis
  proof (cases x rule: four_cases)
    case (2 a) with assms show ?thesis by (simp split: if_splits)
  next
    case (3 a b) with assms show ?thesis by (simp split: if_splits)
  next
    case (4 a b c) with assms show ?thesis by (simp split: if_splits)
  qed (use assms(3) in simp_all)
qed

lemma utf8_butlast_ascii: "utf8_valid (x @ [c]) \<Longrightarrow> code c < 128 \<Longrightarrow> utf8_valid x"
proof (induction "length x" arbitrary: x rule: less_induct)
  case less
  show ?case
  proof (cases "x = []")
    case False
    have v: "utf8_len (x @ [c]) \<noteq> 0" "utf8_valid (drop (utf8_len (x @ [c])) (x @ [c]))"
      using less(2) utf8_valid_step [of "x @ [c]"] by auto
    have l: "utf8_len (x @ [c]) = utf8_len x" using utf8_len_butlast [OF v(1) less(3) False] .
    have "utf8_valid (drop (utf8_len x) x @ [c])" using v(2) utf8_len_le [of x] unfolding l by simp
    moreover have "length (drop (utf8_len x) x) < length x" using v(1) l False by simp
    ultimately have "utf8_valid (drop (utf8_len x) x)" using less(1,3) by blast
    then show ?thesis using v(1) l utf8_valid_step [OF False] by simp
  qed simp
qed

subsection \<open>Locating the signature\<close>

lemma rfind_prepend: "rfind_sub p s = Some i \<Longrightarrow> rfind_sub p (x @ s) = Some (length x + i)"
  by (induction x) simp_all

lemma rfind_None_skip:
  "rfind_sub p s = None \<Longrightarrow> p = a # q \<Longrightarrow> a \<notin> set x \<Longrightarrow> rfind_sub p (x @ s) = None"
  by (induction x) (auto simp: starts_with_def)

lemma rfind_Some_split: "rfind_sub p s = Some i \<Longrightarrow> \<exists>r. s = take i s @ p @ r \<and> i \<le> length s"
proof (induction s arbitrary: i)
  case (Cons c s)
  show ?case
  proof (cases "rfind_sub p s")
    case None
    with Cons.prems have "starts_with p (c # s)" "i = 0" by (auto split: if_splits)
    then show ?thesis by (auto simp: starts_with_iff)
  next
    case (Some j)
    with Cons.IH [OF Some] Cons.prems show ?thesis by auto
  qed
qed (auto split: if_splits)

lemma find_quote: "quote \<notin> set n \<Longrightarrow> find_sub [quote] (n @ quote # r) = Some (length n)"
  by (induction n) (auto simp: starts_with_def)

lemma find_quote_Some: "find_sub [quote] s = Some q \<Longrightarrow> q < length s \<and> s ! q = quote \<and> quote \<notin> set (take q s)"
  by (induction s arbitrary: q) (auto simp: starts_with_def split: if_splits)

lemma marker_ne [simp]: "sig_marker \<noteq> []" "length sig_marker = 14"
  by (simp_all add: sig_marker_def)

lemma rfind_nonce_tail: "quote \<notin> set n \<Longrightarrow> rfind_sub sig_marker (n @ [quote, CHR ''}'']) = None"
proof (induction n)
  case Nil
  then show ?case by (simp add: sig_marker_def starts_with_def)
next
  case (Cons c n)
  have "\<not> starts_with sig_marker (c # n @ [quote, CHR ''}''])"
    using Cons.prems by (cases n) (auto simp: sig_marker_def starts_with_def)
  with Cons show ?case by simp
qed

lemma hex_no_comma: "list_all is_ascii_hexdigit h \<Longrightarrow> CHR '','' \<notin> set h"
  by (auto simp: list_all_iff ascii_simps)

lemma rfind_marker_skip:
  "rfind_sub sig_marker s = None \<Longrightarrow> CHR '','' \<notin> set x \<Longrightarrow> rfind_sub sig_marker (x @ s) = None"
  by (rule rfind_None_skip [where a = "CHR '',''" and q = "tl sig_marker"]) (simp_all add: sig_marker_def)

lemma rfind_tail:
  assumes "quote \<notin> set n" "list_all is_ascii_hexdigit h"
  shows "rfind_sub sig_marker (b @ sig_marker @ h @ nonce_marker @ n @ [quote, CHR ''}'']) = Some (length b)"
proof -
  define t where "t = n @ [quote, CHR ''}'']"
  define N where "N = quote # ''nonce'' @ [quote] @ '':'' @ [quote]"
  define S where "S = quote # ''signature'' @ [quote] @ '':'' @ [quote]"
  have nm: "nonce_marker = [quote] @ [CHR '',''] @ N" and sm: "sig_marker = CHR '','' # S"
    by (simp_all add: nonce_marker_def N_def sig_marker_def S_def)
  have no: "CHR '','' \<notin> set N" "CHR '','' \<notin> set S" "CHR '','' \<notin> set [quote]"
    by (simp_all add: N_def S_def quote_def)
  have "rfind_sub sig_marker (N @ t) = None"
    using rfind_marker_skip rfind_nonce_tail [OF assms(1)] no(1) by (simp add: t_def)
  moreover have "\<not> starts_with sig_marker (CHR '','' # N @ t)"
    by (simp add: sig_marker_def starts_with_def N_def)
  ultimately have "rfind_sub sig_marker (CHR '','' # N @ t) = None" by simp
  then have "rfind_sub sig_marker (nonce_marker @ t) = None"
    using rfind_marker_skip [OF _ no(3), of "CHR '','' # N @ t"] by (simp add: nm)
  then have "rfind_sub sig_marker (S @ h @ nonce_marker @ t) = None"
    using rfind_marker_skip hex_no_comma [OF assms(2)] no(2) by blast
  moreover have "starts_with sig_marker (CHR '','' # S @ h @ nonce_marker @ t)"
    unfolding sm by (simp add: starts_with_def)
  ultimately have "rfind_sub sig_marker (CHR '','' # S @ h @ nonce_marker @ t) = Some 0" by simp
  then have "rfind_sub sig_marker (sig_marker @ h @ nonce_marker @ t) = Some 0" by (simp add: sm)
  from rfind_prepend [OF this] show ?thesis by (simp add: t_def)
qed

lemma ascii_chars:
  "list_all (\<lambda>c. code c < 128) sig_marker" "list_all (\<lambda>c. code c < 128) nonce_marker"
  "list_all is_ascii_hexdigit h \<Longrightarrow> list_all (\<lambda>c. code c < 128) h"
  by (auto simp: sig_marker_def nonce_marker_def quote_def list_all_iff ascii_simps)

text \<open>A signed envelope splits back into its body and its signature.\<close>

lemma split_signed:
  assumes u: "utf8_valid (b @ ''}'')" "utf8_valid n" and q: "quote \<notin> set n"
    and h: "length h = 64" "list_all is_ascii_hexdigit h"
  shows "split_response_signature (b @ sig_marker @ h @ nonce_marker @ n @ [quote, CHR ''}'']) m =
    (if n = m then Ok (Some (b @ ''}'', h)) else Err MisaddressedSignature)"
proof -
  let ?raw = "b @ sig_marker @ h @ nonce_marker @ n @ [quote, CHR ''}'']"
  have "utf8_valid b" using utf8_butlast_ascii [OF u(1)] by simp
  moreover have "utf8_valid [quote, CHR ''}'']" by (rule utf8_ascii) (simp add: quote_def)
  ultimately have valid: "utf8_valid ?raw"
    using u(2) utf8_ascii [OF ascii_chars(1)] utf8_ascii [OF ascii_chars(2)] utf8_ascii [OF ascii_chars(3) [OF h(2)]]
    by (intro utf8_append)
  have at: "rfind_sub sig_marker ?raw = Some (length b)" using rfind_tail [OF q h(2)] .
  have "drop (length b + length sig_marker) ?raw = h @ nonce_marker @ n @ [quote, CHR ''}'']"
    "drop (length b + length sig_marker + 64) ?raw = nonce_marker @ n @ [quote, CHR ''}'']"
    using h(1) by simp_all
  then show ?thesis
    unfolding split_response_signature_def using valid at h find_quote [OF q, of "[CHR ''}'']"]
    by (simp add: Let_def)
qed

text \<open>
  C25: A response the agent signs for a request is accepted by the panel as verified for that request,
  even when the payload itself contains the text of the signature field; with the nonce of any other
  request it is rejected.
\<close>
theorem response_roundtrip:
  assumes cr: "crypto_ok cr" and n: "utf8_valid nonce" "quote \<notin> set nonce"
    and s: "sign_response_body cr secret node_id m p status nonce body = Some raw"
  shows "verify_response cr secret m p status nonce raw node_id = Ok Verified
    \<and> (\<forall>other. other \<noteq> nonce \<longrightarrow> verify_response cr secret m p status other raw node_id = Err MisaddressedSignature)"
proof -
  have u: "utf8_valid body" "ends_with ''}'' body" using s by (auto simp: sign_response_body_def split: if_splits)
  then obtain b where b: "body = b @ ''}''"
    by (auto simp: ends_with_def) (metis append_take_drop_id)
  let ?h = "sign_response cr secret m p status nonce body node_id"
  have raw: "raw = b @ sig_marker @ ?h @ nonce_marker @ nonce @ [quote, CHR ''}'']"
    using s b by (auto simp: sign_response_body_def split: if_splits)
  have h: "length ?h = 64" "list_all is_ascii_hexdigit ?h" using cr by (simp_all add: crypto_ok_def sign_response_def)
  note sp = split_signed [OF _ n h, of b, folded raw]
  have "cr_unhex cr ?h = Some (cr_hmac cr secret (response_canonical cr node_id m p status nonce body))"
    using cr by (simp add: crypto_ok_def sign_response_def)
  then show ?thesis using sp u(1) b by (simp add: verify_response_def)
qed

text \<open>Conversely, a split only ever succeeds on bytes of exactly that shape.\<close>

lemma split_response_Some:
  assumes "split_response_signature raw nonce = Ok (Some (sb, h))"
  obtains b where "raw = b @ sig_marker @ h @ nonce_marker @ nonce @ [quote, CHR ''}'']" "sb = b @ ''}''"
    "length h = 64"
proof -
  obtain at where at: "rfind_sub sig_marker raw = Some at"
    and h: "h = take 64 (drop (at + length sig_marker) raw)" "\<not> length h < 64"
    using assms by (auto simp: split_response_signature_def Let_def split: if_splits option.splits)
  then obtain t where t: "strip_prefix nonce_marker (drop (at + length sig_marker + 64) raw) = Some t"
    using assms by (auto simp: split_response_signature_def Let_def split: if_splits option.splits)
  with at h obtain q where q: "drop q t = [quote, CHR ''}'']" "take q t = nonce" "sb = take at raw @ ''}''"
    using assms by (auto simp: split_response_signature_def Let_def split: if_splits option.splits)
  have t': "t = nonce @ [quote, CHR ''}'']" using q(1,2) append_take_drop_id [of q t] by simp
  obtain r where r: "raw = take at raw @ sig_marker @ r" "at \<le> length raw" using rfind_Some_split [OF at] by blast
  then have dr: "drop (at + length sig_marker) raw = r"
    by (metis add.commute append_eq_conv_conj drop_drop length_take min.absorb2)
  then have "r = h @ drop 64 r" using h(1) by simp
  moreover have "drop 64 r = nonce_marker @ t"
    using t unfolding strip_prefix_Some dr [symmetric] by (simp add: add.commute)
  ultimately have "raw = take at raw @ sig_marker @ h @ nonce_marker @ nonce @ [quote, CHR ''}'']"
    using r(1) t' by simp
  moreover have "length h = 64" using h by simp
  ultimately show thesis using that q(3) by blast
qed

text \<open>
  C2: A response is only ever trusted as verified when its bytes are some envelope followed by the
  signature fields with this request's nonce, and the signature is the MAC, under the node's secret,
  of the node, method, path, status, nonce and that envelope.
\<close>
theorem verified_response_authentic:
  assumes "verify_response cr secret m p status nonce raw node_id = Ok Verified"
  shows "\<exists>b h. raw = b @ sig_marker @ h @ nonce_marker @ nonce @ [quote, CHR ''}''] \<and> length h = 64
    \<and> cr_unhex cr h = Some (cr_hmac cr secret (response_canonical cr node_id m p status nonce (b @ ''}'')))"
proof -
  obtain r where r: "split_response_signature raw nonce = Ok r"
    using assms by (auto simp: verify_response_def rbind_Ok_iff)
  with assms have "r \<noteq> None" unfolding verify_response_def by (cases r) simp_all
  then obtain sb h where "r = Some (sb, h)" by auto
  with r have sp: "split_response_signature raw nonce = Ok (Some (sb, h))" by simp
  with assms have mac: "cr_unhex cr h = Some (cr_hmac cr secret (response_canonical cr node_id m p status nonce sb))"
    by (cases "cr_unhex cr h") (auto simp: verify_response_def Let_def split: if_splits)
  from split_response_Some [OF sp] obtain b where
    "raw = b @ sig_marker @ h @ nonce_marker @ nonce @ [quote, CHR ''}'']" "sb = b @ ''}''" "length h = 64" .
  with mac show ?thesis by blast
qed

section \<open>Stream footers\<close>

lemma magic_no_newline: "newline \<notin> set STREAM_FOOTER_MAGIC"
  by (simp add: STREAM_FOOTER_MAGIC_def newline_def)

lemma hex_no_newline: "list_all is_ascii_hexdigit h \<Longrightarrow> newline \<notin> set h"
  by (auto simp: list_all_iff newline_def ascii_simps)

lemma footer_parts:
  "newline \<notin> set h \<Longrightarrow> split_on newline (stream_footer h) = [[], STREAM_FOOTER_MAGIC, h, []]"
  using split_on_append_sep [OF magic_no_newline] split_on_append_sep [of newline h "[]"]
  by (simp add: stream_footer_def)

lemma footer_length: "length h = 64 \<Longrightarrow> length (stream_footer h) = STREAM_FOOTER_LEN"
  by (simp add: stream_footer_def STREAM_FOOTER_LEN_def)

lemma footer_utf8: "list_all is_ascii_hexdigit h \<Longrightarrow> utf8_valid (stream_footer h)"
  using ascii_chars(3) [of h] by (intro utf8_ascii) (simp add: stream_footer_def STREAM_FOOTER_MAGIC_def newline_def)

lemma split_stream_Ok:
  assumes "split_stream_footer body = Ok (a, h)"
  shows "body = a @ stream_footer h \<and> length h = 64 \<and> list_all is_ascii_hexdigit h"
proof -
  define at where "at = length body - STREAM_FOOTER_LEN"
  have ps: "split_on newline (drop at body) = [[], STREAM_FOOTER_MAGIC, h, []]" and a: "a = take at body"
    and h: "length h = 64" "list_all is_ascii_hexdigit h"
    using assms by (auto simp: split_stream_footer_def Let_def at_def split: list.splits if_splits)
  have "drop at body = stream_footer h"
    using join_split [of newline "drop at body"] unfolding ps by (simp add: stream_footer_def)
  with a h show ?thesis by (metis append_take_drop_id)
qed

text \<open>
  The footer of a streamed snapshot splits unambiguously: a body splits into an archive and a
  signature exactly when it is that archive followed by the footer of that 64-digit signature,
  whatever bytes the archive contains.
\<close>
theorem stream_footer_split_iff:
  "split_stream_footer body = Ok (a, h) \<longleftrightarrow>
     body = a @ stream_footer h \<and> length h = 64 \<and> list_all is_ascii_hexdigit h"
proof
  assume r: "body = a @ stream_footer h \<and> length h = 64 \<and> list_all is_ascii_hexdigit h"
  then have "drop (length body - STREAM_FOOTER_LEN) body = stream_footer h" "take (length body - STREAM_FOOTER_LEN) body = a"
    "\<not> length body < STREAM_FOOTER_LEN"
    using footer_length [of h] by simp_all
  then show "split_stream_footer body = Ok (a, h)"
    using r footer_parts [OF hex_no_newline] footer_utf8 unfolding split_stream_footer_def by (simp add: Let_def)
qed (rule split_stream_Ok)

section \<open>Witnesses\<close>

definition hex64 :: string where
  "hex64 = replicate 64 (CHR ''a'')"

definition wcrypto :: crypto where
  "wcrypto = \<lparr>cr_sha256_hex = (\<lambda>b. b), cr_hmac = (\<lambda>k m. []), cr_hex = (\<lambda>x. hex64 @ x),
     cr_unhex = (\<lambda>s. if take 64 s = hex64 then Some (drop 64 s) else None), cr_is_uuid = (\<lambda>_. True)\<rparr>"

lemma wcrypto_ok: "crypto_ok wcrypto"
  by (simp add: crypto_ok_def wcrypto_def hex64_def list_all_iff ascii_simps)

theorem canonical_binds_fields_witness:
  "\<not> (canonical_hash ''n'' ''get'' ''/p'' 5 ''k'' ''b'' = canonical_hash ''n'' ''GET'' ''/p'' 6 ''k'' ''b'')"
proof
  assume eq: "canonical_hash ''n'' ''get'' ''/p'' 5 ''k'' ''b'' = canonical_hash ''n'' ''GET'' ''/p'' 6 ''k'' ''b''"
  have "(5 :: int) = 6"
    using canonical_binds_fields [OF _ eq] by (simp add: newline_def)
  then show False by simp
qed

theorem sign_then_verify_witness:
  "verify wcrypto ''s'' ''GET'' ''/v1'' ''body'' (sign wcrypto 1000 ''n'' ''s'' ''get'' ''/v1'' ''body'' ''id'') 1090 = Ok ()
   \<and> verify wcrypto ''s'' ''GET'' ''/v1'' ''body'' (sign wcrypto 1000 ''n'' ''s'' ''get'' ''/v1'' ''body'' ''id'') 1091 = Err RequestExpired"
proof -
  have up: "map to_ascii_upper ''get'' = map to_ascii_upper ''GET''" by code_simp
  have id: "cr_is_uuid wcrypto ''id''" by (simp add: wcrypto_def)
  show ?thesis
    using sign_then_verify [OF wcrypto_ok id _ _ up, of 1000 1090] sign_then_verify [OF wcrypto_ok id _ _ up, of 1000 1091]
    by (simp add: in_i64_def i64_bounds)
qed

theorem response_roundtrip_witness:
  "\<exists>raw. sign_response_body wcrypto ''s'' ''id'' ''GET'' ''/v1'' 200 ''abc'' ''{}'' = Some raw
     \<and> verify_response wcrypto ''s'' ''GET'' ''/v1'' 200 ''abc'' raw ''id'' = Ok Verified"
proof -
  obtain raw where raw: "sign_response_body wcrypto ''s'' ''id'' ''GET'' ''/v1'' 200 ''abc'' ''{}'' = Some raw"
    by (simp add: sign_response_body_def utf8_ascii ends_with_def)
  have "utf8_valid ''abc''" by (rule utf8_ascii) simp
  moreover have "quote \<notin> set ''abc''" by (simp add: quote_def)
  ultimately show ?thesis using response_roundtrip [OF wcrypto_ok _ _ raw] raw by blast
qed

theorem verified_response_authentic_witness:
  "\<exists>b h. ''{'' @ sig_marker @ hex64 @ nonce_marker @ ''abc'' @ [quote, CHR ''}'']
     = b @ sig_marker @ h @ nonce_marker @ ''abc'' @ [quote, CHR ''}''] \<and> length h = 64 \<and> cr_unhex wcrypto h = Some []"
proof -
  let ?raw = "''{'' @ sig_marker @ hex64 @ nonce_marker @ ''abc'' @ [quote, CHR ''}'']"
  have "split_response_signature ?raw ''abc'' = Ok (Some (''{}'', hex64))"
    using split_signed [of "''{''" "''abc''" hex64 "''abc''"]
    by (simp add: utf8_ascii quote_def hex64_def list_all_iff ascii_simps)
  then have "verify_response wcrypto ''s'' ''GET'' ''/v1'' 200 ''abc'' ?raw ''id'' = Ok Verified"
    by (simp add: verify_response_def wcrypto_def hex64_def)
  from verified_response_authentic [OF this] show ?thesis by (simp add: wcrypto_def)
qed

end
