(* ===== verification/Nonces.thy ===== *)
theory Nonces
  imports NodeProtocol
begin

text \<open>
  Replay protection on both ends of the node protocol: the panel's \<open>NonceCache\<close>
  (\<open>src/src/services/node.rs\<close>) and the agent's \<open>NonceStore\<close> with its persisted watermarks
  (\<open>src/src/bin/voltd.rs\<close>), behind one interface. The concurrent map is a hash map, and calls are
  steps that happen one after another.
\<close>

section \<open>Shared pieces\<close>

definition RETIRE_FRACTION :: nat where "RETIRE_FRACTION = 4"
definition NONCE_CACHE_CAP :: nat where "NONCE_CACHE_CAP = 100000"

text \<open>Both \<open>compact\<close> methods are the same code at different key types.\<close>

definition compact :: "nat \<Rightarrow> ('k, int) hmap \<Rightarrow> ('k, int) hmap" where
  "compact cap m =
     (let over = length m - cap in
      if 0 < over then
        let retire = max (cap div RETIRE_FRACTION) over;
            keep = map fst (drop retire (sort_key snd m))
        in hm_retain (\<lambda>k _. k \<in> set keep) m
      else m)"

section \<open>The panel's cache\<close>

type_synonym nonce_cache = "(string \<times> string, int) hmap"

definition prune_nonces :: "int \<Rightarrow> nonce_cache \<Rightarrow> nonce_cache" where
  "prune_nonces before m = hm_retain (\<lambda>_ ts. before \<le> ts) m"

definition use_once :: "nat \<Rightarrow> nonce_cache \<Rightarrow> string \<Rightarrow> string \<Rightarrow> int \<Rightarrow> nonce_cache \<times> bool" where
  "use_once cap m node_id nonce timestamp =
     (let m1 = prune_nonces (timestamp - MAX_CLOCK_SKEW_SECS * 2) m;
          key = (node_id, nonce);
          fresh = (hm_get m1 key = None);
          m2 = hm_insert key timestamp m1;
          m3 = (if cap < length m2 then compact cap m2 else m2)
      in (hm_insert key timestamp m3, fresh))"

section \<open>The agent's ledger\<close>

definition NONCE_PRUNE_INTERVAL_SECS :: int where "NONCE_PRUNE_INTERVAL_SECS = 30"
definition REPLAY_WATERMARK_GRACE_SECS :: int where "REPLAY_WATERMARK_GRACE_SECS = 5"

record nonce_store =
  ns_seen :: "(string, int) hmap"
  ns_last_prune :: int
  ns_watermarks :: "(string, int) hmap"
  ns_cap :: nat

text \<open>\<open>NonceStore::new\<close>: what was persisted, if the file could be read and parsed.\<close>

definition nonce_store_new :: "(string, int) hmap option \<Rightarrow> nonce_store" where
  "nonce_store_new file = \<lparr>ns_seen = [], ns_last_prune = 0,
     ns_watermarks = (case file of Some m \<Rightarrow> foldl (\<lambda>w (k, v). hm_insert k v w) [] m | None \<Rightarrow> []),
     ns_cap = NONCE_CACHE_CAP\<rparr>"

definition persist :: "nonce_store \<Rightarrow> (string, int) hmap" where
  "persist st = ns_watermarks st"

definition nonce_key :: "string \<Rightarrow> string \<Rightarrow> string" where
  "nonce_key node_id nonce = node_id @ '':'' @ nonce"

text \<open>\<open>cas_ok\<close>: whether this caller wins the compare-and-exchange that gates the stale scan.\<close>

definition check_and_insert ::
  "bool \<Rightarrow> nonce_store \<Rightarrow> string \<Rightarrow> string \<Rightarrow> int \<Rightarrow> int \<Rightarrow> nonce_store \<times> bool" where
  "check_and_insert cas_ok st node_id nonce ts now =
     (let due = (NONCE_PRUNE_INTERVAL_SECS \<le> sat_sub now (ns_last_prune st) \<and> cas_ok);
          seen = (if due then hm_retain (\<lambda>_ stored. now - MAX_CLOCK_SKEW_SECS * 2 \<le> stored) (ns_seen st)
                  else ns_seen st);
          key = nonce_key node_id nonce;
          fresh = (hm_get seen key = None);
          seen2 = hm_insert key ts seen;
          seen3 = (if ns_cap st < length seen2 then compact (ns_cap st) seen2 else seen2);
          st' = st\<lparr>ns_seen := hm_insert key ts seen3, ns_last_prune := (if due then now else ns_last_prune st)\<rparr>
      in if \<not> fresh then (st', True)
         else case hm_get (ns_watermarks st) node_id of
           Some w \<Rightarrow>
             if sat_add ts REPLAY_WATERMARK_GRACE_SECS \<le> w then (st', True)
             else (st'\<lparr>ns_watermarks := hm_insert node_id (max w ts) (ns_watermarks st)\<rparr>, False)
         | None \<Rightarrow> (st'\<lparr>ns_watermarks := hm_insert node_id ts (ns_watermarks st)\<rparr>, False))"

section \<open>The interface\<close>

text \<open>
  A guard is shown requests whose signature was verified at \<open>now\<close>, so their timestamp is within
  the skew of it. \<open>seen\<close> is what it remembers of a nonce, \<open>room\<close> says that it is below its cap.
\<close>

definition in_window :: "int \<Rightarrow> int \<Rightarrow> bool" where
  "in_window now t \<longleftrightarrow> \<bar>now - t\<bar> \<le> MAX_CLOCK_SKEW_SECS"

text \<open>
  Traffic between two points of time: verified requests with a clock that does not run backwards,
  each shown to the guard while it has room. The nonce \<open>K\<close> was signed once, with timestamp \<open>T\<close>.
\<close>

inductive traffic ::
  "('s \<Rightarrow> 'k \<Rightarrow> int \<Rightarrow> int \<Rightarrow> 's \<times> bool) \<Rightarrow> ('s \<Rightarrow> bool) \<Rightarrow> 'k \<Rightarrow> int \<Rightarrow> int \<Rightarrow> 's \<Rightarrow> int \<Rightarrow> 's \<Rightarrow> bool"
  for shown room K T where
  traffic_none: "traffic shown room K T now s now s"
| traffic_more: "traffic shown room K T now s now1 s1 \<Longrightarrow> now1 \<le> now2 \<Longrightarrow> room s1 \<Longrightarrow> in_window now2 t \<Longrightarrow>
     (k = K \<Longrightarrow> t = T) \<Longrightarrow> fst (shown s1 k t now2) = s2 \<Longrightarrow> traffic shown room K T now s now2 s2"

locale replay_guard =
  fixes wf :: "'s \<Rightarrow> bool" and room :: "'s \<Rightarrow> bool" and seen :: "'s \<Rightarrow> 'k \<Rightarrow> int option"
    and shown :: "'s \<Rightarrow> 'k \<Rightarrow> int \<Rightarrow> int \<Rightarrow> 's \<times> bool"
  assumes shown_wf: "wf s \<Longrightarrow> wf (fst (shown s k t now))"
    and shown_recorded: "wf s \<Longrightarrow> seen (fst (shown s k t now)) k = Some t"
    and shown_keeps: "wf s \<Longrightarrow> room s \<Longrightarrow> in_window now t \<Longrightarrow> seen s k' = Some t' \<Longrightarrow> in_window now t' \<Longrightarrow> k' \<noteq> k \<Longrightarrow>
        seen (fst (shown s k t now)) k' = Some t'"
    and seen_refused: "wf s \<Longrightarrow> in_window now t \<Longrightarrow> seen s k = Some t \<Longrightarrow> \<not> snd (shown s k t now)"
begin

lemma traffic_wf: "traffic shown room K T now s now' s' \<Longrightarrow> wf s \<Longrightarrow> wf s' \<and> now \<le> now'"
  by (induction rule: traffic.induct) (auto intro: shown_wf)

lemma in_window_mono: "in_window now t \<Longrightarrow> in_window now2 t \<Longrightarrow> now \<le> now1 \<Longrightarrow> now1 \<le> now2 \<Longrightarrow> in_window now1 t"
  by (auto simp: in_window_def)

lemma traffic_keeps:
  "traffic shown room K T now s now' s' \<Longrightarrow> wf s \<Longrightarrow> seen s K = Some T \<Longrightarrow> in_window now T \<Longrightarrow> in_window now' T \<Longrightarrow>
     seen s' K = Some T"
proof (induction rule: traffic.induct)
  case (traffic_more now s now1 s1 now2 t k s2)
  have w: "wf s1" "now \<le> now1" using traffic_wf [OF traffic_more(1)] traffic_more.prems(1) by auto
  have "in_window now1 T" using in_window_mono traffic_more w(2) by blast
  with traffic_more have s1: "seen s1 K = Some T" by blast
  show ?case
  proof (cases "k = K")
    case True
    then have "t = T" using traffic_more by blast
    with True show ?thesis using shown_recorded [OF w(1)] traffic_more(6) by blast
  next
    case False
    then show ?thesis
      using shown_keeps [OF w(1) traffic_more(3,4) s1 traffic_more.prems(4), of k] traffic_more(6) by auto
  qed
qed

text \<open>A verified request is refused when it is shown a second time.\<close>

lemma replay_refused:
  assumes "wf s" "in_window now T" "traffic shown room K T now (fst (shown s K T now)) now' s'" "now' \<le> now2" "in_window now2 T"
  shows "\<not> snd (shown s' K T now2)"
proof -
  have w: "wf (fst (shown s K T now))" using shown_wf assms(1) .
  have "now \<le> now'" "wf s'" using traffic_wf [OF assms(3) w] by auto
  moreover have "in_window now' T" using in_window_mono assms calculation by blast
  ultimately have "seen s' K = Some T"
    using traffic_keeps [OF assms(3) w shown_recorded] assms by blast
  then show ?thesis using seen_refused \<open>wf s'\<close> assms(5) by blast
qed

end

section \<open>Both ends provide it\<close>

definition panel_shown :: "nonce_cache \<Rightarrow> string \<times> string \<Rightarrow> int \<Rightarrow> int \<Rightarrow> nonce_cache \<times> bool" where
  "panel_shown m k t now = use_once NONCE_CACHE_CAP m (fst k) (snd k) t"

definition panel_room :: "nonce_cache \<Rightarrow> bool" where
  "panel_room m \<longleftrightarrow> length m < NONCE_CACHE_CAP"

lemma compact_wf: "hm_wf m \<Longrightarrow> hm_wf (compact cap m)"
  by (simp add: compact_def Let_def)

lemma hm_retain_length: "length (hm_retain P m) \<le> length m"
  by (simp add: hm_retain_def)

lemma insert_room: "length m < cap \<Longrightarrow> \<not> cap < length (hm_insert k v (hm_retain P m))"
  using length_hm_insert [of k v "hm_retain P m"] hm_retain_length [of P m] by (auto split: if_splits)

lemma panel_keeps:
  assumes "hm_wf m" "panel_room m" "in_window now t" "hm_get m k' = Some t'" "in_window now t'" "k' \<noteq> k"
  shows "hm_get (fst (panel_shown m k t now)) k' = Some t'"
proof -
  have "t - MAX_CLOCK_SKEW_SECS * 2 \<le> t'" using assms(3,5) by (simp add: in_window_def MAX_CLOCK_SKEW_SECS_def)
  moreover have "\<not> NONCE_CACHE_CAP < length (hm_insert k t (prune_nonces (t - MAX_CLOCK_SKEW_SECS * 2) m))"
    using insert_room assms(2) by (simp add: prune_nonces_def panel_room_def)
  ultimately show ?thesis
    using assms(1,4,6) by (simp add: panel_shown_def use_once_def Let_def prune_nonces_def hm_get_retain)
qed

interpretation panel: replay_guard hm_wf panel_room hm_get panel_shown
proof
  fix m :: nonce_cache and k and t now :: int
  assume m: "hm_wf m"
  then show "hm_wf (fst (panel_shown m k t now))"
    by (simp add: panel_shown_def use_once_def Let_def prune_nonces_def compact_wf)
  show "hm_get (fst (panel_shown m k t now)) k = Some t"
    by (simp add: panel_shown_def use_once_def Let_def)
  assume "in_window now t" "hm_get m k = Some t"
  with m show "\<not> snd (panel_shown m k t now)"
    by (simp add: panel_shown_def use_once_def Let_def prune_nonces_def hm_get_retain MAX_CLOCK_SKEW_SECS_def)
qed (rule panel_keeps)

text \<open>
  The agent only takes requests addressed to its own node id, so a nonce identifies a request.
  \<open>cas\<close> is any outcome of the race for the stale scan.
\<close>

definition agent_shown ::
  "(nonce_store \<Rightarrow> int \<Rightarrow> bool) \<Rightarrow> string \<Rightarrow> nonce_store \<Rightarrow> string \<Rightarrow> int \<Rightarrow> int \<Rightarrow> nonce_store \<times> bool" where
  "agent_shown cas node st nonce t now =
     (let (st', replay) = check_and_insert (cas st now) st node nonce t now in (st', \<not> replay))"

definition agent_wf :: "nonce_store \<Rightarrow> bool" where
  "agent_wf st \<longleftrightarrow> hm_wf (ns_seen st)"

definition agent_room :: "nonce_store \<Rightarrow> bool" where
  "agent_room st \<longleftrightarrow> length (ns_seen st) < ns_cap st"

definition agent_seen :: "string \<Rightarrow> nonce_store \<Rightarrow> string \<Rightarrow> int option" where
  "agent_seen node st nonce = hm_get (ns_seen st) (nonce_key node nonce)"

lemma nonce_key_eq: "nonce_key n a = nonce_key n b \<longleftrightarrow> a = b"
  by (simp add: nonce_key_def)

text \<open>The ledger after a call, and whether the nonce was new.\<close>

lemma check_and_insert_effect:
  obtains P where
    "ns_seen (fst (check_and_insert c st node nonce t now)) =
       (let m = hm_insert (nonce_key node nonce) t (hm_retain P (ns_seen st)) in
        hm_insert (nonce_key node nonce) t (if ns_cap st < length m then compact (ns_cap st) m else m))"
    "\<And>k v. now - 180 \<le> v \<Longrightarrow> P k v"
    "hm_get (hm_retain P (ns_seen st)) (nonce_key node nonce) \<noteq> None \<Longrightarrow> snd (check_and_insert c st node nonce t now)"
proof (cases "NONCE_PRUNE_INTERVAL_SECS \<le> sat_sub now (ns_last_prune st) \<and> c")
  case True
  then show thesis
    by (intro that [of "\<lambda>_ v. now - MAX_CLOCK_SKEW_SECS * 2 \<le> v"])
      (auto simp: check_and_insert_def Let_def MAX_CLOCK_SKEW_SECS_def split: option.splits)
next
  case False
  have "hm_retain (\<lambda>_ _. True) m = m" for m :: "(string, int) hmap" by (simp add: hm_retain_def)
  with False show thesis
    by (intro that [of "\<lambda>_ _. True"]) (auto simp: check_and_insert_def Let_def split: option.splits)
qed

interpretation agent: replay_guard agent_wf agent_room "agent_seen node" "agent_shown cas node" for cas node
proof
  fix st :: nonce_store and k and t now :: int
  let ?r = "check_and_insert (cas st now) st node k t now"
  have fst: "fst (agent_shown cas node st k t now) = fst ?r" and snd: "snd (agent_shown cas node st k t now) = (\<not> snd ?r)"
    by (simp_all add: agent_shown_def split: prod.splits)
  obtain P where seen: "ns_seen (fst ?r) = (let m = hm_insert (nonce_key node k) t (hm_retain P (ns_seen st)) in
        hm_insert (nonce_key node k) t (if ns_cap st < length m then compact (ns_cap st) m else m))"
    and P: "\<And>k v. now - 180 \<le> v \<Longrightarrow> P k v"
    and old: "hm_get (hm_retain P (ns_seen st)) (nonce_key node k) \<noteq> None \<Longrightarrow> snd ?r"
    using check_and_insert_effect by blast
  assume wf: "agent_wf st"
  then show "agent_wf (fst (agent_shown cas node st k t now))"
    by (simp add: agent_wf_def fst seen Let_def compact_wf)
  show "agent_seen node (fst (agent_shown cas node st k t now)) k = Some t"
    by (simp add: agent_seen_def fst seen Let_def)
  show "\<not> snd (agent_shown cas node st k t now)" if "in_window now t" "agent_seen node st k = Some t"
    using that wf old P [of t]
    by (simp add: snd agent_seen_def agent_wf_def hm_get_retain in_window_def MAX_CLOCK_SKEW_SECS_def)
  show "agent_seen node (fst (agent_shown cas node st k t now)) k' = Some t'"
    if "agent_room st" "agent_seen node st k' = Some t'" "in_window now t'" "k' \<noteq> k" for k' t'
    using that wf P [of t'] insert_room [of "ns_seen st" "ns_cap st" "nonce_key node k" t P]
    by (simp add: agent_seen_def agent_wf_def agent_room_def fst seen Let_def hm_get_retain nonce_key_eq
        in_window_def MAX_CLOCK_SKEW_SECS_def)
qed

section \<open>Authenticating a request on the agent\<close>

datatype daemon_error = MissingHeader | BadTimestamp | WrongNode | Rejected proto_error | ReplayedRequest

text \<open>\<open>hdr\<close> looks up a request header that is valid text.\<close>

definition get_header :: "(string \<Rightarrow> string option) \<Rightarrow> string \<Rightarrow> (daemon_error, string) result" where
  "get_header hdr key = (case hdr key of Some v \<Rightarrow> Ok v | None \<Rightarrow> Err MissingHeader)"

definition signed_headers_of :: "string \<Rightarrow> (string \<Rightarrow> string option) \<Rightarrow> (daemon_error, signed_headers) result" where
  "signed_headers_of own hdr =
     rbind (get_header hdr ''x-volt-node'') (\<lambda>node_id.
       if node_id \<noteq> own then Err WrongNode
       else rbind (get_header hdr ''x-volt-timestamp'') (\<lambda>ts.
         case parse_i64 ts of
           None \<Rightarrow> Err BadTimestamp
         | Some timestamp \<Rightarrow>
             rbind (get_header hdr ''x-volt-nonce'') (\<lambda>nonce.
             rbind (get_header hdr ''x-volt-signature'') (\<lambda>signature.
               Ok \<lparr>sh_node_id = node_id, sh_timestamp = timestamp, sh_nonce = nonce, sh_signature = signature\<rparr>))))"

definition authenticated ::
  "crypto \<Rightarrow> (nonce_store \<Rightarrow> int \<Rightarrow> bool) \<Rightarrow> string \<Rightarrow> string \<Rightarrow> nonce_store \<Rightarrow> (string \<Rightarrow> string option) \<Rightarrow>
     string \<Rightarrow> string \<Rightarrow> string \<Rightarrow> int \<Rightarrow> nonce_store \<times> (daemon_error, unit) result" where
  "authenticated cr cas secret own st hdr method_name path body now =
     (case signed_headers_of own hdr of
        Err e \<Rightarrow> (st, Err e)
      | Ok hs \<Rightarrow>
          (case verify cr secret method_name path body hs now of
             Err e \<Rightarrow> (st, Err (Rejected e))
           | Ok _ \<Rightarrow>
               let (st', replay) = check_and_insert (cas st now) st (sh_node_id hs) (sh_nonce hs) (sh_timestamp hs) now
               in (st', if replay then Err ReplayedRequest else Ok ())))"

lemma sat_window: "\<bar>sat_sub now t\<bar> \<le> 90 \<Longrightarrow> in_window now t"
  by (auto simp: sat_sub_def sat_i64_def i64_bounds abs_if in_window_def MAX_CLOCK_SKEW_SECS_def split: if_splits)

lemma signed_headers_node: "signed_headers_of own hdr = Ok hs \<Longrightarrow> sh_node_id hs = own"
  by (auto simp: signed_headers_of_def rbind_Ok_iff split: if_splits option.splits)

lemma authenticated_Ok:
  assumes ok: "authenticated cr cas secret own st hdr m p body now = (st', Ok ())"
    and hs: "signed_headers_of own hdr = Ok hs"
  shows "in_window now (sh_timestamp hs)"
    "agent_shown cas own st (sh_nonce hs) (sh_timestamp hs) now = (st', True)"
proof -
  have v: "verify cr secret m p body hs now = Ok ()"
    using ok hs by (auto simp: authenticated_def split: sum.splits prod.splits)
  show "in_window now (sh_timestamp hs)" using v sat_window unfolding verify_iff by blast
  show "agent_shown cas own st (sh_nonce hs) (sh_timestamp hs) now = (st', True)"
    using ok hs v signed_headers_node [OF hs]
    by (auto simp: authenticated_def agent_shown_def split: prod.splits if_splits)
qed

text \<open>
  C1: A request that the agent has accepted is never accepted again, at any later time and after any
  other verified traffic, as long as the ledger stays below its cap and the nonce was signed once.
\<close>
theorem agent_request_accepted_once:
  assumes wf: "agent_wf st" and ok: "authenticated cr cas secret own st hdr m p body now = (st1, Ok ())"
    and hs: "signed_headers_of own hdr = Ok hs"
    and tr: "traffic (agent_shown cas own) agent_room (sh_nonce hs) (sh_timestamp hs) now st1 now' st2"
    and later: "now' \<le> now2"
  shows "snd (authenticated cr cas secret own st2 hdr m p body now2) \<noteq> Ok ()"
proof
  assume again: "snd (authenticated cr cas secret own st2 hdr m p body now2) = Ok ()"
  let ?n = "sh_nonce hs" and ?t = "sh_timestamp hs"
  note first = authenticated_Ok [OF ok hs]
  obtain st3 where "authenticated cr cas secret own st2 hdr m p body now2 = (st3, Ok ())"
    using again by (metis prod.collapse)
  note second = authenticated_Ok [OF this hs]
  have "\<not> snd (agent_shown cas own st2 ?n ?t now2)"
    by (rule agent.replay_refused [OF wf first(1) _ later second(1)]) (use tr first(2) in simp)
  with second(2) show False by simp
qed

text \<open>
  The panel's cache refuses a heartbeat whose nonce it has already accepted, whatever verified
  traffic came in between, as long as the cache stays below its cap.
\<close>
theorem panel_nonce_once:
  assumes "hm_wf m" "in_window now T"
    "traffic panel_shown panel_room (node, nonce) T now (fst (use_once NONCE_CACHE_CAP m node nonce T)) now' m'"
    "now' \<le> now2" "in_window now2 T"
  shows "\<not> snd (use_once NONCE_CACHE_CAP m' node nonce T)"
  using panel.replay_refused [OF assms(1,2), of "(node, nonce)" now' m' now2] assms(3-5)
  by (simp add: panel_shown_def)

section \<open>Restarts\<close>

definition marks_wf :: "nonce_store \<Rightarrow> bool" where
  "marks_wf st \<longleftrightarrow> hm_wf (ns_watermarks st)"

lemma accepted_below_mark:
  assumes "check_and_insert c st node nonce ts now = (st', False)"
  shows "\<exists>w. hm_get (ns_watermarks st') node = Some w \<and> ts \<le> w"
  using assms by (auto simp: check_and_insert_def Let_def split: option.splits if_splits)

lemma marks_grow:
  assumes "hm_get (ns_watermarks st) node = Some w"
  shows "\<exists>w'. hm_get (ns_watermarks (fst (check_and_insert c st n k ts now))) node = Some w' \<and> w \<le> w'"
  using assms by (auto simp: check_and_insert_def Let_def split: option.splits if_splits)

lemma foldl_insert_get:
  "hm_wf m \<Longrightarrow> hm_get (foldl (\<lambda>w (k, v). hm_insert k v w) acc m) k = (case hm_get m k of Some v \<Rightarrow> Some v | None \<Rightarrow> hm_get acc k)"
proof (induction m arbitrary: acc)
  case (Cons e m)
  obtain a b where e: "e = (a, b)" by fastforce
  have "hm_wf m" "hm_get m a = None" using Cons.prems e by (auto simp: hm_wf_def hm_get_def map_of_eq_None_iff)
  moreover have "hm_get (e # m) k = (if k = a then Some b else hm_get m k)" by (simp add: hm_get_def e)
  ultimately show ?case using Cons.IH [of "hm_insert a b acc"] e by (auto split: option.splits)
qed simp

text \<open>
  The persisted watermarks carry replay protection over a restart: a request accepted at \<open>ts\<close>
  before the marks were written is refused by the restarted agent once any request of the node at
  least five seconds newer had been accepted; its nonce is no longer known.
\<close>
theorem restart_replay_refused:
  assumes acc: "check_and_insert c st node nonce ts now = (st1, False)"
    and newer: "check_and_insert c' st1 node nonce' ts' now' = (st2, False)" "ts + 5 \<le> ts'"
    and r: "in_i64 ts" "in_i64 (ts + 5)" and wf: "marks_wf st"
  shows "snd (check_and_insert c'' (nonce_store_new (Some (persist st2))) node nonce ts now'')"
proof -
  obtain w where w: "hm_get (ns_watermarks st2) node = Some w" "ts' \<le> w"
    using accepted_below_mark [OF newer(1)] by blast
  have "hm_wf (ns_watermarks st1)" using acc wf
    by (auto simp: check_and_insert_def Let_def marks_wf_def split: option.splits if_splits)
  then have "hm_wf (ns_watermarks st2)" using newer(1)
    by (auto simp: check_and_insert_def Let_def split: option.splits if_splits)
  then have "hm_get (ns_watermarks (nonce_store_new (Some (persist st2)))) node = Some w"
    using w(1) by (simp add: nonce_store_new_def persist_def foldl_insert_get)
  moreover have "sat_add ts REPLAY_WATERMARK_GRACE_SECS \<le> w"
    using newer(2) w(2) r by (simp add: sat_add_def REPLAY_WATERMARK_GRACE_SECS_def)
  ultimately show ?thesis by (simp add: check_and_insert_def Let_def)
qed

text \<open>
  The mark is consulted while the agent runs, too: a request with a fresh nonce that is five seconds
  older than the newest accepted one is refused, restart or not.
\<close>

lemma live_mark_refuses_fresh:
  assumes "hm_get (ns_watermarks st) node = Some w" "sat_add ts 5 \<le> w"
  shows "snd (check_and_insert c st node nonce ts now)"
  using assms by (simp add: check_and_insert_def Let_def REPLAY_WATERMARK_GRACE_SECS_def)

section \<open>Bounded memory\<close>

lemma compact_length:
  assumes "hm_wf m" "cap < length m"
  shows "length (compact cap m) + max (cap div 4) (length m - cap) \<le> length m"
proof -
  let ?r = "max (cap div 4) (length m - cap)" and ?keep = "map fst (drop (max (cap div 4) (length m - cap)) (sort_key snd m))"
  have "map fst (hm_retain (\<lambda>k _. k \<in> set ?keep) m) = filter (\<lambda>k. k \<in> set ?keep) (map fst m)"
    by (simp add: hm_retain_def filter_map comp_def)
  moreover have "distinct (map fst m)" using assms(1) by (simp add: hm_wf_def)
  ultimately have "length (hm_retain (\<lambda>k _. k \<in> set ?keep) m) = card (set (filter (\<lambda>k. k \<in> set ?keep) (map fst m)))"
    by (metis distinct_card distinct_filter length_map)
  also have "\<dots> \<le> card (set ?keep)" by (rule card_mono) auto
  also have "\<dots> \<le> length ?keep" by (rule card_length)
  finally have "length (compact cap m) \<le> length m - ?r" using assms(2) by (simp add: compact_def RETIRE_FRACTION_def Let_def)
  moreover have "?r \<le> length m" using assms(2) by auto
  ultimately show ?thesis by simp
qed

lemma insert_compact_bounded:
  assumes "hm_wf m" "8 \<le> cap" "length m \<le> cap"
  shows "length (hm_insert k v (if cap < length (hm_insert k v (hm_retain P m))
      then compact cap (hm_insert k v (hm_retain P m)) else hm_insert k v (hm_retain P m))) \<le> cap"
proof -
  let ?m = "hm_insert k v (hm_retain P m)"
  have l: "length ?m \<le> cap + 1" using length_hm_insert [of k v "hm_retain P m"] hm_retain_length [of P m] assms(3)
    by (auto split: if_splits)
  show ?thesis
  proof (cases "cap < length ?m")
    case True
    have "length (compact cap ?m) + max (cap div 4) (length ?m - cap) \<le> length ?m"
      using compact_length [OF _ True] assms(1) by simp
    moreover have "2 \<le> cap div 4" using assms(2) by simp
    ultimately have "length (compact cap ?m) + 2 \<le> length ?m" by linarith
    then show ?thesis using True l length_hm_insert [of k v "compact cap ?m"] by (auto split: if_splits)
  next
    case False
    then show ?thesis using length_hm_insert [of k v ?m] by simp
  qed
qed

text \<open>
  Neither end's table of nonces ever exceeds its cap, however many distinct nonces a flood of
  verified requests carries.
\<close>
theorem nonce_tables_bounded:
  assumes "hm_wf m" "8 \<le> cap" "length m \<le> cap"
    "agent_wf st" "8 \<le> ns_cap st" "length (ns_seen st) \<le> ns_cap st"
  shows "length (fst (use_once cap m node nonce t)) \<le> cap
    \<and> length (ns_seen (fst (check_and_insert c st node nonce t now))) \<le> ns_cap st"
proof -
  have 1: "length (fst (use_once cap m node nonce t)) \<le> cap"
    using insert_compact_bounded [OF assms(1-3)] by (simp add: use_once_def prune_nonces_def Let_def)
  obtain P where "ns_seen (fst (check_and_insert c st node nonce t now)) =
       (let m = hm_insert (nonce_key node nonce) t (hm_retain P (ns_seen st)) in
        hm_insert (nonce_key node nonce) t (if ns_cap st < length m then compact (ns_cap st) m else m))"
    by (rule check_and_insert_effect [of c st node nonce t now])
  then show ?thesis using 1 insert_compact_bounded [of "ns_seen st" "ns_cap st"] assms(4-6) by (simp add: agent_wf_def Let_def)
qed

section \<open>Witnesses\<close>

definition wstore :: nonce_store where
  "wstore = nonce_store_new None"

definition wheaders :: "string \<Rightarrow> string option" where
  "wheaders = [''x-volt-node'' \<mapsto> ''id'', ''x-volt-timestamp'' \<mapsto> ''7'', ''x-volt-nonce'' \<mapsto> ''n'',
     ''x-volt-signature'' \<mapsto> hex64]"

lemma wstore_wf: "agent_wf wstore" "marks_wf wstore"
  by (simp_all add: agent_wf_def marks_wf_def wstore_def nonce_store_new_def)

lemma wheaders_parse:
  "signed_headers_of ''id'' wheaders = Ok \<lparr>sh_node_id = ''id'', sh_timestamp = 7, sh_nonce = ''n'', sh_signature = hex64\<rparr>"
  by (simp add: signed_headers_of_def get_header_def wheaders_def parse_i64_def in_i64_def i64_bounds is_ascii_digit_def)

lemma wverify:
  "verify wcrypto ''s'' ''GET'' ''/v1'' [] \<lparr>sh_node_id = ''id'', sh_timestamp = 7, sh_nonce = ''n'', sh_signature = hex64\<rparr> 10 = Ok ()"
  by (simp add: verify_iff wcrypto_def hex64_def sat_sub_def sat_i64_def i64_bounds)

definition wstore1 :: nonce_store where
  "wstore1 = wstore\<lparr>ns_seen := [(nonce_key ''id'' ''n'', 7)], ns_watermarks := [(''id'', 7)]\<rparr>"

lemmas store_witness = wstore_def nonce_store_new_def NONCE_CACHE_CAP_def NONCE_PRUNE_INTERVAL_SECS_def sat_sub_def sat_add_def
  sat_i64_def i64_bounds REPLAY_WATERMARK_GRACE_SECS_def hm_insert_def hm_remove_def hm_get_def

lemma wfirst: "check_and_insert True wstore ''id'' ''n'' 7 10 = (wstore1, False)"
  by (simp add: check_and_insert_def wstore1_def store_witness)

theorem agent_request_accepted_once_witness:
  "\<exists>st1. authenticated wcrypto (\<lambda>_ _. True) ''s'' ''id'' wstore wheaders ''GET'' ''/v1'' [] 10 = (st1, Ok ())
     \<and> snd (authenticated wcrypto (\<lambda>_ _. True) ''s'' ''id'' st1 wheaders ''GET'' ''/v1'' [] 20) \<noteq> Ok ()"
proof -
  have ok: "authenticated wcrypto (\<lambda>_ _. True) ''s'' ''id'' wstore wheaders ''GET'' ''/v1'' [] 10 = (wstore1, Ok ())"
    by (simp add: authenticated_def wheaders_parse wverify wfirst)
  from agent_request_accepted_once [OF wstore_wf(1) ok wheaders_parse traffic_none, of 20] ok show ?thesis by auto
qed

theorem panel_nonce_once_witness: "\<not> snd (use_once NONCE_CACHE_CAP [((''id'', ''n''), 7)] ''id'' ''n'' 7)"
proof -
  have eq: "fst (use_once NONCE_CACHE_CAP [] ''id'' ''n'' 7) = [((''id'', ''n''), 7)]"
    by (simp add: use_once_def Let_def prune_nonces_def hm_retain_def hm_insert_def hm_remove_def NONCE_CACHE_CAP_def)
  have w: "in_window 10 7" "in_window 20 7" by (simp_all add: in_window_def MAX_CLOCK_SKEW_SECS_def)
  show ?thesis
    by (rule panel_nonce_once [OF hm_wf_nil w(1) _ _ w(2), of _ _ 10]) (simp_all add: eq traffic_none)
qed

theorem restart_replay_refused_witness:
  "\<exists>st2. snd (check_and_insert True (nonce_store_new (Some (persist st2))) ''id'' ''n'' 7 30)"
proof -
  have "snd (check_and_insert True wstore1 ''id'' ''m'' 12 15) = False"
    by (simp add: check_and_insert_def wstore1_def store_witness nonce_key_def)
  then obtain st2 where 2: "check_and_insert True wstore1 ''id'' ''m'' 12 15 = (st2, False)"
    by (metis prod.collapse)
  from restart_replay_refused [OF wfirst 2 _ _ _ wstore_wf(2)] show ?thesis
    by (auto simp: in_i64_def i64_bounds)
qed

theorem nonce_tables_bounded_witness:
  "length (fst (use_once 8 [] ''id'' ''n'' 7)) \<le> 8"
proof -
  have "8 \<le> ns_cap wstore" "length (ns_seen wstore) \<le> ns_cap wstore"
    by (simp_all add: wstore_def nonce_store_new_def NONCE_CACHE_CAP_def)
  from nonce_tables_bounded [OF hm_wf_nil _ _ wstore_wf(1) this, of 8] show ?thesis by simp
qed

end
