(* ===== verification/Nodes.thy ===== *)
theory Nodes
  imports Store Complex_Main
begin

text \<open>
  Execution nodes (\<open>src/src/nodes.rs\<close>): enrolment behind the fingerprint gate, heartbeats and the
  cadence learned from them, capacity reservations and placement, and the cordon/drain state. The
  URL parser, the random tokens and the rounding of \<open>f64\<close> are parameters; a call reads the clock once.
\<close>

section \<open>State\<close>

record capacity =
  memory_total :: nat
  memory_used :: nat
  disk_total :: nat
  disk_used :: nat
  cpu_percent :: real
  servers_running :: nat

record heartbeat_msg =
  hb_version :: string
  hb_hostname :: string
  hb_os :: string
  hb_arch :: string
  hb_capacity :: capacity
  hb_fingerprint :: string

record node =
  n_id :: int
  n_uuid :: string
  n_name :: string
  n_public_url :: string
  n_secret :: string
  n_token :: "string option"
  n_enrolled :: bool
  n_enabled :: bool
  n_maintenance :: bool
  n_schedulable :: bool
  n_location :: string
  n_tags :: "string list"
  n_memory_limit_mb :: int
  n_disk_limit_mb :: int
  n_cpu_limit_percent :: int
  n_memory_overallocate :: int
  n_disk_overallocate :: int
  n_version :: string
  n_hostname :: string
  n_os :: string
  n_arch :: string
  n_capacity :: capacity
  n_last_heartbeat :: "instant option"
  n_last_error :: string
  n_created_at :: instant
  n_updated_at :: instant
  n_fingerprint :: string
  n_expected :: string
  n_drain_mode :: string
  n_drain_reason :: string
  n_drain_deadline :: "instant option"

record reservation =
  r_id :: int
  r_node :: int
  r_memory :: int
  r_disk :: int
  r_until :: instant
  r_created :: instant

record node_event =
  ev_id :: int
  ev_node :: int
  ev_level :: string
  ev_kind :: string
  ev_message :: string
  ev_created :: instant

text \<open>\<open>nd_cadence\<close> is the in-memory \<open>HEARTBEAT_CADENCE\<close>; \<open>nd_db\<close> holds the servers table.\<close>

record ndb =
  nd_nodes :: "node list"
  nd_seq :: int
  nd_reservations :: "reservation list"
  nd_res_seq :: int
  nd_events :: "node_event list"
  nd_event_seq :: int
  nd_cadence :: "(int, int) hmap"
  nd_db :: db

datatype node_error =
    NodeNotFound | InvalidUrl | BadScheme | NoHost | InvalidFingerprint | BadToken | NotEnrolled
  | NegativeLimit | RenameBlocked | NodeHasServers | NodeConstraint | NoCapacity | SumOverflow

definition DEFAULT_ONLINE_WINDOW_SECS :: int where "DEFAULT_ONLINE_WINDOW_SECS = 45"
definition MIN_RESERVATION_TTL_SECS :: int where "MIN_RESERVATION_TTL_SECS = 120"

definition nsecs :: "int \<Rightarrow> instant" where "nsecs n = n * 10 ^ 9"

definition online_window_secs :: "ndb \<Rightarrow> int \<Rightarrow> int" where
  "online_window_secs d i =
     (let observed = (case hm_get (nd_cadence d) i of Some g \<Rightarrow> g | None \<Rightarrow> 0) in
      if 0 < observed then clamp_to 30 900 (observed * 3) else DEFAULT_ONLINE_WINDOW_SECS)"

definition reservation_ttl_secs :: "ndb \<Rightarrow> int \<Rightarrow> int" where
  "reservation_ttl_secs d i = max (sat_mul (online_window_secs d i) 2) MIN_RESERVATION_TTL_SECS"

definition online :: "instant \<Rightarrow> ndb \<Rightarrow> node \<Rightarrow> bool" where
  "online now d n \<longleftrightarrow> n_enabled n \<and> n_enrolled n \<and>
     (case n_last_heartbeat n of
        Some t \<Rightarrow> now - nsecs (online_window_secs d (n_id n)) < t
      | None \<Rightarrow> False)"

text \<open>Integer division of the source truncates towards zero; \<open>100 + overallocate\<close> wraps.\<close>

definition div_trunc :: "int \<Rightarrow> int \<Rightarrow> int" where
  "div_trunc a b = sgn a * sgn b * (\<bar>a\<bar> div \<bar>b\<bar>)"

definition available :: "int \<Rightarrow> int \<Rightarrow> nat \<Rightarrow> nat \<Rightarrow> int" where
  "available limit_mb over tot used =
     (let hard = (if 0 < limit_mb then limit_mb else int (tot div 1048576));
          allowed = div_trunc (sat_mul hard (wrap_i64 (100 + over))) 100
      in sat_sub allowed (int (used div 1048576)))"

definition available_memory_mb :: "node \<Rightarrow> int" where
  "available_memory_mb n = available (n_memory_limit_mb n) (n_memory_overallocate n)
     (memory_total (n_capacity n)) (memory_used (n_capacity n))"

definition available_disk_mb :: "node \<Rightarrow> int" where
  "available_disk_mb n = available (n_disk_limit_mb n) (n_disk_overallocate n)
     (disk_total (n_capacity n)) (disk_used (n_capacity n))"

section \<open>Registry\<close>

type_synonym url_parser = "string \<Rightarrow> (string \<times> string option) option"

definition trim_end_slashes :: "string \<Rightarrow> string" where
  "trim_end_slashes s = rev (dropWhile (\<lambda>c. c = CHR ''/'') (rev s))"

definition validate_public_url :: "url_parser \<Rightarrow> string \<Rightarrow> (node_error, string) result" where
  "validate_public_url parse raw =
     (let trimmed = trim_end_slashes raw in
      case parse trimmed of
        None \<Rightarrow> Err InvalidUrl
      | Some (scheme, host) \<Rightarrow>
          if scheme \<noteq> ''http'' \<and> scheme \<noteq> ''https'' then Err BadScheme
          else if host = None then Err NoHost
          else Ok trimmed)"

definition empty_capacity :: capacity where
  "empty_capacity = \<lparr>memory_total = 0, memory_used = 0, disk_total = 0, disk_used = 0, cpu_percent = 0, servers_running = 0\<rparr>"

definition create_node ::
  "url_parser \<Rightarrow> instant \<Rightarrow> string \<Rightarrow> string \<Rightarrow> string \<Rightarrow> ndb \<Rightarrow> string \<Rightarrow> string \<Rightarrow> string \<Rightarrow> string list
     \<Rightarrow> (node_error, ndb \<times> node) result" where
  "create_node parse now uuid secret token d name public_url location tags =
     rbind (validate_public_url parse public_url) (\<lambda>url.
       if \<exists>n\<in>set (nd_nodes d). n_uuid n = uuid \<or> n_name n = name \<or> n_token n = Some token then Err NodeConstraint
       else let n = \<lparr>n_id = nd_seq d + 1, n_uuid = uuid, n_name = name, n_public_url = url, n_secret = secret,
                  n_token = Some token, n_enrolled = False, n_enabled = True, n_maintenance = False,
                  n_schedulable = True, n_location = location, n_tags = tags, n_memory_limit_mb = 0,
                  n_disk_limit_mb = 0, n_cpu_limit_percent = 0, n_memory_overallocate = 0, n_disk_overallocate = 0,
                  n_version = [], n_hostname = [], n_os = [], n_arch = [], n_capacity = empty_capacity,
                  n_last_heartbeat = None, n_last_error = [], n_created_at = now, n_updated_at = now,
                  n_fingerprint = [], n_expected = [], n_drain_mode = [], n_drain_reason = [], n_drain_deadline = None\<rparr>
            in Ok (d\<lparr>nd_nodes := nd_nodes d @ [n], nd_seq := nd_seq d + 1\<rparr>, n))"

definition list_nodes :: "ndb \<Rightarrow> node list" where
  "list_nodes d = sort_key n_name (nd_nodes d)"

definition find_node :: "(node \<Rightarrow> bool) \<Rightarrow> ndb \<Rightarrow> (node_error, node) result" where
  "find_node P d = (case find P (nd_nodes d) of Some n \<Rightarrow> Ok n | None \<Rightarrow> Err NodeNotFound)"

definition get_node :: "ndb \<Rightarrow> int \<Rightarrow> (node_error, node) result" where
  "get_node d i = find_node (\<lambda>n. n_id n = i) d"

definition get_node_by_uuid :: "ndb \<Rightarrow> string \<Rightarrow> (node_error, node) result" where
  "get_node_by_uuid d u = find_node (\<lambda>n. n_uuid n = u) d"

definition get_node_by_name :: "ndb \<Rightarrow> string \<Rightarrow> (node_error, node) result" where
  "get_node_by_name d nm = find_node (\<lambda>n. n_name n = nm) d"

definition on_nodes :: "(node \<Rightarrow> bool) \<Rightarrow> (node \<Rightarrow> node) \<Rightarrow> ndb \<Rightarrow> ndb" where
  "on_nodes P f d = d\<lparr>nd_nodes := update_rows P f (nd_nodes d)\<rparr>"

text \<open>An \<open>UPDATE\<close> that reports an error when it changed no row.\<close>

definition update_some :: "node_error \<Rightarrow> (node \<Rightarrow> bool) \<Rightarrow> (node \<Rightarrow> node) \<Rightarrow> ndb \<Rightarrow> (node_error, ndb) result" where
  "update_some e P f d = (if exists_row P (nd_nodes d) then Ok (on_nodes P f d) else Err e)"

definition normalize_fingerprint :: "string \<Rightarrow> string" where
  "normalize_fingerprint raw = map to_ascii_lower (filter is_ascii_alphanumeric raw)"

definition is_fingerprint :: "string \<Rightarrow> bool" where
  "is_fingerprint s \<longleftrightarrow> length s = 64 \<and> list_all is_ascii_hexdigit s"

definition pinned_fingerprint :: "string \<Rightarrow> (node_error, string) result" where
  "pinned_fingerprint raw =
     (let fp = normalize_fingerprint raw in
      if fp = [] then Ok [] else if is_fingerprint fp then Ok fp else Err InvalidFingerprint)"

definition enroll_gate :: "string \<Rightarrow> string \<Rightarrow> node \<Rightarrow> bool" where
  "enroll_gate token fp n \<longleftrightarrow> n_token n = Some token \<and> \<not> n_enrolled n \<and>
     ((n_fingerprint n = [] \<and> n_expected n = []) \<or> n_fingerprint n = fp \<or> (n_expected n \<noteq> [] \<and> n_expected n = fp))"

definition enroll :: "instant \<Rightarrow> string \<Rightarrow> ndb \<Rightarrow> string \<Rightarrow> heartbeat_msg \<Rightarrow> (node_error, ndb \<times> node) result" where
  "enroll now secret d token hb =
     rbind (pinned_fingerprint (hb_fingerprint hb)) (\<lambda>fp.
       let f = (\<lambda>n. n\<lparr>n_enrolled := True, n_token := None, n_secret := secret, n_version := hb_version hb,
                   n_hostname := hb_hostname hb, n_os := hb_os hb, n_arch := hb_arch hb, n_capacity := hb_capacity hb,
                   n_last_heartbeat := Some now, n_last_error := [], n_fingerprint := fp, n_updated_at := now\<rparr>)
       in case find (enroll_gate token fp) (nd_nodes d) of
            Some n \<Rightarrow> Ok (on_nodes (enroll_gate token fp) f d, f n)
          | None \<Rightarrow> Err BadToken)"

definition set_expected_fingerprint :: "instant \<Rightarrow> ndb \<Rightarrow> int \<Rightarrow> string option \<Rightarrow> (node_error, ndb) result" where
  "set_expected_fingerprint now d i expected =
     rbind (case expected of None \<Rightarrow> Ok [] | Some raw \<Rightarrow> if raw = [] then Ok [] else pinned_fingerprint raw) (\<lambda>fp.
       update_some NodeNotFound (\<lambda>n. n_id n = i) (\<lambda>n. n\<lparr>n_expected := fp, n_updated_at := now\<rparr>) d)"

definition expire_stale_reservations :: "instant \<Rightarrow> ndb \<Rightarrow> ndb" where
  "expire_stale_reservations now d = d\<lparr>nd_reservations := filter (\<lambda>r. \<not> r_until r < now) (nd_reservations d)\<rparr>"

definition heartbeat :: "instant \<Rightarrow> ndb \<Rightarrow> string \<Rightarrow> heartbeat_msg \<Rightarrow> ndb \<times> (node_error, unit) result" where
  "heartbeat now d uuid hb =
     (let d1 = expire_stale_reservations now d;
          prev = find (\<lambda>n. n_uuid n = uuid) (nd_nodes d1)
      in case update_some NotEnrolled (\<lambda>n. n_uuid n = uuid \<and> n_enrolled n)
             (\<lambda>n. n\<lparr>n_version := hb_version hb, n_hostname := hb_hostname hb, n_os := hb_os hb, n_arch := hb_arch hb,
                  n_capacity := hb_capacity hb, n_last_heartbeat := Some now, n_last_error := [], n_updated_at := now\<rparr>) d1 of
           Err e \<Rightarrow> (d1, Err e)
         | Ok d2 \<Rightarrow>
             (case prev of
                Some n \<Rightarrow>
                  (case n_last_heartbeat n of
                     Some t \<Rightarrow>
                       let gap = div_trunc (now - t) (10 ^ 9)
                       in (if 5 \<le> gap \<and> gap \<le> 3600 then d2\<lparr>nd_cadence := hm_insert (n_id n) gap (nd_cadence d2)\<rparr> else d2, Ok ())
                   | None \<Rightarrow> (d2, Ok ()))
              | None \<Rightarrow> (d2, Ok ())))"

definition assigned_servers :: "ndb \<Rightarrow> string \<Rightarrow> nat" where
  "assigned_servers d nm = count_rows (\<lambda>s. s_node s = nm \<and> \<not> s_deleted s) (servers (nd_db d))"

definition update_node ::
  "url_parser \<Rightarrow> instant \<Rightarrow> ndb \<Rightarrow> int \<Rightarrow> string \<Rightarrow> string \<Rightarrow> bool \<Rightarrow> bool \<Rightarrow> bool \<Rightarrow> string \<Rightarrow> string list
     \<Rightarrow> int \<Rightarrow> int \<Rightarrow> int \<Rightarrow> int \<Rightarrow> (node_error, ndb \<times> node) result" where
  "update_node parse now d i name public_url enabled maint sched location tags mem_limit disk_limit mem_over disk_over =
     (if mem_limit < 0 \<or> disk_limit < 0 \<or> mem_over < 0 \<or> disk_over < 0 then Err NegativeLimit
      else rbind (validate_public_url parse public_url) (\<lambda>url.
        rbind (get_node d i) (\<lambda>cur.
          if name \<noteq> n_name cur \<and> 0 < assigned_servers d (n_name cur) then Err RenameBlocked
          else if \<exists>n\<in>set (nd_nodes d). n_id n \<noteq> i \<and> n_name n = name then Err NodeConstraint
          else let f = (\<lambda>n. n\<lparr>n_name := name, n_public_url := url, n_enabled := enabled, n_maintenance := maint,
                      n_schedulable := sched, n_location := location, n_tags := tags, n_memory_limit_mb := mem_limit,
                      n_disk_limit_mb := disk_limit, n_memory_overallocate := mem_over, n_disk_overallocate := disk_over,
                      n_updated_at := now\<rparr>)
               in Ok (on_nodes (\<lambda>n. n_id n = i) f d, f cur))))"

definition rotate_secret :: "instant \<Rightarrow> string \<Rightarrow> string \<Rightarrow> ndb \<Rightarrow> int \<Rightarrow> (node_error, ndb \<times> string \<times> string) result" where
  "rotate_secret now secret token d i =
     (if \<not> exists_row (\<lambda>n. n_id n = i) (nd_nodes d) then Err NodeNotFound
      else if \<exists>n\<in>set (nd_nodes d). n_id n \<noteq> i \<and> n_token n = Some token then Err NodeConstraint
      else Ok (on_nodes (\<lambda>n. n_id n = i) (\<lambda>n. n\<lparr>n_secret := secret, n_token := Some token, n_enrolled := False,
                 n_last_heartbeat := None, n_updated_at := now\<rparr>) d, secret, token))"

definition regenerate_enrollment :: "instant \<Rightarrow> string \<Rightarrow> string \<Rightarrow> ndb \<Rightarrow> int \<Rightarrow> (node_error, ndb \<times> string) result" where
  "regenerate_enrollment now secret token d i =
     rbind (rotate_secret now secret token d i) (\<lambda>(d', _, tok). Ok (d', tok))"

definition set_tls_fingerprint :: "instant \<Rightarrow> ndb \<Rightarrow> string \<Rightarrow> string \<Rightarrow> (node_error, ndb) result" where
  "set_tls_fingerprint now d uuid raw =
     rbind (pinned_fingerprint raw) (\<lambda>fp.
       update_some NotEnrolled (\<lambda>n. n_uuid n = uuid \<and> n_enrolled n) (\<lambda>n. n\<lparr>n_fingerprint := fp, n_updated_at := now\<rparr>) d)"

definition set_error :: "instant \<Rightarrow> ndb \<Rightarrow> string \<Rightarrow> string \<Rightarrow> (node_error, ndb) result" where
  "set_error now d uuid e =
     update_some NotEnrolled (\<lambda>n. n_uuid n = uuid \<and> n_enrolled n) (\<lambda>n. n\<lparr>n_last_error := e, n_updated_at := now\<rparr>) d"

text \<open>Deleting a node cascades to its events and reservations.\<close>

definition delete_node :: "ndb \<Rightarrow> int \<Rightarrow> (node_error, ndb) result" where
  "delete_node d i =
     (case find (\<lambda>n. n_id n = i) (nd_nodes d) of
        Some n \<Rightarrow>
          if 0 < assigned_servers d (n_name n) then Err NodeHasServers
          else Ok (d\<lparr>nd_nodes := filter (\<lambda>n. n_id n \<noteq> i) (nd_nodes d),
                     nd_reservations := filter (\<lambda>r. r_node r \<noteq> i) (nd_reservations d),
                     nd_events := filter (\<lambda>e. ev_node e \<noteq> i) (nd_events d)\<rparr>)
      | None \<Rightarrow> Ok d)"

definition record_event :: "instant \<Rightarrow> ndb \<Rightarrow> int \<Rightarrow> string \<Rightarrow> string \<Rightarrow> string \<Rightarrow> (node_error, ndb) result" where
  "record_event now d i level kind msg =
     (if \<not> exists_row (\<lambda>n. n_id n = i) (nd_nodes d) then Err NodeConstraint
      else Ok (d\<lparr>nd_events := nd_events d @ [\<lparr>ev_id = nd_event_seq d + 1, ev_node = i, ev_level = level,
                   ev_kind = kind, ev_message = msg, ev_created = now\<rparr>], nd_event_seq := nd_event_seq d + 1\<rparr>))"

definition node_events :: "ndb \<Rightarrow> int \<Rightarrow> int \<Rightarrow> node_event list" where
  "node_events d i limit =
     take (nat (clamp_to 1 200 limit)) (rev (sort_key ev_id (filter (\<lambda>e. ev_node e = i) (nd_events d))))"

section \<open>Capacity reservations and placement\<close>

text \<open>
  SQLite's \<open>SUM\<close> raises an error when the integer sum leaves 64 bits; the placement then fails as a
  whole. \<open>live_sum\<close> is the mathematical sum over the claims of a node that have not lapsed.
\<close>

definition live_sum :: "(reservation \<Rightarrow> int) \<Rightarrow> instant \<Rightarrow> ndb \<Rightarrow> int \<Rightarrow> int" where
  "live_sum f now d i = sum_list (map f (filter (\<lambda>r. r_node r = i \<and> now < r_until r) (nd_reservations d)))"

definition reserved_usage :: "instant \<Rightarrow> ndb \<Rightarrow> int \<Rightarrow> (node_error, int \<times> int) result" where
  "reserved_usage now d i =
     (let mem = live_sum r_memory now d i; disk = live_sum r_disk now d i in
      if in_i64 mem \<and> in_i64 disk then Ok (mem, disk) else Err SumOverflow)"

definition placeable :: "instant \<Rightarrow> ndb \<Rightarrow> string list \<Rightarrow> string option \<Rightarrow> node \<Rightarrow> bool" where
  "placeable now d required_tags location n \<longleftrightarrow>
     online now d n \<and> n_enabled n \<and> n_schedulable n \<and> \<not> n_maintenance n \<and> n_drain_mode n = []
     \<and> (case location of Some loc \<Rightarrow> loc = [] \<or> n_location n = loc | None \<Rightarrow> True)
     \<and> list_all (\<lambda>tag. list_ex (\<lambda>t. t = tag) (n_tags n)) required_tags"

fun candidates ::
  "instant \<Rightarrow> ndb \<Rightarrow> int \<Rightarrow> int \<Rightarrow> string list \<Rightarrow> string option \<Rightarrow> node list \<Rightarrow> (node_error, node list) result" where
  "candidates now d mem disk tags location [] = Ok []"
| "candidates now d mem disk tags location (n # ns) =
     (if \<not> placeable now d tags location n then candidates now d mem disk tags location ns
      else rbind (reserved_usage now d (n_id n)) (\<lambda>(r_mem, r_disk).
        if sat_sub (available_memory_mb n) r_mem < mem then candidates now d mem disk tags location ns
        else if sat_sub (available_disk_mb n) r_disk < disk then candidates now d mem disk tags location ns
        else rbind (candidates now d mem disk tags location ns) (\<lambda>cs. Ok (n # cs))))"

text \<open>The load score in \<open>f64\<close>: \<open>rnd\<close> is the rounding of every conversion and operation.\<close>

definition score :: "(real \<Rightarrow> real) \<Rightarrow> node \<Rightarrow> real" where
  "score rnd n =
     (let c = n_capacity n in
      rnd (rnd (cpu_percent c
             + rnd (rnd (rnd (real (memory_used c)) / rnd (real (max (memory_total c) 1))) * 100))
           + rnd (rnd (real (servers_running c)) * 2)))"

definition pick_node_tx ::
  "(real \<Rightarrow> real) \<Rightarrow> instant \<Rightarrow> ndb \<Rightarrow> int \<Rightarrow> int \<Rightarrow> string list \<Rightarrow> string option \<Rightarrow> (node_error, node) result" where
  "pick_node_tx rnd now d mem disk tags location =
     rbind (candidates now d mem disk tags location (nd_nodes d)) (\<lambda>cs.
       case sort_key (score rnd) cs of [] \<Rightarrow> Err NoCapacity | n # _ \<Rightarrow> Ok n)"

definition select_for_server ::
  "(real \<Rightarrow> real) \<Rightarrow> instant \<Rightarrow> ndb \<Rightarrow> int \<Rightarrow> int \<Rightarrow> string list \<Rightarrow> string option \<Rightarrow> (node_error, ndb \<times> node) result" where
  "select_for_server rnd now d mem disk tags location =
     (let d1 = expire_stale_reservations now d in
      rbind (pick_node_tx rnd now d1 mem disk tags location) (\<lambda>n. Ok (d1, n)))"

definition reserve_capacity_tx ::
  "(real \<Rightarrow> real) \<Rightarrow> instant \<Rightarrow> ndb \<Rightarrow> int \<Rightarrow> int \<Rightarrow> string list \<Rightarrow> string option
     \<Rightarrow> (node_error, ndb \<times> node \<times> int) result" where
  "reserve_capacity_tx rnd now d mem disk tags location =
     (let d1 = expire_stale_reservations now d in
      rbind (pick_node_tx rnd now d1 mem disk tags location) (\<lambda>n.
        Ok (d1\<lparr>nd_reservations := nd_reservations d1 @
                 [\<lparr>r_id = nd_res_seq d1 + 1, r_node = n_id n, r_memory = mem, r_disk = disk,
                   r_until = now + nsecs (reservation_ttl_secs d1 (n_id n)), r_created = now\<rparr>],
               nd_res_seq := nd_res_seq d1 + 1\<rparr>, n, nd_res_seq d1 + 1)))"

definition release_reservation :: "ndb \<Rightarrow> int \<Rightarrow> ndb" where
  "release_reservation d i = d\<lparr>nd_reservations := filter (\<lambda>r. r_id r \<noteq> i) (nd_reservations d)\<rparr>"

definition port_available_on_node :: "ndb \<Rightarrow> string \<Rightarrow> int \<Rightarrow> bool" where
  "port_available_on_node d nm port \<longleftrightarrow>
     count_rows (\<lambda>s. s_node s = nm \<and> s_port s = Some port \<and> \<not> s_deleted s) (servers (nd_db d)) = 0"

section \<open>Cordon and drain\<close>

definition lift_drain :: "instant \<Rightarrow> node \<Rightarrow> node" where
  "lift_drain now n = n\<lparr>n_schedulable := True, n_maintenance := False, n_drain_mode := [], n_drain_reason := [],
     n_drain_deadline := None, n_updated_at := now\<rparr>"

definition set_drain :: "instant \<Rightarrow> ndb \<Rightarrow> int \<Rightarrow> string \<Rightarrow> string \<Rightarrow> instant option \<Rightarrow> (node_error, ndb \<times> nat) result" where
  "set_drain now d i mode reason deadline =
     rbind (update_some NodeNotFound (\<lambda>n. n_id n = i)
              (\<lambda>n. n\<lparr>n_schedulable := False, n_maintenance := True, n_drain_mode := mode, n_drain_reason := reason,
                   n_drain_deadline := deadline, n_updated_at := now\<rparr>) d) (\<lambda>d'.
       rbind (get_node d' i) (\<lambda>n. Ok (d', assigned_servers d' (n_name n))))"

definition clear_drain :: "instant \<Rightarrow> ndb \<Rightarrow> int \<Rightarrow> (node_error, ndb) result" where
  "clear_drain now d i = update_some NodeNotFound (\<lambda>n. n_id n = i) (lift_drain now) d"

definition drain_expired :: "instant \<Rightarrow> node \<Rightarrow> bool" where
  "drain_expired now n \<longleftrightarrow> n_drain_mode n \<noteq> [] \<and>
     (case n_drain_deadline n of Some t \<Rightarrow> t \<le> now | None \<Rightarrow> False)"

fun record_lifts :: "instant \<Rightarrow> ndb \<Rightarrow> node list \<Rightarrow> ndb \<times> (node_error, unit) result" where
  "record_lifts now d [] = (d, Ok ())"
| "record_lifts now d (n # ns) =
     (case record_event now d (n_id n) ''info'' ''drain_expired''
             ''drain deadline reached; drain lifted and scheduling restored'' of
        Err e \<Rightarrow> (d, Err e)
      | Ok d' \<Rightarrow> record_lifts now d' ns)"

definition clear_expired_drains :: "instant \<Rightarrow> ndb \<Rightarrow> ndb \<times> (node_error, node list) result" where
  "clear_expired_drains now d =
     (let expired = filter (drain_expired now) (nd_nodes d);
          (d', r) = record_lifts now (on_nodes (drain_expired now) (lift_drain now) d) expired
      in (d', case r of Err e \<Rightarrow> Err e | Ok _ \<Rightarrow> Ok expired))"

section \<open>Placement is correct\<close>

definition sums_fit :: "instant \<Rightarrow> ndb \<Rightarrow> bool" where
  "sums_fit now d \<longleftrightarrow> (\<forall>n\<in>set (nd_nodes d).
     in_i64 (live_sum r_memory now d (n_id n)) \<and> in_i64 (live_sum r_disk now d (n_id n)))"

definition eligible :: "instant \<Rightarrow> ndb \<Rightarrow> int \<Rightarrow> int \<Rightarrow> string list \<Rightarrow> string option \<Rightarrow> node \<Rightarrow> bool" where
  "eligible now d mem disk tags location n \<longleftrightarrow> placeable now d tags location n
     \<and> mem \<le> sat_sub (available_memory_mb n) (live_sum r_memory now d (n_id n))
     \<and> disk \<le> sat_sub (available_disk_mb n) (live_sum r_disk now d (n_id n))"

lemma candidates_filter:
  assumes "\<forall>n\<in>set ns. in_i64 (live_sum r_memory now d (n_id n)) \<and> in_i64 (live_sum r_disk now d (n_id n))"
  shows "candidates now d mem disk tags location ns = Ok (filter (eligible now d mem disk tags location) ns)"
  using assms by (induction ns) (auto simp: reserved_usage_def eligible_def Let_def)

lemma candidates_eligible:
  "candidates now d mem disk tags location ns = Ok cs \<Longrightarrow> n \<in> set cs \<Longrightarrow>
     n \<in> set ns \<and> eligible now d mem disk tags location n"
  by (induction ns arbitrary: cs)
     (auto simp: rbind_Ok_iff reserved_usage_def eligible_def Let_def split: if_splits)

lemma hd_sort_key_min:
  assumes "xs \<noteq> []"
  obtains y ys where "sort_key f xs = y # ys" "y \<in> set xs" "\<forall>z\<in>set xs. f y \<le> f z"
proof -
  obtain y ys where y: "sort_key f xs = y # ys" using assms by (metis set_empty set_sort neq_Nil_conv)
  have "set (y # ys) = set xs" by (metis y set_sort)
  moreover have "sorted (map f (y # ys))" by (metis y sorted_sort_key)
  ultimately have "y \<in> set xs" "\<forall>z\<in>set xs. f y \<le> f z" by (metis list.set_intros(1), metis (no_types, lifting) imageI list.set_map list.simps(9) order_refl set_ConsD sorted_simps(2))
  then show thesis by (rule that [OF y])
qed

lemma pick_node_Ok:
  assumes "pick_node_tx rnd now d mem disk tags location = Ok n"
  shows "n \<in> set (nd_nodes d) \<and> eligible now d mem disk tags location n"
proof -
  obtain cs where cs: "candidates now d mem disk tags location (nd_nodes d) = Ok cs"
    and n: "(case sort_key (score rnd) cs of [] \<Rightarrow> Err NoCapacity | n # _ \<Rightarrow> Ok n) = Ok n"
    using assms by (auto simp: pick_node_tx_def rbind_Ok_iff)
  then have "n \<in> set (sort_key (score rnd) cs)"
    by (metis (no_types, lifting) list.set_intros(1) list.simps(4,5) neq_Nil_conv sum.distinct(1) sum.inject(2))
  then have "n \<in> set cs" by simp
  with cs show ?thesis by (rule candidates_eligible)
qed

lemma pick_node_spec:
  assumes "sums_fit now d"
  shows "case pick_node_tx rnd now d mem disk tags location of
      Ok n \<Rightarrow> n \<in> set (nd_nodes d) \<and> eligible now d mem disk tags location n
        \<and> (\<forall>m\<in>set (nd_nodes d). eligible now d mem disk tags location m \<longrightarrow> score rnd n \<le> score rnd m)
    | Err e \<Rightarrow> e = NoCapacity \<and> (\<forall>m\<in>set (nd_nodes d). \<not> eligible now d mem disk tags location m)"
proof -
  let ?E = "filter (eligible now d mem disk tags location) (nd_nodes d)"
  have pick: "pick_node_tx rnd now d mem disk tags location =
      (case sort_key (score rnd) ?E of [] \<Rightarrow> Err NoCapacity | n # _ \<Rightarrow> Ok n)"
    using assms unfolding sums_fit_def by (simp add: pick_node_tx_def candidates_filter)
  show ?thesis
  proof (cases "?E = []")
    case True
    then show ?thesis using pick by (auto simp: filter_empty_conv)
  next
    case False
    then obtain y ys where "sort_key (score rnd) ?E = y # ys" "y \<in> set ?E" "\<forall>z\<in>set ?E. score rnd y \<le> score rnd z"
      by (rule hd_sort_key_min)
    then show ?thesis using pick by auto
  qed
qed

lemma live_sum_expire [simp]: "live_sum f now (expire_stale_reservations now d) i = live_sum f now d i"
proof -
  have "filter (\<lambda>r. r_node r = i \<and> now < r_until r) (filter (\<lambda>r. \<not> r_until r < now) (nd_reservations d))
      = filter (\<lambda>r. r_node r = i \<and> now < r_until r) (nd_reservations d)"
    unfolding filter_filter by (rule filter_cong) auto
  then show ?thesis by (simp add: live_sum_def expire_stale_reservations_def)
qed

lemma expire_frame [simp]:
  "nd_nodes (expire_stale_reservations now d) = nd_nodes d"
  "nd_cadence (expire_stale_reservations now d) = nd_cadence d"
  "nd_events (expire_stale_reservations now d) = nd_events d"
  "nd_db (expire_stale_reservations now d) = nd_db d"
  "nd_seq (expire_stale_reservations now d) = nd_seq d"
  by (simp_all add: expire_stale_reservations_def)

lemma online_window_expire [simp]: "online_window_secs (expire_stale_reservations now d) i = online_window_secs d i"
  by (simp add: online_window_secs_def)

lemma online_expire [simp]: "online t (expire_stale_reservations now d) n = online t d n"
  by (simp add: online_def split: option.splits)

lemma eligible_expire [simp]: "eligible now (expire_stale_reservations now d) = eligible now d"
  by (simp add: fun_eq_iff eligible_def placeable_def)

lemma sums_fit_expire [simp]: "sums_fit now (expire_stale_reservations now d) = sums_fit now d"
  by (simp add: sums_fit_def)

lemma ttl_pos: "0 < nsecs (reservation_ttl_secs d i)"
  by (simp add: nsecs_def reservation_ttl_secs_def MIN_RESERVATION_TTL_SECS_def)

lemma reserve_Ok:
  assumes "reserve_capacity_tx rnd now d mem disk tags location = Ok (d', n, rid)"
  shows "n \<in> set (nd_nodes d) \<and> eligible now d mem disk tags location n \<and> nd_nodes d' = nd_nodes d
    \<and> live_sum r_memory now d' i = live_sum r_memory now d i + (if i = n_id n then mem else 0)
    \<and> live_sum r_disk now d' i = live_sum r_disk now d i + (if i = n_id n then disk else 0)"
proof -
  let ?d1 = "expire_stale_reservations now d"
  obtain m where m: "pick_node_tx rnd now ?d1 mem disk tags location = Ok m"
    and d': "d' = ?d1\<lparr>nd_reservations := nd_reservations ?d1 @
       [\<lparr>r_id = nd_res_seq ?d1 + 1, r_node = n_id m, r_memory = mem, r_disk = disk,
         r_until = now + nsecs (reservation_ttl_secs ?d1 (n_id m)), r_created = now\<rparr>],
       nd_res_seq := nd_res_seq ?d1 + 1\<rparr>" and n: "n = m"
    using assms by (auto simp: reserve_capacity_tx_def Let_def rbind_Ok_iff)
  have sum: "live_sum f now d' i = live_sum f now ?d1 i + (if i = n_id m then
      f \<lparr>r_id = nd_res_seq ?d1 + 1, r_node = n_id m, r_memory = mem, r_disk = disk,
         r_until = now + nsecs (reservation_ttl_secs ?d1 (n_id m)), r_created = now\<rparr> else 0)" for f
    using ttl_pos [of ?d1 "n_id m"] by (simp add: d' live_sum_def)
  from pick_node_Ok [OF m] have "n \<in> set (nd_nodes d)" "eligible now d mem disk tags location n"
    by (simp_all add: n)
  moreover have "nd_nodes d' = nd_nodes d" by (simp add: d')
  ultimately show ?thesis unfolding sum by (simp add: n)
qed

text \<open>
  C16: placement. While the outstanding claims sum within 64 bits, a reservation goes to a node that
  is online, enabled, schedulable, out of maintenance and of drain, in the location, has the tags and
  enough unclaimed memory and disk, and has the least load score of all such nodes; it fails exactly
  when there is none. The dry run answers with the same node.
\<close>
theorem placement_correct:
  assumes "sums_fit now d"
  shows "(case reserve_capacity_tx rnd now d mem disk tags location of
      Ok (d', n, rid) \<Rightarrow> n \<in> set (nd_nodes d) \<and> eligible now d mem disk tags location n
        \<and> (\<forall>m\<in>set (nd_nodes d). eligible now d mem disk tags location m \<longrightarrow> score rnd n \<le> score rnd m)
        \<and> (\<exists>d2. select_for_server rnd now d mem disk tags location = Ok (d2, n))
    | Err e \<Rightarrow> e = NoCapacity \<and> (\<forall>m\<in>set (nd_nodes d). \<not> eligible now d mem disk tags location m)
        \<and> select_for_server rnd now d mem disk tags location = Err NoCapacity)"
  using pick_node_spec [where d = "expire_stale_reservations now d" and rnd = rnd and mem = mem and disk = disk
      and tags = tags and location = location and now = now] assms
  by (cases "pick_node_tx rnd now (expire_stale_reservations now d) mem disk tags location")
     (simp_all add: reserve_capacity_tx_def select_for_server_def Let_def)

section \<open>A burst of reservations\<close>

text \<open>The reservations of a burst, in order; a failed one rolls back.\<close>

fun reserve_run ::
  "(real \<Rightarrow> real) \<Rightarrow> ndb \<Rightarrow> (instant \<times> int \<times> int \<times> string list \<times> string option) list \<Rightarrow> ndb" where
  "reserve_run rnd d [] = d"
| "reserve_run rnd d ((now, mem, disk, tags, location) # rs) =
     reserve_run rnd (case reserve_capacity_tx rnd now d mem disk tags location of
        Ok (d', _, _) \<Rightarrow> d' | Err _ \<Rightarrow> d) rs"

definition within_capacity :: "instant \<Rightarrow> ndb \<Rightarrow> bool" where
  "within_capacity now d \<longleftrightarrow> (\<forall>n\<in>set (nd_nodes d).
     live_sum r_memory now d (n_id n) \<le> max 0 (available_memory_mb n)
     \<and> live_sum r_disk now d (n_id n) \<le> max 0 (available_disk_mb n))"

definition claims_nonneg :: "ndb \<Rightarrow> bool" where
  "claims_nonneg d \<longleftrightarrow> (\<forall>r\<in>set (nd_reservations d). 0 \<le> r_memory r \<and> 0 \<le> r_disk r)"

lemma sum_list_filter_mono:
  assumes "\<forall>x\<in>set xs. 0 \<le> (f x :: int)" "\<And>x. P x \<Longrightarrow> Q x"
  shows "sum_list (map f (filter P xs)) \<le> sum_list (map f (filter Q xs))"
  using assms by (induction xs) (auto intro: add_increasing)

lemma within_capacity_later:
  assumes "within_capacity t d" "claims_nonneg d" "t \<le> t'"
  shows "within_capacity t' d"
proof -
  have "live_sum f t' d i \<le> live_sum f t d i" if "\<forall>r\<in>set (nd_reservations d). 0 \<le> f r" for f i
    unfolding live_sum_def using assms(3) by (intro sum_list_filter_mono that) auto
  then show ?thesis using assms(1,2) unfolding within_capacity_def claims_nonneg_def
    by (meson order_trans)
qed

lemma le_sat_sub: "0 \<le> m \<Longrightarrow> m \<le> sat_sub a b \<Longrightarrow> b + m \<le> a"
  by (auto simp: sat_simps sat_i64_def i64_bounds split: if_splits)

lemma reserve_within_capacity:
  assumes "reserve_capacity_tx rnd now d mem disk tags location = Ok (d', n, rid)"
    and "within_capacity now d" "claims_nonneg d" "0 \<le> mem" "0 \<le> disk"
    and "distinct (map n_id (nd_nodes d))"
  shows "within_capacity now d' \<and> claims_nonneg d' \<and> nd_nodes d' = nd_nodes d"
proof -
  note res = reserve_Ok [OF assms(1)]
  have n: "n \<in> set (nd_nodes d)" "eligible now d mem disk tags location n" "nd_nodes d' = nd_nodes d"
    using res by blast+
  have "within_capacity now d'"
    unfolding within_capacity_def
  proof
    fix m assume "m \<in> set (nd_nodes d')"
    then have m: "m \<in> set (nd_nodes d)" by (simp add: n(3))
    have "n_id m = n_id n \<Longrightarrow> m = n" using assms(6) m n(1) by (meson distinct_map inj_onD)
    then show "live_sum r_memory now d' (n_id m) \<le> max 0 (available_memory_mb m) \<and>
        live_sum r_disk now d' (n_id m) \<le> max 0 (available_disk_mb m)"
      using res [of "n_id m"] assms(2) m n(2) le_sat_sub [OF assms(4)] le_sat_sub [OF assms(5)]
      unfolding within_capacity_def eligible_def by fastforce
  qed
  moreover have "claims_nonneg d'"
    using assms(1,3-5)
    by (auto simp: reserve_capacity_tx_def Let_def rbind_Ok_iff claims_nonneg_def expire_stale_reservations_def)
  ultimately show ?thesis using n(3) by blast
qed

lemma reserve_run_within:
  assumes "within_capacity t d" "claims_nonneg d" "distinct (map n_id (nd_nodes d))"
    and "sorted (t # map fst rs)" "\<forall>r\<in>set rs. 0 \<le> fst (snd r) \<and> 0 \<le> fst (snd (snd r))"
  shows "within_capacity (last (t # map fst rs)) (reserve_run rnd d rs) \<and> nd_nodes (reserve_run rnd d rs) = nd_nodes d"
  using assms
proof (induction rs arbitrary: t d)
  case (Cons r rs)
  obtain now mem disk tags location where r: "r = (now, mem, disk, tags, location)" by (metis surj_pair)
  have late: "within_capacity now d" using Cons.prems within_capacity_later by (auto simp: r)
  show ?case
  proof (cases "reserve_capacity_tx rnd now d mem disk tags location")
    case (Inl e)
    with Cons.IH [OF late] Cons.prems show ?thesis by (simp add: r)
  next
    case (Inr x)
    obtain d' n rid where x: "x = (d', n, rid)" by (cases x) auto
    from reserve_within_capacity [OF Inr [unfolded x] late] Cons.prems
    have "within_capacity now d'" "claims_nonneg d'" "nd_nodes d' = nd_nodes d" by (auto simp: r)
    with Cons.IH [of now d'] Cons.prems Inr show ?thesis by (simp add: r x)
  qed
qed simp

text \<open>
  C14: however many provisions are placed between two capacity reports, the claims outstanding on a node
  never exceed what the node has available: a burst of reservations of non-negative sizes at
  non-decreasing times, from a registry without outstanding claims, overcommits no node.
\<close>
theorem burst_never_overcommits:
  assumes "nd_reservations d = []" "distinct (map n_id (nd_nodes d))" "sorted (map fst rs)"
    and "\<forall>r\<in>set rs. 0 \<le> fst (snd r) \<and> 0 \<le> fst (snd (snd r))" "rs \<noteq> []" "n \<in> set (nd_nodes d)"
  shows "live_sum r_memory (fst (last rs)) (reserve_run rnd d rs) (n_id n) \<le> max 0 (available_memory_mb n)
    \<and> live_sum r_disk (fst (last rs)) (reserve_run rnd d rs) (n_id n) \<le> max 0 (available_disk_mb n)"
proof -
  let ?t = "fst (hd rs)"
  have "sorted (?t # map fst rs)" using assms(3,5) by (cases rs) auto
  moreover have "within_capacity ?t d" "claims_nonneg d"
    using assms(1) by (simp_all add: within_capacity_def claims_nonneg_def live_sum_def)
  ultimately have "within_capacity (last (?t # map fst rs)) (reserve_run rnd d rs)"
    "nd_nodes (reserve_run rnd d rs) = nd_nodes d"
    using reserve_run_within assms(2,4) by blast+
  then show ?thesis using assms(5,6) by (simp add: within_capacity_def last_map)
qed

section \<open>The registry invariant\<close>

definition pin_ok :: "string \<Rightarrow> bool" where
  "pin_ok fp \<longleftrightarrow> fp = [] \<or> length fp = 64 \<and> list_all (\<lambda>c. is_ascii_hexdigit c \<and> \<not> is_ascii_upper c) fp"

definition row_ok :: "node \<Rightarrow> bool" where
  "row_ok n \<longleftrightarrow> (n_enrolled n \<longleftrightarrow> n_token n = None) \<and> (\<not> n_enrolled n \<longrightarrow> n_last_heartbeat n = None)
     \<and> pin_ok (n_fingerprint n) \<and> pin_ok (n_expected n)"

definition key_unique :: "(node \<Rightarrow> string option) \<Rightarrow> node list \<Rightarrow> bool" where
  "key_unique key ns \<longleftrightarrow> (\<forall>m\<in>set ns. \<forall>n\<in>set ns. key m = key n \<and> key m \<noteq> None \<longrightarrow> n_id m = n_id n)"

definition nodes_unique :: "node list \<Rightarrow> bool" where
  "nodes_unique ns \<longleftrightarrow> distinct (map n_id ns) \<and> key_unique (Some \<circ> n_uuid) ns \<and> key_unique (Some \<circ> n_name) ns
     \<and> key_unique n_token ns"

definition refs_ok :: "ndb \<Rightarrow> bool" where
  "refs_ok d \<longleftrightarrow> (\<forall>r\<in>set (nd_reservations d). r_node r \<in> n_id ` set (nd_nodes d))
     \<and> (\<forall>e\<in>set (nd_events d). ev_node e \<in> n_id ` set (nd_nodes d))"

definition node_wf :: "ndb \<Rightarrow> bool" where
  "node_wf d \<longleftrightarrow> nodes_unique (nd_nodes d) \<and> (\<forall>n\<in>set (nd_nodes d). row_ok n \<and> n_id n \<le> nd_seq d) \<and> refs_ok d
     \<and> (\<forall>i g. hm_get (nd_cadence d) i = Some g \<longrightarrow> 5 \<le> g \<and> g \<le> 3600)"

lemma on_nodes_frame [simp]:
  "nd_nodes (on_nodes P f d) = update_rows P f (nd_nodes d)"
  "nd_seq (on_nodes P f d) = nd_seq d" "nd_reservations (on_nodes P f d) = nd_reservations d"
  "nd_events (on_nodes P f d) = nd_events d" "nd_cadence (on_nodes P f d) = nd_cadence d"
  "nd_db (on_nodes P f d) = nd_db d" "nd_res_seq (on_nodes P f d) = nd_res_seq d"
  by (simp_all add: on_nodes_def)

lemma key_unique_update:
  assumes "key_unique key ns" "\<And>n. n_id (f n) = n_id n" "\<And>n. key (f n) = key n \<or> key (f n) = None"
  shows "key_unique key (update_rows P f ns)"
  unfolding key_unique_def set_update_rows
proof (intro ballI impI; elim imageE)
  fix m' n' m n
  assume "key m' = key n' \<and> key m' \<noteq> None" "m' = (if P m then f m else m)" "m \<in> set ns"
    "n' = (if P n then f n else n)" "n \<in> set ns"
  then show "n_id m' = n_id n'" using assms unfolding key_unique_def by (metis (full_types))
qed

lemma key_unique_set:
  assumes "key_unique key ns" "\<And>n. n_id (f n) = n_id n" "\<And>n. key (f n) = k"
    and "\<not> (\<exists>n\<in>set ns. n_id n \<noteq> i \<and> key n = k)"
  shows "key_unique key (update_rows (\<lambda>n. n_id n = i) f ns)"
  unfolding key_unique_def set_update_rows
proof (intro ballI impI; elim imageE)
  fix m' n' m n
  assume "key m' = key n' \<and> key m' \<noteq> None" "m' = (if n_id m = i then f m else m)" "m \<in> set ns"
    "n' = (if n_id n = i then f n else n)" "n \<in> set ns"
  then show "n_id m' = n_id n'" using assms unfolding key_unique_def by (metis (full_types))
qed

lemma key_unique_append:
  "key_unique key ns \<Longrightarrow> \<forall>m\<in>set ns. key m \<noteq> key n \<Longrightarrow> key_unique key (ns @ [n])"
  unfolding key_unique_def by (metis UnE list.set(1) list.simps(15) set_append singletonD)

lemma key_unique_filter: "key_unique key ns \<Longrightarrow> key_unique key (filter P ns)"
  unfolding key_unique_def by (meson filter_is_subset subsetD)

lemma distinct_ids_update: "(\<And>n. n_id (f n) = n_id n) \<Longrightarrow> map n_id (update_rows P f ns) = map n_id ns"
  by (rule map_update_rows)

lemma ids_update: "(\<And>n. n_id (f n) = n_id n) \<Longrightarrow> n_id ` set (update_rows P f ns) = n_id ` set ns"
  by (metis distinct_ids_update list.set_map)

lemma node_wf_on_nodes:
  assumes wf: "node_wf d" and id: "\<And>n. n_id (f n) = n_id n"
    and uniq: "nodes_unique (update_rows P f (nd_nodes d))"
    and row: "\<And>n. n \<in> set (nd_nodes d) \<Longrightarrow> P n \<Longrightarrow> row_ok n \<Longrightarrow> row_ok (f n)"
  shows "node_wf (on_nodes P f d)"
  using wf uniq row id unfolding node_wf_def refs_ok_def on_nodes_frame ids_update [of f, OF id]
  by (auto simp: set_update_rows)

lemma node_wf_on_nodes_same:
  assumes wf: "node_wf d"
    and key: "\<And>n. n_id (f n) = n_id n \<and> n_uuid (f n) = n_uuid n \<and> n_name (f n) = n_name n
      \<and> (n_token (f n) = n_token n \<or> n_token (f n) = None)"
    and row: "\<And>n. n \<in> set (nd_nodes d) \<Longrightarrow> P n \<Longrightarrow> row_ok n \<Longrightarrow> row_ok (f n)"
  shows "node_wf (on_nodes P f d)"
proof (rule node_wf_on_nodes [OF wf])
  show "nodes_unique (update_rows P f (nd_nodes d))"
    using wf key unfolding node_wf_def nodes_unique_def
    by (auto simp: distinct_ids_update intro!: key_unique_update) (metis option.distinct(1))
qed (use key row in auto)

lemma update_some_Ok: "update_some e P f d = Ok d' \<longleftrightarrow> (\<exists>n\<in>set (nd_nodes d). P n) \<and> d' = on_nodes P f d"
  by (auto simp: update_some_def)

lemma pinned_fingerprint_ok: "pinned_fingerprint raw = Ok fp \<Longrightarrow> pin_ok fp"
proof -
  have "\<not> is_ascii_upper (to_ascii_lower c)" for c
    by (auto simp: is_ascii_upper_def code_to_ascii_lower)
  moreover assume "pinned_fingerprint raw = Ok fp"
  ultimately show ?thesis
    by (auto simp: pinned_fingerprint_def pin_ok_def is_fingerprint_def normalize_fingerprint_def Let_def list_all_iff
      split: if_splits)
qed

lemma pin_ok_Nil [simp]: "pin_ok []"
  by (simp add: pin_ok_def)

lemma create_node_wf:
  assumes "node_wf d" "create_node parse now uuid secret token d name url location tags = Ok (d', n)"
  shows "node_wf d'"
proof -
  have no: "\<not> (\<exists>n\<in>set (nd_nodes d). n_uuid n = uuid \<or> n_name n = name \<or> n_token n = Some token)"
    using assms(2) by (auto simp: create_node_def rbind_Ok_iff split: if_splits)
  have d': "nd_nodes d' = nd_nodes d @ [n]" "nd_seq d' = nd_seq d + 1" "nd_reservations d' = nd_reservations d"
      "nd_events d' = nd_events d" "nd_cadence d' = nd_cadence d"
    and n: "n_id n = nd_seq d + 1" "n_uuid n = uuid" "n_name n = name" "n_token n = Some token" "row_ok n"
    using assms(2) by (auto simp: create_node_def rbind_Ok_iff Let_def row_ok_def split: if_splits)
  have le: "\<forall>m\<in>set (nd_nodes d). n_id m \<le> nd_seq d" using assms(1) by (simp add: node_wf_def)
  then have "nd_seq d + 1 \<notin> n_id ` set (nd_nodes d)" by force
  moreover have "nodes_unique (nd_nodes d)" using assms(1) by (simp add: node_wf_def)
  ultimately have "nodes_unique (nd_nodes d @ [n])"
    using no by (auto simp: nodes_unique_def n intro!: key_unique_append)
  with assms(1) le show ?thesis by (auto simp: node_wf_def d' n refs_ok_def)
qed

lemma enroll_wf:
  assumes "node_wf d" "enroll now secret d token hb = Ok (d', n)"
  shows "node_wf d'"
proof -
  obtain fp where fp: "pinned_fingerprint (hb_fingerprint hb) = Ok fp"
    using assms(2) by (auto simp: enroll_def rbind_Ok_iff)
  show ?thesis using assms(2) pinned_fingerprint_ok [OF fp]
    by (auto simp: enroll_def fp Let_def row_ok_def split: option.splits intro!: node_wf_on_nodes_same [OF assms(1)])
qed

lemma set_expected_fingerprint_wf:
  assumes "node_wf d" "set_expected_fingerprint now d i e = Ok d'"
  shows "node_wf d'"
proof -
  obtain fp where e: "(case e of None \<Rightarrow> Ok [] | Some raw \<Rightarrow> if raw = [] then Ok [] else pinned_fingerprint raw) = Ok fp"
    and d': "d' = on_nodes (\<lambda>n. n_id n = i) (\<lambda>n. n\<lparr>n_expected := fp, n_updated_at := now\<rparr>) d"
    using assms(2) unfolding set_expected_fingerprint_def rbind_Ok_iff update_some_Ok by blast
  from e have fp: "pin_ok fp" by (auto split: option.splits if_splits dest: pinned_fingerprint_ok)
  show ?thesis unfolding d' using fp by (intro node_wf_on_nodes_same [OF assms(1)]) (auto simp: row_ok_def)
qed

lemma expire_wf: "node_wf d \<Longrightarrow> node_wf (expire_stale_reservations now d)"
  by (auto simp: node_wf_def refs_ok_def) (auto simp: expire_stale_reservations_def)

lemma cadence_wf: "node_wf d \<Longrightarrow> 5 \<le> g \<Longrightarrow> g \<le> 3600 \<Longrightarrow> node_wf (d\<lparr>nd_cadence := hm_insert i g (nd_cadence d)\<rparr>)"
  by (auto simp: node_wf_def refs_ok_def split: if_splits)

lemma heartbeat_wf:
  assumes "node_wf d"
  shows "node_wf (fst (heartbeat now d uuid hb))"
proof -
  let ?d1 = "expire_stale_reservations now d"
  let ?f = "\<lambda>n. n\<lparr>n_version := hb_version hb, n_hostname := hb_hostname hb, n_os := hb_os hb, n_arch := hb_arch hb,
      n_capacity := hb_capacity hb, n_last_heartbeat := Some now, n_last_error := [], n_updated_at := now\<rparr>"
  let ?P = "\<lambda>n. n_uuid n = uuid \<and> n_enrolled n"
  have d1: "node_wf ?d1" by (rule expire_wf [OF assms])
  then have "node_wf (on_nodes ?P ?f ?d1)" by (rule node_wf_on_nodes_same) (auto simp: row_ok_def)
  then show ?thesis using d1
    by (auto simp: heartbeat_def Let_def update_some_def simp del: exists_row_iff expire_frame on_nodes_frame
        split: option.splits intro: cadence_wf)
qed

lemma update_node_wf:
  assumes "node_wf d" "update_node parse now d i name url en mt sc loc tags ml dl mo do = Ok (d', n)"
  shows "node_wf d'"
proof -
  obtain f where d': "d' = on_nodes (\<lambda>n. n_id n = i) f d"
    and f: "\<And>n. n_id (f n) = n_id n \<and> n_uuid (f n) = n_uuid n \<and> n_token (f n) = n_token n \<and> n_name (f n) = name
      \<and> row_ok (f n) = row_ok n"
    and no: "\<not> (\<exists>n\<in>set (nd_nodes d). n_id n \<noteq> i \<and> n_name n = name)"
    using assms(2) by (fastforce simp: update_node_def rbind_Ok_iff Let_def row_ok_def split: if_splits)
  have "nodes_unique (update_rows (\<lambda>n. n_id n = i) f (nd_nodes d))"
    using assms(1) f no unfolding node_wf_def nodes_unique_def
    by (intro conjI key_unique_update key_unique_set [where key = "Some \<circ> n_name" and k = "Some name"])
       (auto simp: distinct_ids_update)
  then show ?thesis unfolding d' using f by (intro node_wf_on_nodes [OF assms(1)]) auto
qed

lemma rotate_secret_wf:
  assumes "node_wf d" "rotate_secret now secret token d i = Ok (d', sec, tok)"
  shows "node_wf d'"
proof -
  obtain f where d': "d' = on_nodes (\<lambda>n. n_id n = i) f d"
    and f: "\<And>n. n_id (f n) = n_id n \<and> n_uuid (f n) = n_uuid n \<and> n_name (f n) = n_name n \<and> n_token (f n) = Some token
      \<and> (row_ok n \<longrightarrow> row_ok (f n))"
    and no: "\<not> (\<exists>n\<in>set (nd_nodes d). n_id n \<noteq> i \<and> n_token n = Some token)"
    using assms(2) by (fastforce simp: rotate_secret_def row_ok_def split: if_splits)
  have "nodes_unique (update_rows (\<lambda>n. n_id n = i) f (nd_nodes d))"
    using assms(1) f no unfolding node_wf_def nodes_unique_def
    by (intro conjI key_unique_set [where key = n_token and k = "Some token"] key_unique_update)
       (auto simp: distinct_ids_update)
  then show ?thesis unfolding d' using f by (intro node_wf_on_nodes [OF assms(1)]) auto
qed

lemma set_tls_fingerprint_wf:
  assumes "node_wf d" "set_tls_fingerprint now d uuid raw = Ok d'"
  shows "node_wf d'"
proof -
  obtain fp where fp: "pin_ok fp"
    and d': "d' = on_nodes (\<lambda>n. n_uuid n = uuid \<and> n_enrolled n) (\<lambda>n. n\<lparr>n_fingerprint := fp, n_updated_at := now\<rparr>) d"
    using assms(2) pinned_fingerprint_ok
    by (fastforce simp: set_tls_fingerprint_def rbind_Ok_iff update_some_Ok)
  show ?thesis unfolding d' using fp by (intro node_wf_on_nodes_same [OF assms(1)]) (auto simp: row_ok_def)
qed

lemma delete_node_wf:
  assumes "node_wf d" "delete_node d i = Ok d'"
  shows "node_wf d'"
proof -
  have "nodes_unique (nd_nodes d)" using assms(1) by (simp add: node_wf_def)
  then have "nodes_unique (filter (\<lambda>n. n_id n \<noteq> i) (nd_nodes d))"
    by (auto simp: nodes_unique_def key_unique_filter distinct_map_filter)
  with assms show ?thesis
    by (auto simp: delete_node_def node_wf_def refs_ok_def image_iff split: option.splits if_splits) metis+
qed

lemma record_event_wf: "node_wf d \<Longrightarrow> record_event now d i lvl kind msg = Ok d' \<Longrightarrow> node_wf d'"
  by (auto simp: record_event_def node_wf_def refs_ok_def split: if_splits)

lemma reserve_wf:
  assumes "node_wf d" "reserve_capacity_tx rnd now d mem disk tags location = Ok (d', n, rid)"
  shows "node_wf d'"
proof -
  from reserve_Ok [OF assms(2)] have "n \<in> set (nd_nodes d)" by blast
  with assms(2) expire_wf [OF assms(1), of now] show ?thesis
    by (auto simp: reserve_capacity_tx_def Let_def rbind_Ok_iff node_wf_def refs_ok_def)
qed

lemma release_reservation_wf: "node_wf d \<Longrightarrow> node_wf (release_reservation d i)"
  by (auto simp: node_wf_def refs_ok_def release_reservation_def)

lemma set_drain_wf:
  assumes "node_wf d" "set_drain now d i mode reason dl = Ok (d', k)"
  shows "node_wf d'"
  using assms(2) by (auto simp: set_drain_def rbind_Ok_iff update_some_Ok row_ok_def
    intro!: node_wf_on_nodes_same [OF assms(1)])

lemma lift_drain_wf: "node_wf d \<Longrightarrow> node_wf (on_nodes P (lift_drain now) d)"
  by (rule node_wf_on_nodes_same) (auto simp: lift_drain_def row_ok_def)

lemma record_lifts_wf: "node_wf d \<Longrightarrow> node_wf (fst (record_lifts now d ns))"
  by (induction ns arbitrary: d) (auto split: sum.splits dest: record_event_wf)

lemma clear_expired_drains_wf: "node_wf d \<Longrightarrow> node_wf (fst (clear_expired_drains now d))"
  using record_lifts_wf [OF lift_drain_wf] by (simp add: clear_expired_drains_def Let_def case_prod_beta)

text \<open>Every write of the module, with any arguments, as one step of the registry.\<close>

inductive node_step :: "ndb \<Rightarrow> ndb \<Rightarrow> bool" where
  "create_node parse now uuid secret token d name url location tags = Ok (d', n) \<Longrightarrow> node_step d d'"
| "enroll now secret d token hb = Ok (d', n) \<Longrightarrow> node_step d d'"
| "set_expected_fingerprint now d i e = Ok d' \<Longrightarrow> node_step d d'"
| "node_step d (fst (heartbeat now d uuid hb))"
| "update_node parse now d i name url en mt sc loc tags ml dl mo dov = Ok (d', n) \<Longrightarrow> node_step d d'"
| "rotate_secret now secret token d i = Ok (d', sec, tok) \<Longrightarrow> node_step d d'"
| "regenerate_enrollment now secret token d i = Ok (d', tok) \<Longrightarrow> node_step d d'"
| "set_tls_fingerprint now d uuid raw = Ok d' \<Longrightarrow> node_step d d'"
| "set_error now d uuid e = Ok d' \<Longrightarrow> node_step d d'"
| "delete_node d i = Ok d' \<Longrightarrow> node_step d d'"
| "record_event now d i lvl kind msg = Ok d' \<Longrightarrow> node_step d d'"
| "select_for_server rnd now d mem disk tags location = Ok (d', n) \<Longrightarrow> node_step d d'"
| "reserve_capacity_tx rnd now d mem disk tags location = Ok (d', n, rid) \<Longrightarrow> node_step d d'"
| "node_step d (release_reservation d i)"
| "set_drain now d i mode reason dl = Ok (d', k) \<Longrightarrow> node_step d d'"
| "clear_drain now d i = Ok d' \<Longrightarrow> node_step d d'"
| "node_step d (fst (clear_expired_drains now d))"

lemma regenerate_Ok:
  "regenerate_enrollment now secret token d i = Ok (d', tok) \<Longrightarrow> \<exists>sec tk. rotate_secret now secret token d i = Ok (d', sec, tk)"
  by (auto simp: regenerate_enrollment_def rbind_Ok_iff)

lemma set_error_wf: "node_wf d \<Longrightarrow> set_error now d uuid e = Ok d' \<Longrightarrow> node_wf d'"
  by (auto simp: set_error_def update_some_Ok row_ok_def intro!: node_wf_on_nodes_same)

lemma clear_drain_wf: "node_wf d \<Longrightarrow> clear_drain now d i = Ok d' \<Longrightarrow> node_wf d'"
  by (auto simp: clear_drain_def update_some_Ok lift_drain_wf)

lemma select_wf: "node_wf d \<Longrightarrow> select_for_server rnd now d mem disk tags location = Ok (d', n) \<Longrightarrow> node_wf d'"
  by (auto simp: select_for_server_def Let_def rbind_Ok_iff expire_wf)

lemma node_step_wf: "node_wf d \<Longrightarrow> node_step d d' \<Longrightarrow> node_wf d'"
  by (erule node_step.cases)
     (blast intro: create_node_wf enroll_wf set_expected_fingerprint_wf heartbeat_wf update_node_wf rotate_secret_wf
        set_tls_fingerprint_wf set_error_wf delete_node_wf record_event_wf select_wf reserve_wf release_reservation_wf set_drain_wf
        clear_drain_wf clear_expired_drains_wf dest: regenerate_Ok)+

definition empty_registry :: "ndb \<Rightarrow> bool" where
  "empty_registry d \<longleftrightarrow> nd_nodes d = [] \<and> nd_reservations d = [] \<and> nd_events d = [] \<and> nd_cadence d = []"

interpretation registry: invariant_system empty_registry node_step node_wf
proof
  show "empty_registry d \<Longrightarrow> node_wf d" for d
    by (simp add: empty_registry_def node_wf_def nodes_unique_def key_unique_def refs_ok_def)
qed (rule node_step_wf)

section \<open>No orphaned servers\<close>

definition homed :: "server \<Rightarrow> ndb \<Rightarrow> bool" where
  "homed s d \<longleftrightarrow> s \<in> set (servers (nd_db d)) \<and> \<not> s_deleted s \<and> s_node s \<in> n_name ` set (nd_nodes d)"

lemma names_update: "(\<And>n. n_name (f n) = n_name n) \<Longrightarrow> n_name ` set (update_rows P f ns) = n_name ` set ns"
  by (metis list.set_map map_update_rows)

lemma homed_on_nodes: "homed s d \<Longrightarrow> (\<And>n. n_name (f n) = n_name n) \<Longrightarrow> homed s (on_nodes P f d)"
  by (simp add: homed_def names_update)

lemma homed_same: "homed s d \<Longrightarrow> nd_nodes d' = nd_nodes d \<Longrightarrow> nd_db d' = nd_db d \<Longrightarrow> homed s d'"
  by (simp add: homed_def)

lemma homed_assigned: "homed s d \<Longrightarrow> \<not> 0 < assigned_servers d nm \<Longrightarrow> s_node s \<noteq> nm"
  by (auto simp: homed_def assigned_servers_def count_rows_def filter_empty_conv)

lemma homed_update:
  assumes "node_wf d" "homed s d" "update_node parse now d i name url en mt sc loc tags ml dl mo dov = Ok (d', n)"
  shows "homed s d'"
proof -
  obtain f cur where d': "d' = on_nodes (\<lambda>n. n_id n = i) f d" and f: "\<And>n. n_name (f n) = name"
    and cur: "get_node d i = Ok cur" and ok: "name = n_name cur \<or> \<not> 0 < assigned_servers d (n_name cur)"
    using assms(3) by (fastforce simp: update_node_def rbind_Ok_iff Let_def split: if_splits)
  have c: "cur \<in> set (nd_nodes d)" "n_id cur = i"
    using cur find_Some_set by (fastforce simp: get_node_def find_node_def split: option.splits)+
  obtain m where m: "m \<in> set (nd_nodes d)" "s_node s = n_name m" using assms(2) by (auto simp: homed_def)
  have "n_id m = i \<Longrightarrow> m = cur"
    using assms(1) m(1) c unfolding node_wf_def nodes_unique_def by (metis distinct_map inj_onD)
  then have "n_name (if n_id m = i then f m else m) = s_node s"
    using ok homed_assigned [OF assms(2)] m(2) by (auto simp: f)
  then have "s_node s \<in> n_name ` set (nd_nodes d')"
    unfolding d' on_nodes_frame set_update_rows using m(1) by (metis (no_types, lifting) image_eqI)
  with assms(2) show ?thesis by (simp add: homed_def d')
qed

lemma homed_delete:
  assumes "node_wf d" "homed s d" "delete_node d i = Ok d'"
  shows "homed s d'"
proof (cases "find (\<lambda>n. n_id n = i) (nd_nodes d)")
  case None
  with assms show ?thesis by (simp add: delete_node_def)
next
  case (Some n)
  obtain m where m: "m \<in> set (nd_nodes d)" "s_node s = n_name m" using assms(2) by (auto simp: homed_def)
  have n: "n \<in> set (nd_nodes d)" "n_id n = i" using find_Some_set [OF Some] by auto
  have na: "\<not> 0 < assigned_servers d (n_name n)" using assms(3) Some by (auto simp: delete_node_def split: if_splits)
  have "n_id m \<noteq> i"
    using homed_assigned [OF assms(2) na] m n assms(1) unfolding node_wf_def nodes_unique_def
    by (metis distinct_map inj_onD)
  with assms Some na m show ?thesis by (auto simp: delete_node_def homed_def)
qed

lemma record_event_frame:
  "record_event now d i lvl kind msg = Ok d' \<Longrightarrow> nd_nodes d' = nd_nodes d \<and> nd_db d' = nd_db d"
  by (auto simp: record_event_def split: if_splits)

lemma record_lifts_frame:
  "nd_nodes (fst (record_lifts now d ns)) = nd_nodes d \<and> nd_db (fst (record_lifts now d ns)) = nd_db d"
  by (induction ns arbitrary: d) (auto split: sum.splits dest: record_event_frame)

lemma homed_heartbeat: "homed s d \<Longrightarrow> homed s (fst (heartbeat now d uuid hb))"
  by (auto simp: heartbeat_def Let_def update_some_def homed_def names_update split: option.splits)

lemma homed_sweep: "homed s d \<Longrightarrow> homed s (fst (clear_expired_drains now d))"
  by (simp add: clear_expired_drains_def Let_def case_prod_beta homed_def record_lifts_frame names_update lift_drain_def)

lemma homed_step: "node_step d d' \<Longrightarrow> node_wf d \<Longrightarrow> homed s d \<Longrightarrow> homed s d'"
proof (induction rule: node_step.induct)
  case (1 parse now uuid secret token d name url location tags d' n)
  then show ?case by (auto simp: create_node_def rbind_Ok_iff Let_def homed_def split: if_splits)
next
  case (2 now secret d token hb d' n)
  then show ?case by (auto simp: enroll_def rbind_Ok_iff Let_def split: option.splits intro!: homed_on_nodes)
next
  case (3 now d i e d')
  then show ?case by (auto simp: set_expected_fingerprint_def rbind_Ok_iff update_some_Ok intro!: homed_on_nodes)
next
  case (6 now secret token d i d' sec tok)
  then show ?case by (auto simp: rotate_secret_def split: if_splits intro!: homed_on_nodes)
next
  case (7 now secret token d i d' tok)
  then show ?case
    by (auto simp: regenerate_enrollment_def rbind_Ok_iff rotate_secret_def split: if_splits intro!: homed_on_nodes)
next
  case (8 now d uuid raw d')
  then show ?case by (auto simp: set_tls_fingerprint_def rbind_Ok_iff update_some_Ok intro!: homed_on_nodes)
next
  case (9 now d uuid e d')
  then show ?case by (auto simp: set_error_def update_some_Ok intro!: homed_on_nodes)
next
  case (11 now d i lvl kind msg d')
  then show ?case using homed_same record_event_frame by blast
next
  case (12 rnd now d mem disk tags location d' n)
  then show ?case by (auto simp: select_for_server_def Let_def rbind_Ok_iff elim: homed_same)
next
  case (13 rnd now d mem disk tags location d' n rid)
  then show ?case by (auto simp: reserve_capacity_tx_def Let_def rbind_Ok_iff elim: homed_same)
next
  case (14 d i)
  then show ?case by (auto simp: release_reservation_def elim: homed_same)
next
  case (15 now d i mode reason dl d' k)
  then show ?case by (auto simp: set_drain_def rbind_Ok_iff update_some_Ok intro!: homed_on_nodes)
next
  case (16 now d i d')
  then show ?case by (auto simp: clear_drain_def update_some_Ok lift_drain_def intro!: homed_on_nodes)
qed (blast intro: homed_heartbeat homed_update homed_delete homed_sweep)+

interpretation homes: invariant_system "\<lambda>d. node_wf d \<and> homed s d" node_step "\<lambda>d. node_wf d \<and> homed s d" for s
  by unfold_locales (use node_step_wf homed_step in blast)+

text \<open>
  Over any sequence of registry writes from an empty registry, ids, uuids, names and enrolment
  tokens stay unique, a node holds a token exactly while it is not enrolled and then has no heartbeat,
  pinned and expected fingerprints are empty or 64 lower-case hex digits, claims and events refer to
  existing nodes, and learned heartbeat gaps lie between 5 seconds and an hour.
\<close>
theorem reachable_registry_wf:
  assumes "empty_registry d" "node_step\<^sup>*\<^sup>* d d'"
  shows "node_wf d'"
  using assms by (rule registry.reachable_inv)

text \<open>
  C15: no sequence of registry writes orphans a workload. A live server whose node exists keeps a node
  of that name through every rename, deletion, rotation and drain.
\<close>
theorem servers_never_orphaned:
  assumes "node_wf d" "homed s d" "node_step\<^sup>*\<^sup>* d d'"
  shows "\<exists>n\<in>set (nd_nodes d'). n_name n = s_node s"
proof -
  have "homed s d'" using homes.steps_inv [OF assms(3), of s] assms(1,2) by blast
  then show ?thesis by (auto simp: homed_def)
qed

section \<open>Enrolment\<close>

lemma enroll_cases:
  assumes "node_wf d" "pinned_fingerprint (hb_fingerprint hb) = Ok fp"
  shows "(\<exists>n\<in>set (nd_nodes d). enroll_gate token fp n) \<longleftrightarrow> (\<exists>r. enroll now secret d token hb = Ok r)"
  using assms(2) by (auto simp: enroll_def Let_def find_None_set split: option.splits dest: find_Some_set)




section \<open>The drain sweep\<close>

lemma record_lifts_events:
  assumes "\<forall>n\<in>set ns. n_id n \<in> n_id ` set (nd_nodes d)"
  shows "\<exists>es. record_lifts now d ns = (d\<lparr>nd_events := nd_events d @ es, nd_event_seq := nd_event_seq d + int (length ns)\<rparr>, Ok ())
    \<and> map ev_node es = map n_id ns \<and> (\<forall>e\<in>set es. ev_kind e = ''drain_expired'' \<and> ev_created e = now)"
  using assms
proof (induction ns arbitrary: d)
  case (Cons n ns)
  let ?e = "\<lparr>ev_id = nd_event_seq d + 1, ev_node = n_id n, ev_level = ''info'', ev_kind = ''drain_expired'',
    ev_message = ''drain deadline reached; drain lifted and scheduling restored'', ev_created = now\<rparr>"
  let ?d = "d\<lparr>nd_events := nd_events d @ [?e], nd_event_seq := nd_event_seq d + 1\<rparr>"
  have rec: "record_event now d (n_id n) ''info'' ''drain_expired''
      ''drain deadline reached; drain lifted and scheduling restored'' = Ok ?d"
    using Cons.prems by (force simp: record_event_def)
  obtain es where "record_lifts now ?d ns = (?d\<lparr>nd_events := nd_events ?d @ es, nd_event_seq := nd_event_seq ?d + int (length ns)\<rparr>, Ok ())"
    and "map ev_node es = map n_id ns" "\<forall>e\<in>set es. ev_kind e = ''drain_expired'' \<and> ev_created e = now"
    using Cons.IH [of ?d] Cons.prems by auto
  then show ?case using rec by (intro exI [of _ "?e # es"]) (simp add: algebra_simps)
qed simp

lemma not_expired_lift [simp]: "\<not> drain_expired now (lift_drain now n)"
  by (simp add: drain_expired_def lift_drain_def)

text \<open>
  The sweep never fails on registered nodes; it lifts exactly the drains whose deadline has been
  reached, leaves every other node alone, reports the lifted nodes as they were and appends one
  drain-expired event for each.
\<close>
theorem drain_sweep_exact:
  "\<exists>es. clear_expired_drains now d =
     (d\<lparr>nd_nodes := map (\<lambda>n. if drain_expired now n then lift_drain now n else n) (nd_nodes d),
        nd_events := nd_events d @ es, nd_event_seq := nd_event_seq d + int (length es)\<rparr>,
      Ok (filter (drain_expired now) (nd_nodes d)))
   \<and> map ev_node es = map n_id (filter (drain_expired now) (nd_nodes d))
   \<and> list_all (\<lambda>e. ev_kind e = ''drain_expired'' \<and> ev_created e = now) es
   \<and> list_all (\<lambda>n. \<not> drain_expired now n) (nd_nodes (fst (clear_expired_drains now d)))"
proof -
  let ?E = "filter (drain_expired now) (nd_nodes d)"
  let ?d = "on_nodes (drain_expired now) (lift_drain now) d"
  have "n_id ` set (nd_nodes ?d) = n_id ` set (nd_nodes d)" by (simp add: ids_update lift_drain_def)
  then obtain es where rec: "record_lifts now ?d ?E = (?d\<lparr>nd_events := nd_events ?d @ es,
      nd_event_seq := nd_event_seq ?d + int (length ?E)\<rparr>, Ok ())"
    and es: "map ev_node es = map n_id ?E" "\<forall>e\<in>set es. ev_kind e = ''drain_expired'' \<and> ev_created e = now"
    using record_lifts_events [of ?E ?d now] by auto
  have "length es = length ?E" using es(1) by (metis length_map)
  then show ?thesis using rec es
    by (intro exI [of _ es]) (auto simp: clear_expired_drains_def Let_def on_nodes_def update_rows_def list_all_iff)
qed

section \<open>Worked instances\<close>

definition wcap :: "nat \<Rightarrow> capacity" where
  "wcap k = \<lparr>memory_total = 8589934592, memory_used = 0, disk_total = 107374182400, disk_used = 0, cpu_percent = 0,
     servers_running = k\<rparr>"

definition wnode :: "int \<Rightarrow> string \<Rightarrow> nat \<Rightarrow> node" where
  "wnode i nm k = \<lparr>n_id = i, n_uuid = nm, n_name = nm, n_public_url = [], n_secret = [], n_token = None, n_enrolled = True,
     n_enabled = True, n_maintenance = False, n_schedulable = True, n_location = [], n_tags = [''ssd''],
     n_memory_limit_mb = 0, n_disk_limit_mb = 0, n_cpu_limit_percent = 0, n_memory_overallocate = 0,
     n_disk_overallocate = 0, n_version = [], n_hostname = [], n_os = [], n_arch = [], n_capacity = wcap k,
     n_last_heartbeat = Some 0, n_last_error = [], n_created_at = 0, n_updated_at = 0, n_fingerprint = [],
     n_expected = [], n_drain_mode = [], n_drain_reason = [], n_drain_deadline = None\<rparr>"

definition wndb :: ndb where
  "wndb = \<lparr>nd_nodes = [wnode 1 ''local'' 2, wnode 2 ''b'' 1], nd_seq = 2, nd_reservations = [], nd_res_seq = 0, nd_events = [],
     nd_event_seq = 0, nd_cadence = [], nd_db = empty_db\<lparr>servers := [new_server_row 4 1 ''u'' ''srv'' 1 1 [] [] 512 1024 100 0]\<rparr>\<rparr>"

lemmas node_witness = wcap_def wnode_def wndb_def empty_db_def

lemma wndb_wf: "node_wf wndb"
  by (simp add: node_wf_def node_witness nodes_unique_def key_unique_def refs_ok_def row_ok_def)

theorem placement_correct_witness:
  "sums_fit 10 wndb \<and> (\<exists>d'. reserve_capacity_tx (\<lambda>x. x) 10 wndb 1024 1024 [''ssd''] None = Ok (d', wnode 2 ''b'' 1, 1))
    \<and> eligible 10 wndb 1024 1024 [''ssd''] None (wnode 2 ''b'' 1)"
proof -
  have fit: "sums_fit 10 wndb" by (simp add: sums_fit_def live_sum_def in_i64_def i64_bounds node_witness)
  have run: "reserve_capacity_tx (\<lambda>x. x) 10 wndb 1024 1024 [''ssd''] None
      = Ok (wndb\<lparr>nd_reservations := [\<lparr>r_id = 1, r_node = 2, r_memory = 1024, r_disk = 1024, r_until = 120000000010, r_created = 10\<rparr>],
          nd_res_seq := 1\<rparr>, wnode 2 ''b'' 1, 1)"
    by (simp add: reserve_capacity_tx_def expire_stale_reservations_def pick_node_tx_def node_witness placeable_def
      online_def online_window_secs_def DEFAULT_ONLINE_WINDOW_SECS_def nsecs_def reserved_usage_def live_sum_def in_i64_def
      i64_bounds sat_simps sat_i64_def available_memory_mb_def available_disk_mb_def available_def div_trunc_def wrap_i64_def
      score_def reservation_ttl_secs_def MIN_RESERVATION_TTL_SECS_def)
  show ?thesis using placement_correct [OF fit, where rnd = "\<lambda>x. x" and mem = 1024 and disk = 1024 and tags = "[''ssd'']" and location = None] fit
    unfolding run by simp
qed

theorem burst_never_overcommits_witness:
  "live_sum r_memory 20 (reserve_run (\<lambda>x. x) wndb [(10, 8000, 100, [], None), (20, 8000, 100, [], None)]) 1
     \<le> max 0 (available_memory_mb (wnode 1 ''local'' 2))"
  using burst_never_overcommits [where d = wndb and rs = "[(10, 8000, 100, [], None), (20, 8000, 100, [], None)]"
      and n = "wnode 1 ''local'' 2" and rnd = "\<lambda>x. x"]
  by (simp add: wndb_def wnode_def)

theorem reachable_registry_wf_witness:
  "node_wf (release_reservation (wndb\<lparr>nd_nodes := []\<rparr>) 4)"
proof (rule reachable_registry_wf [of "wndb\<lparr>nd_nodes := []\<rparr>"])
  show "empty_registry (wndb\<lparr>nd_nodes := []\<rparr>)" by (simp add: empty_registry_def wndb_def)
qed (intro r_into_rtranclp node_step.intros(14))

theorem servers_never_orphaned_witness:
  "\<exists>n\<in>set (nd_nodes (release_reservation wndb 9)). n_name n = ''local''"
proof -
  let ?s = "new_server_row 4 1 ''u'' ''srv'' 1 1 [] [] 512 1024 100 0"
  have "node_step\<^sup>*\<^sup>* wndb (release_reservation wndb 9)" by (intro r_into_rtranclp node_step.intros(14))
  moreover have "homed ?s wndb" by (simp add: homed_def wndb_def wnode_def new_server_row_def)
  ultimately show ?thesis using servers_never_orphaned [OF wndb_wf, of ?s] by (simp add: new_server_row_def)
qed


end
