(* ===== verification/Supervisor.thy ===== *)
theory Supervisor
  imports Store
begin

text \<open>
  The process supervisor (\<open>src/src/services/proc.rs\<close>) with the crash policy it keeps in the servers
  table (\<open>src/src/models.rs\<close>): explicit starts, stops and kills, the reaper of an exited child, and the
  automatic restart with its burst budget and back-off. A call is one step; the restart task is cut at
  its sleep into \<open>restart_begin\<close> and \<open>restart_resume\<close>, so stops, starts and exits interleave with it.
  What the operating system answers (the spawned pid or the spawn error, the exit code) and the outcome
  of resolving the startup command are arguments.
\<close>

section \<open>Crash policy rows\<close>

definition CRASH_WINDOW_SECS :: int where "CRASH_WINDOW_SECS = 60"

datatype crash_budget = Allowed int | Exhausted int

definition num_seconds :: "instant \<Rightarrow> int" where
  "num_seconds t = sgn t * (\<bar>t\<bar> div 10 ^ 9)"

definition window_expired :: "instant \<Rightarrow> stamp option \<Rightarrow> bool" where
  "window_expired now w =
     (case w of None \<Rightarrow> False | Some BadStamp \<Rightarrow> True
      | Some (Stamp t) \<Rightarrow> CRASH_WINDOW_SECS < num_seconds (now - t))"

definition consume_crash_budget :: "instant \<Rightarrow> db \<Rightarrow> int \<Rightarrow> int \<Rightarrow> (model_error, db \<times> crash_budget) result" where
  "consume_crash_budget now d i budget =
     rbind (get_server_any d i) (\<lambda>s.
       let expired = window_expired now (s_crash_window_start s);
           effective = (if expired then 0 else s_crash_restarts s)
       in if budget \<le> effective then Ok (d, Exhausted effective)
          else
            let new_window = (if s_crash_window_start s = None \<or> expired then Some (Stamp now) else s_crash_window_start s)
            in Ok (on_server i (\<lambda>r. r\<lparr>s_crash_restarts := effective + 1, s_crash_window_start := new_window,
                     s_updated_at := now\<rparr>) d, Allowed effective))"

definition mark_crashed :: "instant \<Rightarrow> db \<Rightarrow> int \<Rightarrow> string \<Rightarrow> db" where
  "mark_crashed now d i reason =
     on_server i (\<lambda>s. s\<lparr>s_status := ''crashed'', s_crash_reason := reason, s_updated_at := now\<rparr>) d"

definition reset_crash_window :: "instant \<Rightarrow> db \<Rightarrow> int \<Rightarrow> db" where
  "reset_crash_window now d i =
     on_server i (\<lambda>s. s\<lparr>s_crash_restarts := 0, s_crash_window_start := None, s_crash_reason := [], s_updated_at := now\<rparr>) d"

definition refund_crash_slot :: "instant \<Rightarrow> db \<Rightarrow> int \<Rightarrow> int \<Rightarrow> db" where
  "refund_crash_slot now d i used = on_server i (\<lambda>s. s\<lparr>s_crash_restarts := used, s_updated_at := now\<rparr>) d"

section \<open>Exit classification and back-off\<close>

datatype exit_kind = Requested | Clean | Crash string

definition classify_exit :: "int option \<Rightarrow> bool \<Rightarrow> bool \<Rightarrow> exit_kind" where
  "classify_exit ec stop_issued detect_clean_exit =
     (if stop_issued then Requested
      else case ec of
        Some n \<Rightarrow>
          if n = 0 \<and> \<not> detect_clean_exit then Clean
          else if n = 0 then Crash ''clean exit treated as crash (crash policy)''
          else Crash (''exited with code '' @ show_int n)
      | None \<Rightarrow> Crash ''killed by signal'')"

definition crash_backoff :: "int \<Rightarrow> int" where
  "crash_backoff burst_restarts = min (sat_mul 5 (2 ^ nat (clamp_to 0 4 burst_restarts))) 60"

section \<open>Notifications\<close>

record notification =
  nt_id :: nat
  nt_level :: string
  nt_title :: string
  nt_message :: string
  nt_server :: "int option"
  nt_created :: instant
  nt_read :: "instant option"
  nt_link :: "string option"

definition MAX_HISTORY :: nat where "MAX_HISTORY = 200"

record notifier =
  nf_next :: nat
  nf_history :: "notification list"

text \<open>\<open>next_id\<close> is a 64-bit counter, read as unbounded: it does not wrap within any lifetime.\<close>

definition notify_link ::
  "instant \<Rightarrow> string \<Rightarrow> string \<Rightarrow> string \<Rightarrow> int option \<Rightarrow> string option \<Rightarrow> notifier \<Rightarrow> notifier" where
  "notify_link now level title message sid link nf =
     (let n = \<lparr>nt_id = nf_next nf, nt_level = level, nt_title = title, nt_message = message, nt_server = sid,
                nt_created = now, nt_read = None, nt_link = link\<rparr>;
          hist = nf_history nf @ [n]
      in \<lparr>nf_next = nf_next nf + 1,
          nf_history = (if MAX_HISTORY < length hist then drop (length hist - MAX_HISTORY) hist else hist)\<rparr>)"

fun mark_read_in :: "instant \<Rightarrow> nat \<Rightarrow> notification list \<Rightarrow> notification list \<times> bool" where
  "mark_read_in now i [] = ([], False)"
| "mark_read_in now i (n # ns) =
     (if nt_id n = i then ((if nt_read n = None then n\<lparr>nt_read := Some now\<rparr> else n) # ns, True)
      else case mark_read_in now i ns of (ns', b) \<Rightarrow> (n # ns', b))"

definition mark_read :: "instant \<Rightarrow> nat \<Rightarrow> notifier \<Rightarrow> notifier \<times> bool" where
  "mark_read now i nf = (case mark_read_in now i (nf_history nf) of (h, b) \<Rightarrow> (nf\<lparr>nf_history := h\<rparr>, b))"

definition unread_count :: "notifier \<Rightarrow> nat" where
  "unread_count nf = length (filter (\<lambda>n. nt_read n = None) (nf_history nf))"

definition clear_notifications :: "notifier \<Rightarrow> notifier" where
  "clear_notifications nf = nf\<lparr>nf_history := []\<rparr>"

section \<open>Processes\<close>

text \<open>
  \<open>ps_reaper\<close> is the pid the reaper thread waits for. \<open>sv_exits\<close> holds the exit codes sent to restart
  tasks that have not run yet, \<open>sv_sleeping\<close> the tasks in their back-off with the reason and slot of the
  crash and the earliest wake-up, \<open>sv_events\<close> the lifecycle events emitted.
\<close>

record pstate =
  ps_pid :: "nat option"
  ps_status :: string
  ps_started_at :: "instant option"
  ps_exit_code :: "int option"
  ps_stop_issued :: bool
  ps_reaper :: "nat option"

record sleeper =
  sl_server :: int
  sl_reason :: string
  sl_used :: int
  sl_wake :: instant

record supervisor =
  sv_db :: db
  sv_procs :: "(int, pstate) hmap"
  sv_exits :: "(int \<times> int option) list"
  sv_sleeping :: "sleeper list"
  sv_events :: "(int \<times> string) list"
  sv_notifier :: notifier
  sv_stopped :: bool

datatype proc_error = ShuttingDown | ServerStopping | AlreadyRunning | SpawnFailed string

definition new_pstate :: pstate where
  "new_pstate = \<lparr>ps_pid = None, ps_status = [], ps_started_at = None, ps_exit_code = None, ps_stop_issued = False,
     ps_reaper = None\<rparr>"

definition emit_server_event :: "int \<Rightarrow> string \<Rightarrow> supervisor \<Rightarrow> supervisor" where
  "emit_server_event sid ev sv = sv\<lparr>sv_events := sv_events sv @ [(sid, ev)]\<rparr>"

definition set_proc :: "int \<Rightarrow> pstate \<Rightarrow> supervisor \<Rightarrow> supervisor" where
  "set_proc sid ps sv = sv\<lparr>sv_procs := hm_insert sid ps (sv_procs sv)\<rparr>"

text \<open>
  \<open>reap_child\<close>: the wait has returned \<open>ec\<close> (a signal death arrives as 128 plus the signal). Only the
  reaper whose pid is still the current one finishes the state.
\<close>

definition reap_child :: "instant \<Rightarrow> int option \<Rightarrow> int \<Rightarrow> supervisor \<Rightarrow> supervisor" where
  "reap_child now ec sid sv =
     (case hm_get (sv_procs sv) sid of
        None \<Rightarrow> sv
      | Some ps \<Rightarrow>
          (case ps_reaper ps of
             None \<Rightarrow> sv
           | Some my_pid \<Rightarrow>
               if ps_pid ps \<noteq> Some my_pid then set_proc sid (ps\<lparr>ps_reaper := None\<rparr>) sv
               else
                 let ps1 = ps\<lparr>ps_pid := None, ps_exit_code := Some (case ec of Some n \<Rightarrow> n | None \<Rightarrow> -1),
                              ps_started_at := None, ps_reaper := None\<rparr>
                 in if ps_stop_issued ps then
                      let sv1 = set_proc sid (ps1\<lparr>ps_status := ''stopped''\<rparr>) sv
                      in emit_server_event sid ''server.stop'' (sv1\<lparr>sv_db := set_server_status now (sv_db sv1) sid ''offline''\<rparr>)
                    else
                      let detect = (case get_server_any (sv_db sv) sid of Ok s \<Rightarrow> s_crash_detect_clean_exit s | Err _ \<Rightarrow> False)
                      in case classify_exit ec False detect of
                           Crash reason \<Rightarrow>
                             let sv1 = set_proc sid (ps1\<lparr>ps_status := ''crashed''\<rparr>) sv;
                                 sv2 = emit_server_event sid ''server.crash'' (sv1\<lparr>sv_db := mark_crashed now (sv_db sv1) sid reason\<rparr>)
                             in sv2\<lparr>sv_exits := sv_exits sv2 @ [(sid, ec)]\<rparr>
                         | _ \<Rightarrow>
                             let sv1 = set_proc sid (ps1\<lparr>ps_status := ''stopped''\<rparr>) sv
                             in sv1\<lparr>sv_db := set_server_status now (sv_db sv1) sid ''stopped'',
                                    sv_exits := sv_exits sv1 @ [(sid, ec)]\<rparr>))"

text \<open>
  \<open>gate_start\<close> joins the reaper of a draining stop, so the child's exit (code \<open>ec\<close>) is processed first;
  an automatic restart is refused while the stop latch is set.
\<close>

definition gate_start :: "instant \<Rightarrow> int option \<Rightarrow> bool \<Rightarrow> int \<Rightarrow> supervisor \<Rightarrow> supervisor \<times> (proc_error, unit) result" where
  "gate_start now ec suppress sid sv =
     (let latched = (case hm_get (sv_procs sv) sid of Some ps \<Rightarrow> ps_stop_issued ps | None \<Rightarrow> False);
          sv1 = (if latched then reap_child now ec sid sv else sv);
          pid = (case hm_get (sv_procs sv1) sid of Some ps \<Rightarrow> ps_pid ps | None \<Rightarrow> None);
          latched1 = (case hm_get (sv_procs sv1) sid of Some ps \<Rightarrow> ps_stop_issued ps | None \<Rightarrow> False)
      in (sv1, if latched \<and> suppress \<and> latched1 then Err ServerStopping
               else if pid \<noteq> None then Err AlreadyRunning else Ok ()))"

definition ensure_proc :: "int \<Rightarrow> supervisor \<Rightarrow> supervisor" where
  "ensure_proc sid sv = (if hm_get (sv_procs sv) sid = None then set_proc sid new_pstate sv else sv)"

definition running_pstate :: "instant \<Rightarrow> nat \<Rightarrow> pstate" where
  "running_pstate now pid = \<lparr>ps_pid = Some pid, ps_status = ''running'', ps_started_at = Some now, ps_exit_code = None,
     ps_stop_issued = False, ps_reaper = Some pid\<rparr>"

definition start_impl ::
  "instant \<Rightarrow> int option \<Rightarrow> (string, nat) result \<Rightarrow> bool \<Rightarrow> int \<Rightarrow> supervisor \<Rightarrow> supervisor \<times> (proc_error, unit) result" where
  "start_impl now ec spawn suppress sid sv =
     (if sv_stopped sv then (sv, Err ShuttingDown)
      else
        let (sv1, gate) = gate_start now ec suppress sid (ensure_proc sid sv)
        in case gate of
             Err e \<Rightarrow> (sv1, Err e)
           | Ok _ \<Rightarrow>
               (case spawn of
                  Err e \<Rightarrow> (sv1, Err (SpawnFailed e))
                | Ok pid \<Rightarrow>
                    let sv2 = set_proc sid (running_pstate now pid) sv1;
                        sv3 = emit_server_event sid ''server.start'' (sv2\<lparr>sv_db := set_server_status now (sv_db sv2) sid ''running''\<rparr>)
                    in (if suppress then sv3 else sv3\<lparr>sv_db := reset_crash_window now (sv_db sv3) sid\<rparr>, Ok ())))"

definition start :: "instant \<Rightarrow> int option \<Rightarrow> (string, nat) result \<Rightarrow> int \<Rightarrow> supervisor \<Rightarrow> supervisor \<times> (proc_error, unit) result" where
  "start now ec spawn sid sv = start_impl now ec spawn False sid sv"

definition stop :: "instant \<Rightarrow> int \<Rightarrow> supervisor \<Rightarrow> supervisor" where
  "stop now sid sv =
     (case hm_get (sv_procs sv) sid of
        None \<Rightarrow> sv
      | Some ps \<Rightarrow>
          if ps_stop_issued ps then sv
          else
            let ps1 = ps\<lparr>ps_stop_issued := True, ps_status := ''stopping''\<rparr>;
                sv1 = (set_proc sid ps1 sv)\<lparr>sv_db := set_server_status now (sv_db sv) sid ''stopping''\<rparr>
            in case ps_pid ps of
                 None \<Rightarrow> (set_proc sid (ps1\<lparr>ps_status := ''stopped'', ps_exit_code := Some 0, ps_started_at := None\<rparr>) sv1)
                           \<lparr>sv_db := set_server_status now (sv_db sv1) sid ''offline''\<rparr>
               | Some _ \<Rightarrow> sv1)"

definition kill :: "instant \<Rightarrow> int \<Rightarrow> supervisor \<Rightarrow> supervisor" where
  "kill now sid sv =
     (case hm_get (sv_procs sv) sid of
        None \<Rightarrow> sv
      | Some ps \<Rightarrow>
          (case ps_pid ps of
             None \<Rightarrow> sv
           | Some _ \<Rightarrow>
               (set_proc sid (ps\<lparr>ps_stop_issued := True, ps_status := ''stopped'', ps_started_at := None\<rparr>) sv)
                 \<lparr>sv_db := set_server_status now (sv_db sv) sid ''offline''\<rparr>))"

definition set_stop :: "supervisor \<Rightarrow> supervisor" where
  "set_stop sv = sv\<lparr>sv_stopped := True\<rparr>"

section \<open>Automatic restart\<close>

definition squote :: char where "squote = CHR 0x27"

fun proc_error_text :: "proc_error \<Rightarrow> string" where
  "proc_error_text ShuttingDown = ''panel shutting down''"
| "proc_error_text ServerStopping = ''server is stopping''"
| "proc_error_text AlreadyRunning = ''server already running''"
| "proc_error_text (SpawnFailed e) = e"

definition crash_link :: "int \<Rightarrow> string" where
  "crash_link sid = ''#/server/'' @ show_int sid"

definition notify :: "instant \<Rightarrow> string \<Rightarrow> string \<Rightarrow> string \<Rightarrow> int \<Rightarrow> supervisor \<Rightarrow> supervisor" where
  "notify now level title msg sid sv =
     sv\<lparr>sv_notifier := notify_link now level title msg (Some sid) (Some (crash_link sid)) (sv_notifier sv)\<rparr>"

text \<open>
  The task wakes on an exit code; \<open>None\<close> (a requested stop, or a failed wait) ends it. Up to the sleep:
\<close>

definition restart_begin :: "instant \<Rightarrow> int \<Rightarrow> int option \<Rightarrow> supervisor \<Rightarrow> supervisor" where
  "restart_begin now sid ec sv =
     (if ec = None then sv
      else case get_server (sv_db sv) sid of
        Err _ \<Rightarrow> sv
      | Ok srv \<Rightarrow>
          (case classify_exit ec False (s_crash_detect_clean_exit srv) of
             Crash reason \<Rightarrow>
               if \<not> s_auto_restart srv then
                 notify now ''error'' (''Server '' @ squote # s_name srv @ squote # '' crashed'') reason sid
                   (sv\<lparr>sv_db := mark_crashed now (sv_db sv) sid reason\<rparr>)
               else if s_suspended srv then sv
               else
                 (case consume_crash_budget now (sv_db sv) sid (s_crash_restart_budget srv) of
                    Err _ \<Rightarrow> sv
                  | Ok (d, Exhausted used) \<Rightarrow>
                      let reason = ''crash restart budget exhausted ('' @ show_int used @ ''/''
                            @ show_int (s_crash_restart_budget srv) @ '' in burst)''
                      in notify now ''error'' (''Server '' @ squote # s_name srv @ squote # '' crashed'') reason sid
                           (sv\<lparr>sv_db := mark_crashed now d sid reason\<rparr>)
                  | Ok (d, Allowed used) \<Rightarrow>
                      sv\<lparr>sv_db := d, sv_sleeping := sv_sleeping sv @
                          [\<lparr>sl_server = sid, sl_reason = reason, sl_used = used,
                            sl_wake = now + crash_backoff used * 10 ^ 9\<rparr>]\<rparr>)
           | _ \<Rightarrow> sv))"

text \<open>... and from the sleep on. \<open>cmd\<close> is the outcome of resolving the startup command.\<close>

definition restart_resume ::
  "instant \<Rightarrow> (string, string) result \<Rightarrow> int option \<Rightarrow> (string, nat) result \<Rightarrow> sleeper \<Rightarrow> supervisor \<Rightarrow> supervisor" where
  "restart_resume now cmd ec spawn sl sv =
     (let sid = sl_server sl;
          latched = (case hm_get (sv_procs sv) sid of Some ps \<Rightarrow> ps_stop_issued ps | None \<Rightarrow> True)
      in if latched then sv\<lparr>sv_db := refund_crash_slot now (sv_db sv) sid (sl_used sl)\<rparr>
         else case get_server (sv_db sv) sid of
           Err _ \<Rightarrow> sv
         | Ok srv \<Rightarrow>
             if \<not> s_auto_restart srv \<or> s_suspended srv
             then sv\<lparr>sv_db := refund_crash_slot now (sv_db sv) sid (sl_used sl)\<rparr>
             else
               let sv1 = sv\<lparr>sv_db := bump_restart_count now (sv_db sv) sid\<rparr>
               in case cmd of
                    Err e \<Rightarrow> notify now ''error'' ''Restart failed'' e sid sv1
                  | Ok _ \<Rightarrow>
                      let sv2 = notify now ''info'' (''Restarting '' @ squote # s_name srv @ [squote])
                                  (sl_reason sl @ ''; backoff '' @ show_int (crash_backoff (sl_used sl))) sid sv1;
                          (sv3, r) = start_impl now ec spawn True sid sv2
                      in (case r of Ok _ \<Rightarrow> sv3 | Err e \<Rightarrow> notify now ''error'' ''Restart failed'' (proc_error_text e) sid sv3))"

section \<open>The burst budget\<close>

lemma get_server_any_on_server:
  assumes "get_server_any d i = Ok s" "\<And>r. s_id (f r) = s_id r"
  shows "get_server_any (on_server i f d) i = Ok (f s)"
proof -
  have s: "find (\<lambda>s. s_id s = i) (servers d) = Some s"
    using assms(1) by (auto simp: get_server_any_def split: option.splits)
  moreover have "s_id s = i" using find_Some_set [OF s] by simp
  ultimately show ?thesis using find_update_rows_key [of s_id f i "\<lambda>s. s_id s = i" "servers d"] assms(2)
    by (simp add: get_server_any_def servers_on_server)
qed

text \<open>The outcome depends on the row's counter and window only.\<close>

lemma consume_Exhausted:
  "get_server_any d i = Ok s \<Longrightarrow> budget \<le> (if window_expired now (s_crash_window_start s) then 0 else s_crash_restarts s) \<Longrightarrow>
     consume_crash_budget now d i budget = Ok (d, Exhausted (if window_expired now (s_crash_window_start s) then 0 else s_crash_restarts s))"
  by (simp add: consume_crash_budget_def Let_def)

lemma consume_Allowed:
  assumes "get_server_any d i = Ok s" "eff = (if window_expired now (s_crash_window_start s) then 0 else s_crash_restarts s)"
    and "eff < budget"
  obtains d' s' where "consume_crash_budget now d i budget = Ok (d', Allowed eff)" "get_server_any d' i = Ok s'"
    "s_crash_restarts s' = eff + 1"
    "s_crash_window_start s' = (if s_crash_window_start s = None \<or> window_expired now (s_crash_window_start s)
       then Some (Stamp now) else s_crash_window_start s)"
proof -
  let ?w = "if s_crash_window_start s = None \<or> window_expired now (s_crash_window_start s)
       then Some (Stamp now) else s_crash_window_start s"
  let ?f = "\<lambda>r. r\<lparr>s_crash_restarts := eff + 1, s_crash_window_start := ?w, s_updated_at := now\<rparr>"
  show thesis
  proof (rule that [of "on_server i ?f d" "?f s"])
    show "consume_crash_budget now d i budget = Ok (on_server i ?f d, Allowed eff)"
      using assms by (simp add: consume_crash_budget_def Let_def)
    show "get_server_any (on_server i ?f d) i = Ok (?f s)"
      by (rule get_server_any_on_server [OF assms(1)]) simp
  qed simp_all
qed

text \<open>A crash at each of the given times, without restarts in between.\<close>

fun crash_run :: "db \<Rightarrow> int \<Rightarrow> int \<Rightarrow> instant list \<Rightarrow> crash_budget list" where
  "crash_run d i budget [] = []"
| "crash_run d i budget (t # ts) =
     (case consume_crash_budget t d i budget of Err _ \<Rightarrow> [] | Ok (d', c) \<Rightarrow> c # crash_run d' i budget ts)"

definition burst_outcome :: "int \<Rightarrow> int \<Rightarrow> crash_budget" where
  "burst_outcome budget k = (if k < budget then Allowed k else Exhausted budget)"

lemma upt_Suc_shift: "[0..<Suc n] = 0 # map Suc [0..<n]"
  by (simp only: map_Suc_upt upt_conv_Cons zero_less_Suc)

lemma crash_run_hot:
  assumes "get_server_any d i = Ok s" "s_crash_window_start s = Some (Stamp t0)"
    and "\<forall>t\<in>set ts. num_seconds (t - t0) \<le> 60" "s_crash_restarts s = k" "k \<le> budget"
  shows "crash_run d i budget ts = map (\<lambda>j. burst_outcome budget (k + int j)) [0..<length ts]"
  using assms
proof (induction ts arbitrary: d s k)
  case (Cons t ts)
  have hot: "\<not> window_expired t (s_crash_window_start s)"
    using Cons.prems by (simp add: window_expired_def CRASH_WINDOW_SECS_def)
  have shift: "[0..<length (t # ts)] = 0 # map Suc [0..<length ts]" unfolding list.size by (simp only: upt_Suc_shift add_0_right add_Suc_right)
  show ?case
  proof (cases "k < budget")
    case True
    obtain d' s' where c: "consume_crash_budget t d i budget = Ok (d', Allowed k)" "get_server_any d' i = Ok s'"
      "s_crash_restarts s' = k + 1" "s_crash_window_start s' = Some (Stamp t0)"
      by (rule consume_Allowed [OF Cons.prems(1), of k t budget]) (use hot Cons.prems(2,4) True in simp_all)
    from Cons.IH [OF c(2,4) _ c(3)] Cons.prems True
    have "crash_run d' i budget ts = map (\<lambda>j. burst_outcome budget (k + 1 + int j)) [0..<length ts]" by simp
    with c(1) True show ?thesis unfolding shift by (simp add: burst_outcome_def comp_def algebra_simps)
  next
    case False
    with Cons.prems have k: "k = budget" by simp
    have c: "consume_crash_budget t d i budget = Ok (d, Exhausted k)"
      using consume_Exhausted [OF Cons.prems(1), of budget t] hot Cons.prems(4) k by simp
    from Cons.IH [OF Cons.prems(1,2) _ Cons.prems(4,5)] Cons.prems(3)
    have "crash_run d i budget ts = map (\<lambda>j. burst_outcome budget (k + int j)) [0..<length ts]" by simp
    with c k show ?thesis unfolding shift by (simp add: burst_outcome_def comp_def)
  qed
qed simp

text \<open>
  Inside one crash window a server gets exactly its budget of restarts. The crashes of a fresh
  burst, all within a minute of the first, are answered with the slots 0, 1, 2, ... in order until
  the budget is used up, and with Exhausted from then on.
\<close>
theorem burst_gets_exactly_budget:
  assumes "get_server_any d i = Ok s" "s_crash_window_start s = None" "s_crash_restarts s = 0" "0 < budget"
    and "\<forall>t'\<in>set ts. num_seconds (t' - t) \<le> 60"
  shows "crash_run d i budget (t # ts) = map (\<lambda>k. burst_outcome budget (int k)) [0..<Suc (length ts)]"
proof -
  obtain d' s' where c: "consume_crash_budget t d i budget = Ok (d', Allowed 0)" "get_server_any d' i = Ok s'"
    "s_crash_restarts s' = 1" "s_crash_window_start s' = Some (Stamp t)"
    by (rule consume_Allowed [OF assms(1), of 0 t budget]) (use assms(2-4) in \<open>simp_all add: window_expired_def\<close>)
  show ?thesis unfolding upt_Suc_shift using c crash_run_hot [OF c(2,4) assms(5) c(3)] assms(4)
    by (simp add: burst_outcome_def comp_def add.commute)
qed

section \<open>The crash loop\<close>

text \<open>
  A server that crashes \<open>r\<close> nanoseconds after each restart: each crash asks for a slot, an allowed
  one sleeps the back-off and restarts, an exhausted one ends the loop.
\<close>

fun crash_loop :: "int \<Rightarrow> int \<Rightarrow> instant list \<Rightarrow> instant \<Rightarrow> db \<Rightarrow> crash_budget list" where
  "crash_loop budget i [] t d = []"
| "crash_loop budget i (r # rs) t d =
     (case consume_crash_budget t d i budget of
        Ok (d', Allowed used) \<Rightarrow> Allowed used # crash_loop budget i rs (t + crash_backoff used * 10 ^ 9 + r) d'
      | Ok (_, Exhausted used) \<Rightarrow> [Exhausted used]
      | Err _ \<Rightarrow> [])"

lemma crash_backoff_values:
  "crash_backoff 0 = 5" "crash_backoff 1 = 10" "crash_backoff 2 = 20" "crash_backoff 3 = 40"
  "4 \<le> k \<Longrightarrow> crash_backoff k = 60"
  by (auto simp: crash_backoff_def clamp_to_def sat_simps sat_i64_def i64_bounds)

text \<open>The delay the first \<open>k\<close> restarts of a burst add up to, in seconds.\<close>

definition backoff_sum :: "nat \<Rightarrow> int" where
  "backoff_sum k = (\<Sum>j<k. crash_backoff (int j))"

lemma backoff_sum_values: "backoff_sum 0 = 0" "backoff_sum 1 = 5" "backoff_sum 2 = 15" "backoff_sum 3 = 35" "backoff_sum 4 = 75"
  by (simp_all add: backoff_sum_def lessThan_Suc numeral_eq_Suc)
     (simp_all add: crash_backoff_def clamp_to_def sat_simps sat_i64_def i64_bounds)

lemma num_seconds_gt: "61 * 10 ^ 9 \<le> t \<Longrightarrow> 60 < num_seconds t"
proof -
  assume t: "61 * 10 ^ 9 \<le> t"
  then have "(61 * 10 ^ 9) div 10 ^ 9 \<le> t div 10 ^ 9" by (intro zdiv_mono1) auto
  with t show ?thesis by (simp add: num_seconds_def)
qed

lemma num_seconds_le: "0 \<le> t \<Longrightarrow> t \<le> 60 * 10 ^ 9 \<Longrightarrow> num_seconds t \<le> 60"
proof -
  assume t: "0 \<le> t" "t \<le> 60 * 10 ^ 9"
  from t(2) have "t div 10 ^ 9 \<le> (60 * 10 ^ 9) div 10 ^ 9" by (intro zdiv_mono1) auto
  with t show ?thesis by (simp add: num_seconds_def sgn_if)
qed

text \<open>
  Between crashes: the row is fresh, or \<open>k\<close> of at most four slots are used and the next crash cannot
  come before the back-offs of these slots have passed.
\<close>

definition looping :: "server \<Rightarrow> instant \<Rightarrow> bool" where
  "looping s t \<longleftrightarrow> s_crash_window_start s = None \<and> s_crash_restarts s = 0
     \<or> (\<exists>w k. s_crash_window_start s = Some (Stamp w) \<and> s_crash_restarts s = int k \<and> 1 \<le> k \<and> k \<le> 4
          \<and> w + backoff_sum k * 10 ^ 9 \<le> t)"

lemma backoff_sum_Suc: "backoff_sum (Suc k) = backoff_sum k + crash_backoff (int k)"
  by (simp add: backoff_sum_def lessThan_Suc)

lemma looping_step:
  assumes "get_server_any d i = Ok s" "looping s t" "4 \<le> budget" "0 \<le> r"
  obtains u d' s' where "consume_crash_budget t d i budget = Ok (d', Allowed u)" "get_server_any d' i = Ok s'"
    "looping s' (t + crash_backoff u * 10 ^ 9 + r)"
proof -
  define eff where "eff = (if window_expired t (s_crash_window_start s) then 0 else s_crash_restarts s)"
  have eff: "\<exists>k. eff = int k \<and> k < 4 \<and> (k \<noteq> 0 \<longrightarrow> \<not> window_expired t (s_crash_window_start s)
      \<and> (\<exists>w. s_crash_window_start s = Some (Stamp w) \<and> w + backoff_sum k * 10 ^ 9 \<le> t))"
  proof (cases "s_crash_window_start s = None \<or> window_expired t (s_crash_window_start s)")
    case True
    then have "eff = 0" using assms(2) by (auto simp: eff_def looping_def)
    then show ?thesis by (intro exI [of _ 0]) simp
  next
    case False
    then obtain w k where w: "s_crash_window_start s = Some (Stamp w)" "s_crash_restarts s = int k" "1 \<le> k" "k \<le> 4"
      "w + backoff_sum k * 10 ^ 9 \<le> t" using assms(2) by (auto simp: looping_def)
    have "k \<noteq> 4"
    proof
      assume "k = 4"
      then have "61 * 10 ^ 9 \<le> t - w" using w(5) backoff_sum_values(5) by simp
      then have "window_expired t (s_crash_window_start s)"
        using num_seconds_gt by (simp add: window_expired_def w(1) CRASH_WINDOW_SECS_def)
      then show False using False by simp
    qed
    then show ?thesis using w False by (intro exI [of _ k]) (auto simp: eff_def)
  qed
  then obtain k where k: "eff = int k" "k < 4" "k \<noteq> 0 \<longrightarrow> \<not> window_expired t (s_crash_window_start s)
      \<and> (\<exists>w. s_crash_window_start s = Some (Stamp w) \<and> w + backoff_sum k * 10 ^ 9 \<le> t)" by blast
  have "eff < budget" using k(1,2) assms(3) by simp
  then obtain d' s' where c: "consume_crash_budget t d i budget = Ok (d', Allowed eff)" "get_server_any d' i = Ok s'"
    "s_crash_restarts s' = eff + 1" "s_crash_window_start s' = (if s_crash_window_start s = None
       \<or> window_expired t (s_crash_window_start s) then Some (Stamp t) else s_crash_window_start s)"
    using consume_Allowed [OF assms(1) eff_def] by blast
  have "\<exists>w. s_crash_window_start s' = Some (Stamp w) \<and> w + backoff_sum k * 10 ^ 9 \<le> t"
  proof (cases "k = 0")
    case True
    have "s_crash_window_start s = None \<or> window_expired t (s_crash_window_start s)
        \<or> s_crash_restarts s \<noteq> 0" using assms(2) by (auto simp: looping_def)
    then have "s_crash_window_start s' = Some (Stamp t)" using c(4) k(1) True by (auto simp: eff_def split: if_splits)
    then show ?thesis using True backoff_sum_values(1) by simp
  next
    case False
    then show ?thesis using k(3) c(4) by auto
  qed
  then obtain w where "s_crash_window_start s' = Some (Stamp w)" "w + backoff_sum k * 10 ^ 9 \<le> t" by blast
  then have "looping s' (t + crash_backoff eff * 10 ^ 9 + r)"
    unfolding looping_def using c(3) k(1,2) assms(4)
    by (intro disjI2 exI [of _ w] exI [of _ "Suc k"]) (simp add: backoff_sum_Suc algebra_simps)
  with c(1,2) show thesis by (rule that)
qed

lemma looping_forever:
  assumes "get_server_any d i = Ok s" "looping s t" "4 \<le> budget" "\<forall>r\<in>set rs. 0 \<le> r"
  shows "length (crash_loop budget i rs t d) = length rs \<and> (\<forall>c\<in>set (crash_loop budget i rs t d). \<exists>u. c = Allowed u)"
  using assms
proof (induction rs arbitrary: t d s)
  case (Cons r rs)
  have "0 \<le> r" using Cons.prems(4) by simp
  then obtain u d' s' where "consume_crash_budget t d i budget = Ok (d', Allowed u)" "get_server_any d' i = Ok s'"
    "looping s' (t + crash_backoff u * 10 ^ 9 + r)" by (rule looping_step [OF Cons.prems(1-3)])
  with Cons.IH [OF this(2,3) Cons.prems(3)] Cons.prems(4) show ?case by simp
qed simp

text \<open>
  With a budget of four or more (the default is five) a crash loop never ends: however quickly the
  server crashes after each restart, every crash of the loop is allowed another restart, because the
  back-offs of four restarts add up to 75 seconds and the next crash opens a fresh burst.
\<close>
theorem crash_loop_never_exhausts:
  assumes "get_server_any d i = Ok s" "s_crash_window_start s = None" "s_crash_restarts s = 0" "4 \<le> budget"
    and "\<forall>r\<in>set rs. 0 \<le> r"
  shows "length (crash_loop budget i rs t d) = length rs \<and> (\<forall>c\<in>set (crash_loop budget i rs t d). \<exists>u. c = Allowed u)"
  using looping_forever [OF assms(1) _ assms(4,5)] assms(2,3) by (simp add: looping_def)

lemma sat_i64_nonneg: "0 \<le> x \<Longrightarrow> 0 \<le> sat_i64 x"
  by (auto simp: sat_i64_def i64_bounds)

lemma backoff_sum_mono: "k \<le> b \<Longrightarrow> backoff_sum k \<le> backoff_sum b"
proof (induction b)
  case (Suc b)
  have "0 \<le> crash_backoff j" for j
    by (simp add: crash_backoff_def sat_mul_def sat_i64_nonneg)
  with Suc show ?case by (cases "k = Suc b") (simp_all add: backoff_sum_Suc add_increasing2)
qed simp

lemma hot_loop:
  assumes "get_server_any d i = Ok s" "s_crash_window_start s = Some (Stamp w)" "s_crash_restarts s = int k" "k \<le> b" "w \<le> t"
    and "t + (backoff_sum b - backoff_sum k) * 10 ^ 9 + sum_list (take (b - k) rs) \<le> w + 60 * 10 ^ 9"
    and "\<forall>r\<in>set rs. 0 \<le> r" "b - k < length rs"
  shows "crash_loop (int b) i rs t d = map (\<lambda>j. Allowed (int j)) [k..<b] @ [Exhausted (int b)]"
  using assms
proof (induction rs arbitrary: t d s k)
  case (Cons r rs)
  have sum: "0 \<le> sum_list (take m (r # rs))" for m
    using Cons.prems(7) set_take_subset by (fastforce intro!: sum_list_nonneg)
  have "t - w \<le> 60 * 10 ^ 9" using Cons.prems(6) sum [of "b - k"] backoff_sum_mono [OF Cons.prems(4)] by (smt (verit) mult_nonneg_nonneg zero_le_power)
  then have hot: "\<not> window_expired t (s_crash_window_start s)"
    using num_seconds_le [of "t - w"] Cons.prems(2,5) by (simp add: window_expired_def CRASH_WINDOW_SECS_def)
  show ?case
  proof (cases "k = b")
    case True
    then show ?thesis using consume_Exhausted [OF Cons.prems(1), of "int b" t] hot Cons.prems(3) by simp
  next
    case False
    with Cons.prems(4) have k: "k < b" by simp
    obtain d' s' where c: "consume_crash_budget t d i (int b) = Ok (d', Allowed (int k))" "get_server_any d' i = Ok s'"
      "s_crash_restarts s' = int k + 1" "s_crash_window_start s' = Some (Stamp w)"
      by (rule consume_Allowed [OF Cons.prems(1), of "int k" t "int b"]) (use hot Cons.prems(2,3) k in simp_all)
    let ?t = "t + crash_backoff (int k) * 10 ^ 9 + r"
    have take: "take (b - k) (r # rs) = r # take (b - Suc k) rs" using k by (simp add: Suc_diff_Suc [symmetric])
    have "0 \<le> crash_backoff (int k)" using backoff_sum_mono [of k "Suc k"] by (simp add: backoff_sum_Suc)
    then have wt: "w \<le> ?t" using Cons.prems(5,7) by simp
    have "?t + (backoff_sum b - backoff_sum (Suc k)) * 10 ^ 9 + sum_list (take (b - Suc k) rs) \<le> w + 60 * 10 ^ 9"
      using Cons.prems(6) unfolding take by (simp add: backoff_sum_Suc algebra_simps)
    with Cons.IH [OF c(2,4), of "Suc k"] c(3) wt k Cons.prems(7,8)
    have "crash_loop (int b) i rs ?t d' = map (\<lambda>j. Allowed (int j)) [Suc k..<b] @ [Exhausted (int b)]" by simp
    then show ?thesis using c(1) k by (simp add: upt_conv_Cons)
  qed
qed simp

text \<open>
  C35: when the back-offs of the budget and the running times fit into the crash window, the loop ends:
  the server gets its budget of restarts and the next crash is terminal.
\<close>
theorem crash_loop_terminates:
  assumes "get_server_any d i = Ok s" "s_crash_window_start s = None" "s_crash_restarts s = 0" "0 < b"
    and "backoff_sum b * 10 ^ 9 + sum_list (take b rs) \<le> 60 * 10 ^ 9" "\<forall>r\<in>set rs. 0 \<le> r" "b < length rs"
  shows "crash_loop (int b) i rs t d = map (\<lambda>j. Allowed (int j)) [0..<b] @ [Exhausted (int b)]"
proof -
  obtain r rs' where rs: "rs = r # rs'" using assms(7) by (cases rs) auto
  obtain d' s' where c: "consume_crash_budget t d i (int b) = Ok (d', Allowed 0)" "get_server_any d' i = Ok s'"
    "s_crash_restarts s' = 1" "s_crash_window_start s' = Some (Stamp t)"
    by (rule consume_Allowed [OF assms(1), of 0 t "int b"]) (use assms(2-4) in \<open>simp_all add: window_expired_def\<close>)
  have take: "take b (r # rs') = r # take (b - 1) rs'" using assms(4) by (cases b) auto
  have "crash_loop (int b) i rs' (t + crash_backoff 0 * 10 ^ 9 + r) d' = map (\<lambda>j. Allowed (int j)) [1..<b] @ [Exhausted (int b)]"
  proof (rule hot_loop [OF c(2,4)])
    show "t + crash_backoff 0 * 10 ^ 9 + r + (backoff_sum b - backoff_sum 1) * 10 ^ 9 + sum_list (take (b - 1) rs') \<le> t + 60 * 10 ^ 9"
      using assms(5) unfolding rs take by (simp add: backoff_sum_values(2) [unfolded One_nat_def] crash_backoff_values algebra_simps)
  qed (use c(3) assms(4,6,7) rs crash_backoff_values(1) in auto)
  then show ?thesis using c(1) assms(4) by (simp add: rs upt_conv_Cons)
qed

section \<open>Interleavings\<close>

text \<open>
  One step of the system; the label names the server of an explicit start. Exits and sleeping restarts
  are taken in any order, a restart not before its wake-up, and any other writer may change the
  database between two steps.
\<close>

inductive sup_step :: "int option \<Rightarrow> supervisor \<Rightarrow> supervisor \<Rightarrow> bool" where
  "sup_step (Some sid) sv (fst (start now ec spawn sid sv))"
| "sup_step None sv (stop now sid sv)"
| "sup_step None sv (kill now sid sv)"
| "sup_step None sv (reap_child now ec sid sv)"
| "sup_step None sv (set_stop sv)"
| "sv_exits sv = xs @ (sid, ec) # ys \<Longrightarrow> sup_step None sv (restart_begin now sid ec (sv\<lparr>sv_exits := xs @ ys\<rparr>))"
| "sv_sleeping sv = xs @ sl # ys \<Longrightarrow> sl_wake sl \<le> now \<Longrightarrow>
     sup_step None sv (restart_resume now cmd ec spawn sl (sv\<lparr>sv_sleeping := xs @ ys\<rparr>))"
| "sup_step None sv (sv\<lparr>sv_db := d\<rparr>)"

lemma set_proc_get [simp]:
  "hm_get (sv_procs (set_proc i ps sv)) j = (if j = i then Some ps else hm_get (sv_procs sv) j)"
  "sv_events (set_proc i ps sv) = sv_events sv" "sv_stopped (set_proc i ps sv) = sv_stopped sv"
  by (simp_all add: set_proc_def)

lemma emit_get [simp]:
  "sv_procs (emit_server_event i e sv) = sv_procs sv" "sv_events (emit_server_event i e sv) = sv_events sv @ [(i, e)]"
  by (simp_all add: emit_server_event_def)

lemma notify_get [simp]:
  "sv_procs (notify now l t m i sv) = sv_procs sv" "sv_events (notify now l t m i sv) = sv_events sv"
  "sv_stopped (notify now l t m i sv) = sv_stopped sv"
  by (simp_all add: notify_def)

lemma restart_begin_get [simp]:
  "sv_procs (restart_begin now i ec sv) = sv_procs sv" "sv_events (restart_begin now i ec sv) = sv_events sv"
  by (auto simp: restart_begin_def Let_def split: sum.splits exit_kind.splits crash_budget.splits prod.splits)






lemma gate_fst: "fst (gate_start now ec b i sv) = sv \<or> fst (gate_start now ec b i sv) = reap_child now ec i sv"
  by (simp add: gate_start_def Let_def)


lemma start_impl_cases:
  fixes now ec b i sv
  defines "g \<equiv> gate_start now ec b i (ensure_proc i sv)"
  shows "fst (start_impl now ec spawn b i sv) = sv \<or> fst (start_impl now ec spawn b i sv) = fst g
    \<or> (\<exists>pid. snd g = Ok () \<and> sv_procs (fst (start_impl now ec spawn b i sv)) = sv_procs (set_proc i (running_pstate now pid) (fst g))
         \<and> sv_events (fst (start_impl now ec spawn b i sv)) = sv_events (fst g) @ [(i, ''server.start'')])"
proof (cases "sv_stopped sv")
  case True
  then show ?thesis by (simp add: start_impl_def)
next
  case False
  obtain sv1 r where g: "g = (sv1, r)" by (cases g)
  then show ?thesis using False
    by (cases r; cases spawn) (auto simp: start_impl_def g_def [symmetric] Let_def)
qed




lemma restart_resume_cases:
  obtains "sv_procs (restart_resume now cmd ec spawn sl sv) = sv_procs sv"
      "sv_events (restart_resume now cmd ec spawn sl sv) = sv_events sv"
  | sv1 where "sv_procs sv1 = sv_procs sv" "sv_events sv1 = sv_events sv"
      "sv_procs (restart_resume now cmd ec spawn sl sv) = sv_procs (fst (start_impl now ec spawn True (sl_server sl) sv1))"
      "sv_events (restart_resume now cmd ec spawn sl sv) = sv_events (fst (start_impl now ec spawn True (sl_server sl) sv1))"
proof -
  let ?lat = "case hm_get (sv_procs sv) (sl_server sl) of Some ps \<Rightarrow> ps_stop_issued ps | None \<Rightarrow> True"
  show thesis
  proof (cases "\<exists>srv c. \<not> ?lat \<and> get_server (sv_db sv) (sl_server sl) = Ok srv \<and> s_auto_restart srv \<and> \<not> s_suspended srv \<and> cmd = Ok c")
    case True
    then obtain srv c where srv: "\<not> ?lat" "get_server (sv_db sv) (sl_server sl) = Ok srv" "s_auto_restart srv"
      "\<not> s_suspended srv" "cmd = Ok c" by blast
    let ?sv1 = "notify now ''info'' (''Restarting '' @ squote # s_name srv @ [squote])
        (sl_reason sl @ ''; backoff '' @ show_int (crash_backoff (sl_used sl))) (sl_server sl)
        (sv\<lparr>sv_db := bump_restart_count now (sv_db sv) (sl_server sl)\<rparr>)"
    obtain sv3 r where st: "start_impl now ec spawn True (sl_server sl) ?sv1 = (sv3, r)" by fastforce
    have "restart_resume now cmd ec spawn sl sv = (case r of Ok _ \<Rightarrow> sv3
        | Err e \<Rightarrow> notify now ''error'' ''Restart failed'' (proc_error_text e) (sl_server sl) sv3)"
      unfolding restart_resume_def Let_def using srv st by (simp del: option.case_eq_if)
    then show thesis using st by (intro that(2) [of ?sv1]) (auto split: sum.splits)
  next
    case False
    then show thesis by (intro that(1)) (auto simp: restart_resume_def Let_def split: sum.splits)
  qed
qed



section \<open>The operator's stop wins\<close>

definition starts :: "int \<Rightarrow> supervisor \<Rightarrow> nat" where
  "starts j sv = length (filter (\<lambda>e. e = (j, ''server.start'')) (sv_events sv))"

definition latched :: "int \<Rightarrow> nat option \<Rightarrow> nat \<Rightarrow> supervisor \<Rightarrow> bool" where
  "latched j p n sv \<longleftrightarrow> starts j sv = n
     \<and> (\<exists>ps. hm_get (sv_procs sv) j = Some ps \<and> ps_stop_issued ps \<and> (ps_pid ps = None \<or> ps_pid ps = p))"

lemma latched_cong: "sv_procs sv' = sv_procs sv \<Longrightarrow> sv_events sv' = sv_events sv \<Longrightarrow> latched j p n sv' \<longleftrightarrow> latched j p n sv"
  by (simp add: latched_def starts_def)

lemma reap_latched: "latched j p n sv \<Longrightarrow> latched j p n (reap_child now ec i sv)"
  by (auto simp: latched_def starts_def reap_child_def Let_def split: option.splits exit_kind.splits)

lemma gate_latched: "latched j p n sv \<Longrightarrow> latched j p n (fst (gate_start now ec b i sv))"
  using gate_fst [of now ec b i sv] reap_latched by metis

lemma gate_refuses:
  assumes "latched j p n sv"
  shows "snd (gate_start now ec True j sv) = Err ServerStopping"
proof -
  have "latched j p n (reap_child now ec j sv)" by (rule reap_latched [OF assms])
  with assms show ?thesis by (auto simp: gate_start_def Let_def latched_def)
qed

lemma start_latched:
  assumes "latched j p n sv" "i \<noteq> j \<or> b"
  shows "latched j p n (fst (start_impl now ec spawn b i sv))"
proof -
  have 0: "latched j p n (ensure_proc i sv)" using assms(1) by (auto simp: ensure_proc_def latched_def starts_def)
  have g: "latched j p n (fst (gate_start now ec b i (ensure_proc i sv)))" by (rule gate_latched [OF 0])
  consider "fst (start_impl now ec spawn b i sv) = sv"
    | "fst (start_impl now ec spawn b i sv) = fst (gate_start now ec b i (ensure_proc i sv))"
    | pid where "snd (gate_start now ec b i (ensure_proc i sv)) = Ok ()"
        "sv_procs (fst (start_impl now ec spawn b i sv))
           = sv_procs (set_proc i (running_pstate now pid) (fst (gate_start now ec b i (ensure_proc i sv))))"
        "sv_events (fst (start_impl now ec spawn b i sv))
           = sv_events (fst (gate_start now ec b i (ensure_proc i sv))) @ [(i, ''server.start'')]"
    using start_impl_cases [of now ec spawn b i sv] by blast
  then show ?thesis
  proof cases
    case 3
    have "i \<noteq> j" using gate_refuses [OF 0, of now ec] assms(2) 3(1) by (cases "i = j") auto
    then show ?thesis using g unfolding latched_def starts_def 3(2,3) by auto
  qed (use assms(1) g in simp_all)
qed

lemma restart_resume_latched: "latched j p n sv \<Longrightarrow> latched j p n (restart_resume now cmd ec spawn sl sv)"
  by (cases rule: restart_resume_cases [of now cmd ec spawn sl sv]) (metis latched_cong start_latched)+

lemma stop_latched: "latched j p n sv \<Longrightarrow> latched j p n (stop now i sv)"
  by (auto simp: latched_def starts_def stop_def Let_def split: option.splits)

lemma kill_latched: "latched j p n sv \<Longrightarrow> latched j p n (kill now i sv)"
  by (auto simp: latched_def starts_def kill_def split: option.splits)

lemma sup_step_latched: "sup_step l sv sv' \<Longrightarrow> latched j p n sv \<Longrightarrow> l \<noteq> Some j \<Longrightarrow> latched j p n sv'"
proof (induction rule: sup_step.induct)
  case (1 sid sv now ec spawn)
  then show ?case by (simp add: start_def start_latched)
next
  case (6 sv xs sid ec ys now)
  then show ?case by (simp add: latched_def starts_def)
next
  case (7 sv xs sl ys now cmd ec spawn)
  then show ?case by (intro restart_resume_latched) (simp add: latched_def starts_def)
next
  case (5 sv)
  then show ?case by (simp add: set_stop_def latched_def starts_def)
next
  case (8 sv d)
  then show ?case by (simp add: latched_def starts_def)
qed (simp_all add: stop_latched kill_latched reap_latched)


interpretation stopped: invariant_system "latched j p n" "\<lambda>sv sv'. \<exists>l. l \<noteq> Some j \<and> sup_step l sv sv'" "latched j p n"
  for j p n
  by unfold_locales (auto intro: sup_step_latched)








text \<open>
  C6: the operator's stop wins. After a stop of a server, whatever crashes, restarts already sleeping in
  their back-off, starts of other servers and database writes follow, no process of that server is
  started until somebody starts it explicitly: the only pid it can have is the one being stopped, and
  no start event is emitted.
\<close>
theorem stop_wins:
  assumes "hm_get (sv_procs sv) sid = Some ps"
    and "(\<lambda>a b. \<exists>l. l \<noteq> Some sid \<and> sup_step l a b)\<^sup>*\<^sup>* (stop now sid sv) sv'"
  shows "starts sid sv' = starts sid sv
    \<and> (\<exists>ps'. hm_get (sv_procs sv') sid = Some ps' \<and> ps_stop_issued ps' \<and> (ps_pid ps' = None \<or> ps_pid ps' = ps_pid ps))"
proof -
  have "latched sid (ps_pid ps) (starts sid sv) (stop now sid sv)"
    using assms(1) by (auto simp: stop_def Let_def latched_def starts_def split: option.splits)
  from stopped.steps_inv [OF assms(2) this] show ?thesis by (simp add: latched_def)
qed

section \<open>Worked instances\<close>

definition wsrv :: "int \<Rightarrow> server" where
  "wsrv budget = (new_server_row 0 7 ''u'' ''srv'' 1 1 [] [] 512 1024 100 0)\<lparr>s_auto_restart := True, s_crash_restart_budget := budget\<rparr>"

definition wsup :: supervisor where
  "wsup = \<lparr>sv_db = empty_db\<lparr>servers := [wsrv 5]\<rparr>, sv_procs = [(7, running_pstate 0 42)], sv_exits = [], sv_sleeping = [],
     sv_events = [(7, ''server.start'')], sv_notifier = \<lparr>nf_next = 0, nf_history = []\<rparr>, sv_stopped = False\<rparr>"

lemmas supervisor_witness = wsrv_def new_server_row_def empty_db_def get_server_any_def

theorem burst_gets_exactly_budget_witness:
  "crash_run (empty_db\<lparr>servers := [wsrv 2]\<rparr>) 7 2 [0, 10 ^ 9, 2 * 10 ^ 9] = [Allowed 0, Allowed 1, Exhausted 2]"
  using burst_gets_exactly_budget [of "empty_db\<lparr>servers := [wsrv 2]\<rparr>" 7 "wsrv 2" 2 "[10 ^ 9, 2 * 10 ^ 9]" 0]
  by (simp add: supervisor_witness num_seconds_def burst_outcome_def upt_rec)

theorem crash_loop_never_exhausts_witness:
  "length (crash_loop 5 7 [0, 0, 0, 0, 0, 0] 0 (empty_db\<lparr>servers := [wsrv 5]\<rparr>)) = 6"
  using crash_loop_never_exhausts [of "empty_db\<lparr>servers := [wsrv 5]\<rparr>" 7 "wsrv 5" 5 "[0, 0, 0, 0, 0, 0]" 0]
  by (simp add: supervisor_witness)

theorem crash_loop_terminates_witness:
  "crash_loop 3 7 [0, 0, 0, 0, 0] 0 (empty_db\<lparr>servers := [wsrv 3]\<rparr>) = [Allowed 0, Allowed 1, Allowed 2, Exhausted 3]"
  using crash_loop_terminates [of "empty_db\<lparr>servers := [wsrv 3]\<rparr>" 7 "wsrv 3" 3 "[0, 0, 0, 0, 0]" 0]
  by (simp add: supervisor_witness backoff_sum_values upt_rec)


theorem stop_wins_witness:
  "starts 7 (reap_child 9 (Some 143) 7 (stop 3 7 wsup)) = 1"
proof -
  have p: "hm_get (sv_procs wsup) 7 = Some (running_pstate 0 42)" by (simp add: wsup_def hm_get_def)
  have "(\<lambda>a b. \<exists>l. l \<noteq> Some 7 \<and> sup_step l a b)\<^sup>*\<^sup>* (stop 3 7 wsup) (reap_child 9 (Some 143) 7 (stop 3 7 wsup))"
    by (intro r_into_rtranclp exI [of _ None] conjI sup_step.intros(4)) simp
  from stop_wins [OF p this] show ?thesis by (simp add: starts_def wsup_def)
qed

end
