(* ===== verification/Scheduler.thy ===== *)
theory Scheduler
  imports Supervisor
begin

text \<open>
  The schedule engine (\<open>src/src/services/scheduler.rs\<close>) and its tables (\<open>src/src/models.rs\<close>): cron
  normalisation and fire times, the claims that allow one active attempt per schedule, the attempt that
  walks a task chain behind its flow gates, retries with exponential back-off that resume at the failing
  task, recovery of orphaned rows and pruning. The cron and JSON crates, the clock, the liveness probe of
  the workspace and the outcome of executing a task are arguments.
\<close>

section \<open>State\<close>

record schedule =
  sc_id :: int
  sc_server :: int
  sc_name :: string
  sc_cron :: string
  sc_enabled :: bool
  sc_last :: "stamp option"
  sc_next :: "stamp option"
  sc_created :: instant
  sc_max_retries :: int
  sc_backoff :: int
  sc_only_online :: bool
  sc_tz :: string

record sched_task =
  tk_id :: int
  tk_schedule :: int
  tk_action :: string
  tk_payload :: string
  tk_sequence :: int
  tk_condition :: "string option"

datatype run_status = Running | Pending | Success | Failed | Retry

record sched_run =
  rn_id :: int
  rn_schedule :: int
  rn_triggered :: stamp
  rn_status :: run_status
  rn_log :: string
  rn_attempt :: int
  rn_finished :: "instant option"
  rn_tag :: "string option"
  rn_index :: int
  rn_exits :: "(nat, int) hmap"

text \<open>\<open>sd_live\<close> and \<open>sd_tag\<close> are the process-wide \<open>SCHED_STATE\<close>; \<open>sd_emitted\<close> the \<open>schedule.run\<close> events;
  \<open>sd_effects\<close> the tasks executed so far, by chain position, and whether they completed.\<close>

record sched_db =
  sd_schedules :: "schedule list"
  sd_seq :: int
  sd_tasks :: "sched_task list"
  sd_task_seq :: int
  sd_runs :: "sched_run list"
  sd_run_seq :: int
  sd_tag :: string
  sd_live :: "int set"
  sd_emitted :: "(int \<times> int \<times> run_status \<times> int) list"
  sd_effects :: "(nat \<times> bool) list"
  sd_notifier :: notifier

datatype sched_error =
    ScheduleNotFound | InvalidCron | NoFutureRun | SchedConstraint
  | GateNotObject | GateNoKind | GateTaskIndex | GateCode | GateEvent | GateServer | GateTimeoutRange
  | GateUnknownKind string | GateNotEarlier nat | GateCorrupt
  | GateBadRef nat nat | GateNoExit nat | GateExitMismatch nat int int | GateTimeout string int nat
  | TaskFailed string

definition STALE_RUN_AGE_S :: int where "STALE_RUN_AGE_S = 5 * 60"
definition OFFLINE_CATCHUP_WINDOW_S :: int where "OFFLINE_CATCHUP_WINDOW_S = 5 * 60"
definition RUN_RETENTION_DAYS :: int where "RUN_RETENTION_DAYS = 30"

definition sched_secs :: "int \<Rightarrow> instant" where "sched_secs n = n * 10 ^ 9"

section \<open>Cron expressions and time zones\<close>

text \<open>The number of words of \<open>split_whitespace\<close>; \<open>inw\<close> tells whether a word is open.\<close>

function count_words :: "bool \<Rightarrow> string \<Rightarrow> nat" where
  "count_words inw s =
     (if s = [] then (if inw then 1 else 0)
      else if 0 < ws_len s then (if inw then 1 else 0) + count_words False (drop (ws_len s) s)
      else count_words True (tl s))"
  by pat_completeness auto
termination
  by (relation "measure (\<lambda>(b, s). length s)") auto

declare count_words.simps [simp del]

definition normalize_cron :: "string \<Rightarrow> string" where
  "normalize_cron expr = (if count_words False expr = 5 then ''0 '' @ expr else expr)"

text \<open>\<open>cron_parse\<close> and \<open>cron_after\<close> are the cron crate: a parsed schedule and its next occurrence in a zone.\<close>

definition parse_cron :: "(string \<Rightarrow> 'c option) \<Rightarrow> string \<Rightarrow> (sched_error, 'c) result" where
  "parse_cron cron_parse expr = (case cron_parse (normalize_cron expr) of Some c \<Rightarrow> Ok c | None \<Rightarrow> Err InvalidCron)"

definition next_run_tz ::
  "(string \<Rightarrow> 'c option) \<Rightarrow> ('c \<Rightarrow> int \<Rightarrow> instant \<Rightarrow> instant option) \<Rightarrow> string \<Rightarrow> instant \<Rightarrow> int \<Rightarrow> (sched_error, instant) result" where
  "next_run_tz cron_parse cron_after expr after tz =
     rbind (parse_cron cron_parse expr) (\<lambda>c. case cron_after c tz after of Some t \<Rightarrow> Ok t | None \<Rightarrow> Err NoFutureRun)"

definition next_run ::
  "(string \<Rightarrow> 'c option) \<Rightarrow> ('c \<Rightarrow> int \<Rightarrow> instant \<Rightarrow> instant option) \<Rightarrow> string \<Rightarrow> instant \<Rightarrow> (sched_error, instant) result" where
  "next_run cron_parse cron_after expr after = next_run_tz cron_parse cron_after expr after 0"

definition parse_schedule_tz :: "(string \<Rightarrow> int option) \<Rightarrow> string \<Rightarrow> int" where
  "parse_schedule_tz parse_offset s =
     (let t = trim s in
      if t = [] \<or> eq_ignore_ascii_case t ''utc'' \<or> eq_ignore_ascii_case t ''z'' then 0
      else case parse_offset t of Some o' \<Rightarrow> o' | None \<Rightarrow> 0)"

section \<open>Retry arithmetic\<close>

text \<open>A shift by a negative amount does not occur: attempts count from one.\<close>

definition backoff_secs :: "int \<Rightarrow> int \<Rightarrow> int" where
  "backoff_secs base attempt =
     (if base \<le> 0 then 0
      else let e = sat_sub attempt 1;
               factor = (if 63 \<le> e then i64_max else wrap_i64 (2 ^ nat (e mod 64)))
           in sat_mul base factor)"

definition retries_remain :: "int \<Rightarrow> int \<Rightarrow> bool" where
  "retries_remain attempt max_retries \<longleftrightarrow> attempt \<le> max_retries"

definition backoff_delay_s :: "int \<Rightarrow> int \<Rightarrow> int" where
  "backoff_delay_s base attempt = clamp_to 0 (i64_max div 1000000000) (backoff_secs base attempt)"

definition should_run :: "bool \<Rightarrow> bool \<Rightarrow> bool \<Rightarrow> bool" where
  "should_run enabled only_when_online is_online \<longleftrightarrow> enabled \<and> (\<not> only_when_online \<or> is_online)"

record retry_policy =
  rp_max_retries :: int
  rp_backoff_s :: int
  rp_only_when_online :: bool

definition find_schedule :: "sched_db \<Rightarrow> int \<Rightarrow> schedule option" where
  "find_schedule d i = find (\<lambda>s. sc_id s = i) (sd_schedules d)"

definition policy :: "sched_db \<Rightarrow> int \<Rightarrow> (sched_error, retry_policy) result" where
  "policy d i = (case find_schedule d i of
     Some s \<Rightarrow> Ok \<lparr>rp_max_retries = sc_max_retries s, rp_backoff_s = sc_backoff s, rp_only_when_online = sc_only_online s\<rparr>
   | None \<Rightarrow> Err ScheduleNotFound)"

definition schedule_tz :: "(string \<Rightarrow> int option) \<Rightarrow> sched_db \<Rightarrow> int \<Rightarrow> int" where
  "schedule_tz parse_offset d i = (case find_schedule d i of Some s \<Rightarrow> parse_schedule_tz parse_offset (sc_tz s) | None \<Rightarrow> 0)"

section \<open>Flow gates\<close>

datatype json = JNull | JBool bool | JInt int | JFloat | JStr string | JArr "json list" | JObj "(string \<times> json) list"

datatype gate = GExit nat int | GSignal string int nat

fun as_i64 :: "json \<Rightarrow> int option" where
  "as_i64 (JInt i) = (if in_i64 i then Some i else None)"
| "as_i64 _ = None"

fun as_u64 :: "json \<Rightarrow> int option" where
  "as_u64 (JInt i) = (if 0 \<le> i \<and> i < 2 ^ 64 then Some i else None)"
| "as_u64 _ = None"

fun as_str_json :: "json \<Rightarrow> string option" where
  "as_str_json (JStr s) = Some s"
| "as_str_json _ = None"

definition opt_filter :: "('a \<Rightarrow> bool) \<Rightarrow> 'a option \<Rightarrow> 'a option" where
  "opt_filter P x = (case x of Some v \<Rightarrow> if P v then Some v else None | None \<Rightarrow> None)"

definition ok_or :: "'a option \<Rightarrow> 'e \<Rightarrow> ('e, 'a) result" where
  "ok_or x e = (case x of Some v \<Rightarrow> Ok v | None \<Rightarrow> Err e)"

definition json_field :: "(string \<times> json) list \<Rightarrow> string \<Rightarrow> (json \<Rightarrow> 'a option) \<Rightarrow> 'a option" where
  "json_field obj k conv = Option.bind (map_of obj k) conv"

fun gate_from_value :: "json \<Rightarrow> (sched_error, gate option) result" where
  "gate_from_value (JObj obj) =
     rbind (ok_or (json_field obj ''kind'' as_str_json) GateNoKind) (\<lambda>kind.
       if kind = ''none'' then Ok None
       else if kind = ''exit'' then
         rbind (ok_or (opt_filter (\<lambda>x. 0 \<le> x) (json_field obj ''task_index'' as_i64)) GateTaskIndex) (\<lambda>ti.
           rbind (ok_or (json_field obj ''code'' as_i64) GateCode) (\<lambda>c. Ok (Some (GExit (nat ti) c))))
       else if kind = ''signal'' then
         rbind (ok_or (opt_filter (\<lambda>s. s \<noteq> []) (json_field obj ''event'' as_str_json)) GateEvent) (\<lambda>ev.
           rbind (ok_or (json_field obj ''server_id'' as_i64) GateServer) (\<lambda>sid.
             rbind (ok_or (opt_filter (\<lambda>t. 1 \<le> t \<and> t \<le> 3600) (json_field obj ''timeout_s'' as_u64)) GateTimeoutRange) (\<lambda>t.
               Ok (Some (GSignal ev sid (nat t))))))
       else Err (GateUnknownKind kind))"
| "gate_from_value _ = Err GateNotObject"

text \<open>The derived \<open>Serialize\<close> of \<open>Gate\<close>: tagged by \<open>kind\<close>, lower case.\<close>

fun gate_to_value :: "gate \<Rightarrow> json" where
  "gate_to_value (GExit ti c) = JObj [(''kind'', JStr ''exit''), (''task_index'', JInt (int ti)), (''code'', JInt c)]"
| "gate_to_value (GSignal ev sid t) =
     JObj [(''kind'', JStr ''signal''), (''event'', JStr ev), (''server_id'', JInt sid), (''timeout_s'', JInt (int t))]"

definition validate_condition :: "(json \<Rightarrow> string) \<Rightarrow> json option \<Rightarrow> nat \<Rightarrow> (sched_error, string option) result" where
  "validate_condition print cond own_index =
     (case cond of
        None \<Rightarrow> Ok None
      | Some v \<Rightarrow>
          rbind (gate_from_value v) (\<lambda>g.
            case g of
              None \<Rightarrow> Ok None
            | Some (GExit ti c) \<Rightarrow> if own_index \<le> ti then Err (GateNotEarlier own_index) else Ok (Some (print (gate_to_value (GExit ti c))))
            | Some (GSignal ev sid t) \<Rightarrow> Ok (Some (print (gate_to_value (GSignal ev sid t))))))"

text \<open>The signal gate polls the recent-event registry every 250 ms until the deadline.\<close>

function wait_signal_loop :: "(instant \<Rightarrow> bool) \<Rightarrow> instant \<Rightarrow> instant \<Rightarrow> bool" where
  "wait_signal_loop seen deadline t =
     (if seen t then True else if deadline \<le> t then False else wait_signal_loop seen deadline (t + 250000000))"
  by pat_completeness auto
termination
  by (relation "measure (\<lambda>(seen, deadline, t). nat (deadline - t))") auto

declare wait_signal_loop.simps [simp del]

type_synonym registry = "string \<Rightarrow> int \<Rightarrow> instant \<Rightarrow> instant \<Rightarrow> bool"

definition wait_signal :: "registry \<Rightarrow> instant \<Rightarrow> string \<Rightarrow> int \<Rightarrow> nat \<Rightarrow> (sched_error, unit) result" where
  "wait_signal recent now event server_id timeout_s =
     (if wait_signal_loop (recent event server_id now) (now + sched_secs (int timeout_s)) now then Ok ()
      else Err (GateTimeout event server_id timeout_s))"

definition eval_gate ::
  "(string \<Rightarrow> json option) \<Rightarrow> registry \<Rightarrow> instant \<Rightarrow> nat \<Rightarrow> int \<Rightarrow> string option \<Rightarrow> (nat, int) hmap \<Rightarrow> (sched_error, unit) result" where
  "eval_gate parse recent now own_index schedule_server_id cond_raw exits =
     (case cond_raw of
        None \<Rightarrow> Ok ()
      | Some raw \<Rightarrow>
          rbind (ok_or (parse raw) GateCorrupt) (\<lambda>v. rbind (gate_from_value v) (\<lambda>g.
            case g of
              None \<Rightarrow> Ok ()
            | Some (GExit ti c) \<Rightarrow>
                if own_index \<le> ti then Err (GateBadRef ti own_index)
                else (case hm_get exits ti of
                        Some recorded \<Rightarrow> if recorded = c then Ok () else Err (GateExitMismatch ti recorded c)
                      | None \<Rightarrow> Err (GateNoExit ti))
            | Some (GSignal ev _ t) \<Rightarrow> wait_signal recent now ev schedule_server_id t)))"

section \<open>Schedules and tasks\<close>

definition set_runs :: "(sched_run list \<Rightarrow> sched_run list) \<Rightarrow> sched_db \<Rightarrow> sched_db" where
  "set_runs f d = d\<lparr>sd_runs := f (sd_runs d)\<rparr>"

definition on_run :: "int \<Rightarrow> (sched_run \<Rightarrow> sched_run) \<Rightarrow> sched_db \<Rightarrow> sched_db" where
  "on_run i f d = set_runs (update_rows (\<lambda>r. rn_id r = i) f) d"

definition on_schedule :: "int \<Rightarrow> (schedule \<Rightarrow> schedule) \<Rightarrow> sched_db \<Rightarrow> sched_db" where
  "on_schedule i f d = d\<lparr>sd_schedules := update_rows (\<lambda>s. sc_id s = i) f (sd_schedules d)\<rparr>"

text \<open>\<open>ORDER BY sequence, id\<close>.\<close>

definition schedule_tasks :: "sched_db \<Rightarrow> int \<Rightarrow> sched_task list" where
  "schedule_tasks d i = sort_key tk_sequence (sort_key tk_id (filter (\<lambda>t. tk_schedule t = i) (sd_tasks d)))"

definition get_schedule :: "sched_db \<Rightarrow> int \<Rightarrow> (sched_error, schedule \<times> sched_task list) result" where
  "get_schedule d i = (case find_schedule d i of Some s \<Rightarrow> Ok (s, schedule_tasks d i) | None \<Rightarrow> Err ScheduleNotFound)"

definition create_schedule ::
  "(int \<Rightarrow> bool) \<Rightarrow> instant \<Rightarrow> sched_db \<Rightarrow> int \<Rightarrow> string \<Rightarrow> string \<Rightarrow> bool \<Rightarrow> int \<Rightarrow> int \<Rightarrow> bool \<Rightarrow> (sched_error, sched_db \<times> int) result" where
  "create_schedule server_exists now d sid name cron_expr enabled max_retries backoff only_online =
     (if \<not> server_exists sid then Err SchedConstraint
      else let i = sd_seq d + 1 in
        Ok (d\<lparr>sd_schedules := sd_schedules d @ [\<lparr>sc_id = i, sc_server = sid, sc_name = name, sc_cron = cron_expr,
              sc_enabled = enabled, sc_last = None, sc_next = None, sc_created = now, sc_max_retries = max_retries,
              sc_backoff = backoff, sc_only_online = only_online, sc_tz = ''UTC''\<rparr>], sd_seq := i\<rparr>, i))"

definition insert_task :: "int \<Rightarrow> string \<Rightarrow> string \<Rightarrow> int \<Rightarrow> string option \<Rightarrow> sched_db \<Rightarrow> sched_db" where
  "insert_task sid action payload sequence cond d = d\<lparr>sd_tasks := sd_tasks d @ [\<lparr>tk_id = sd_task_seq d + 1, tk_schedule = sid,
     tk_action = action, tk_payload = payload, tk_sequence = sequence, tk_condition = cond\<rparr>], sd_task_seq := sd_task_seq d + 1\<rparr>"

fun insert_tasks :: "int \<Rightarrow> (string \<times> string \<times> int) list \<Rightarrow> sched_db \<Rightarrow> sched_db" where
  "insert_tasks sid [] d = d"
| "insert_tasks sid ((a, p, q) # ts) d = insert_tasks sid ts (insert_task sid a p q None d)"

definition create_schedule_with_tasks ::
  "(int \<Rightarrow> bool) \<Rightarrow> instant \<Rightarrow> sched_db \<Rightarrow> int \<Rightarrow> string \<Rightarrow> string \<Rightarrow> bool \<Rightarrow> int \<Rightarrow> int \<Rightarrow> bool \<Rightarrow> (string \<times> string \<times> int) list
     \<Rightarrow> (sched_error, sched_db \<times> int) result" where
  "create_schedule_with_tasks server_exists now d sid name cron_expr enabled max_retries backoff only_online tasks =
     rbind (create_schedule server_exists now d sid name cron_expr enabled max_retries backoff only_online)
       (\<lambda>(d', i). Ok (insert_tasks i tasks d', i))"

definition update_schedule :: "sched_db \<Rightarrow> schedule \<Rightarrow> sched_db" where
  "update_schedule d s =
     on_schedule (sc_id s) (\<lambda>r. r\<lparr>sc_name := sc_name s, sc_cron := sc_cron s, sc_enabled := sc_enabled s\<rparr>) d"

definition update_schedule_settings :: "sched_db \<Rightarrow> int \<Rightarrow> int option \<Rightarrow> int option \<Rightarrow> bool option \<Rightarrow> sched_db" where
  "update_schedule_settings d i mr bs owo = on_schedule i (\<lambda>r. r\<lparr>
     sc_max_retries := (case mr of Some v \<Rightarrow> v | None \<Rightarrow> sc_max_retries r),
     sc_backoff := (case bs of Some v \<Rightarrow> v | None \<Rightarrow> sc_backoff r),
     sc_only_online := (case owo of Some v \<Rightarrow> v | None \<Rightarrow> sc_only_online r)\<rparr>) d"

definition set_schedule_next :: "sched_db \<Rightarrow> int \<Rightarrow> instant option \<Rightarrow> sched_db" where
  "set_schedule_next d i t = on_schedule i (\<lambda>s. s\<lparr>sc_next := map_option Stamp t\<rparr>) d"

definition set_schedule_last :: "sched_db \<Rightarrow> int \<Rightarrow> instant option \<Rightarrow> sched_db" where
  "set_schedule_last d i t = on_schedule i (\<lambda>s. s\<lparr>sc_last := map_option Stamp t\<rparr>) d"

text \<open>Deleting a schedule cascades to its tasks and runs.\<close>

definition delete_schedule :: "sched_db \<Rightarrow> int \<Rightarrow> sched_db" where
  "delete_schedule d i = d\<lparr>sd_schedules := filter (\<lambda>s. sc_id s \<noteq> i) (sd_schedules d),
     sd_tasks := filter (\<lambda>t. tk_schedule t \<noteq> i) (sd_tasks d), sd_runs := filter (\<lambda>r. rn_schedule r \<noteq> i) (sd_runs d)\<rparr>"

definition add_schedule_task :: "sched_db \<Rightarrow> int \<Rightarrow> string \<Rightarrow> string \<Rightarrow> int \<Rightarrow> (sched_error, sched_db \<times> int) result" where
  "add_schedule_task d i action payload sequence =
     (if find_schedule d i = None then Err SchedConstraint
      else let d' = insert_task i action payload sequence None d in Ok (d', sd_task_seq d'))"

definition delete_schedule_task :: "sched_db \<Rightarrow> int \<Rightarrow> int \<Rightarrow> sched_db \<times> bool" where
  "delete_schedule_task d schedule_id i =
     (d\<lparr>sd_tasks := filter (\<lambda>t. \<not> (tk_id t = i \<and> tk_schedule t = schedule_id)) (sd_tasks d)\<rparr>,
      exists_row (\<lambda>t. tk_id t = i \<and> tk_schedule t = schedule_id) (sd_tasks d))"

fun insert_replacements :: "int \<Rightarrow> (string \<times> string \<times> int \<times> string option) list \<Rightarrow> sched_db \<Rightarrow> sched_db" where
  "insert_replacements sid [] d = d"
| "insert_replacements sid ((a, p, q, c) # ts) d = insert_replacements sid ts (insert_task sid a p q c d)"

definition replace_schedule_tasks ::
  "sched_db \<Rightarrow> int \<Rightarrow> (string \<times> string \<times> int \<times> string option) list \<Rightarrow> (sched_error, sched_db) result" where
  "replace_schedule_tasks d i tasks =
     (if find_schedule d i = None then Err ScheduleNotFound
      else Ok (insert_replacements i tasks (d\<lparr>sd_tasks := filter (\<lambda>t. tk_schedule t \<noteq> i) (sd_tasks d)\<rparr>)))"

section \<open>Claims, recovery and pruning\<close>

definition mark_live :: "int \<Rightarrow> sched_db \<Rightarrow> sched_db" where
  "mark_live i d = d\<lparr>sd_live := insert i (sd_live d)\<rparr>"

definition unmark_live :: "int \<Rightarrow> sched_db \<Rightarrow> sched_db" where
  "unmark_live i d = d\<lparr>sd_live := sd_live d - {i}\<rparr>"

definition claim_fresh_run :: "sched_db \<Rightarrow> int \<Rightarrow> instant \<Rightarrow> (sched_error, sched_db \<times> int option) result" where
  "claim_fresh_run d schedule_id now =
     (if exists_row (\<lambda>r. rn_schedule r = schedule_id \<and> (rn_status r = Running \<or> rn_status r = Pending)) (sd_runs d)
      then Ok (d, None)
      else if find_schedule d schedule_id = None then Err SchedConstraint
      else let i = sd_run_seq d + 1 in
        Ok (d\<lparr>sd_runs := sd_runs d @ [\<lparr>rn_id = i, rn_schedule = schedule_id, rn_triggered = Stamp now, rn_status = Running,
                rn_log = [], rn_attempt = 1, rn_finished = None, rn_tag = Some (sd_tag d), rn_index = 0, rn_exits = []\<rparr>],
              sd_run_seq := i\<rparr>, Some i))"

definition retry_claimable :: "sched_db \<Rightarrow> int \<Rightarrow> sched_run \<Rightarrow> bool" where
  "retry_claimable d run_id r \<longleftrightarrow> rn_id r = run_id \<and> rn_status r = Pending
     \<and> (case find (\<lambda>x. rn_id x = run_id) (sd_runs d) of
          None \<Rightarrow> False
        | Some x \<Rightarrow>
            (case find_schedule d (rn_schedule x) of Some s \<Rightarrow> sc_enabled s | None \<Rightarrow> False)
            \<and> \<not> exists_row (\<lambda>y. rn_schedule y = rn_schedule x \<and> rn_id y \<noteq> run_id \<and> rn_status y = Running) (sd_runs d))"

definition claim_pending_retry :: "sched_db \<Rightarrow> int \<Rightarrow> sched_db \<times> bool" where
  "claim_pending_retry d run_id =
     (set_runs (update_rows (retry_claimable d run_id) (\<lambda>r. r\<lparr>rn_status := Running, rn_tag := Some (sd_tag d)\<rparr>)) d,
      exists_row (retry_claimable d run_id) (sd_runs d))"

definition stale :: "instant \<Rightarrow> sched_db \<Rightarrow> sched_run \<Rightarrow> bool" where
  "stale now d r \<longleftrightarrow> rn_status r = Running \<and>
     (case rn_tag r of
        Some t \<Rightarrow> if t = sd_tag d then rn_id r \<notin> sd_live d else True
      | None \<Rightarrow> (case rn_triggered r of Stamp t \<Rightarrow> sched_secs STALE_RUN_AGE_S < now - t | BadStamp \<Rightarrow> True))"

definition recover_stale_running :: "instant \<Rightarrow> sched_db \<Rightarrow> sched_db \<times> nat" where
  "recover_stale_running now d =
     (set_runs (update_rows (stale now d) (\<lambda>r. r\<lparr>rn_status := Failed, rn_finished := Some now\<rparr>)) d,
      count_rows (stale now d) (sd_runs d))"

text \<open>\<open>COALESCE(finished_at, triggered_at)\<close>; an unparseable text compares as a string and is kept apart.\<close>

definition prunable :: "instant \<Rightarrow> sched_run \<Rightarrow> bool" where
  "prunable now r \<longleftrightarrow> rn_status r \<in> {Success, Failed, Retry} \<and>
     (case rn_finished r of
        Some t \<Rightarrow> t < now - sched_secs (RUN_RETENTION_DAYS * 86400)
      | None \<Rightarrow> (case rn_triggered r of Stamp t \<Rightarrow> t < now - sched_secs (RUN_RETENTION_DAYS * 86400) | BadStamp \<Rightarrow> False))"

definition prune_terminal_runs :: "instant \<Rightarrow> sched_db \<Rightarrow> sched_db \<times> nat" where
  "prune_terminal_runs now d = (set_runs (filter (\<lambda>r. \<not> prunable now r)) d, count_rows (prunable now) (sd_runs d))"

section \<open>Attempts\<close>

definition finish_run_on :: "instant \<Rightarrow> int \<Rightarrow> run_status \<Rightarrow> string \<Rightarrow> bool \<Rightarrow> sched_db \<Rightarrow> sched_db" where
  "finish_run_on now run_id st log terminal =
     (if terminal then on_run run_id (\<lambda>r. r\<lparr>rn_status := st, rn_log := log, rn_finished := Some now\<rparr>)
      else on_run run_id (\<lambda>r. r\<lparr>rn_status := st, rn_log := log\<rparr>))"

definition row_task_index_on :: "sched_db \<Rightarrow> int \<Rightarrow> int" where
  "row_task_index_on d run_id = (case find (\<lambda>r. rn_id r = run_id) (sd_runs d) of Some r \<Rightarrow> rn_index r | None \<Rightarrow> 0)"

definition read_task_exits_on :: "sched_db \<Rightarrow> int \<Rightarrow> (nat, int) hmap" where
  "read_task_exits_on d run_id = (case find (\<lambda>r. rn_id r = run_id) (sd_runs d) of Some r \<Rightarrow> rn_exits r | None \<Rightarrow> [])"

definition set_task_exits_on :: "int \<Rightarrow> (nat, int) hmap \<Rightarrow> sched_db \<Rightarrow> sched_db" where
  "set_task_exits_on run_id exits = on_run run_id (\<lambda>r. r\<lparr>rn_exits := exits\<rparr>)"

definition set_task_index_on :: "int \<Rightarrow> nat \<Rightarrow> sched_db \<Rightarrow> sched_db" where
  "set_task_index_on run_id idx = on_run run_id (\<lambda>r. r\<lparr>rn_index := int idx\<rparr>)"

definition emit_schedule_run :: "int \<Rightarrow> int \<Rightarrow> run_status \<Rightarrow> int \<Rightarrow> sched_db \<Rightarrow> sched_db" where
  "emit_schedule_run sch run_id st attempt d = d\<lparr>sd_emitted := sd_emitted d @ [(sch, run_id, st, attempt)]\<rparr>"

definition sched_notify :: "instant \<Rightarrow> string \<Rightarrow> string \<Rightarrow> string \<Rightarrow> int \<Rightarrow> sched_db \<Rightarrow> sched_db" where
  "sched_notify now level title msg sid d =
     d\<lparr>sd_notifier := notify_link now level title msg (Some sid) None (sd_notifier d)\<rparr>"

definition insert_pending :: "instant \<Rightarrow> int \<Rightarrow> int \<Rightarrow> int \<Rightarrow> (nat, int) hmap \<Rightarrow> sched_db \<Rightarrow> sched_db" where
  "insert_pending due sch attempt idx exits d =
     d\<lparr>sd_runs := sd_runs d @ [\<lparr>rn_id = sd_run_seq d + 1, rn_schedule = sch, rn_triggered = Stamp due, rn_status = Pending,
         rn_log = [], rn_attempt = attempt, rn_finished = None, rn_tag = None, rn_index = idx, rn_exits = exits\<rparr>],
       sd_run_seq := sd_run_seq d + 1\<rparr>"

definition quoted :: "string \<Rightarrow> string" where
  "quoted s = squote # s @ [squote]"

definition retry_title :: "string \<Rightarrow> int \<Rightarrow> int \<Rightarrow> string" where
  "retry_title name attempt max_retries =
     ''Schedule '' @ quoted name @ '' retrying ('' @ show_int (attempt + 1) @ ''/'' @ show_int (max_retries + 1) @ '')''"

text \<open>
  The insert of the pending row fails when the schedule has been deleted in the meantime; \<open>db_err\<close> is
  the database's error text.
\<close>

definition fail_task ::
  "instant \<Rightarrow> schedule \<Rightarrow> int \<Rightarrow> int \<Rightarrow> retry_policy \<Rightarrow> nat \<Rightarrow> string \<Rightarrow> string \<Rightarrow> (nat, int) hmap \<Rightarrow> sched_db
     \<Rightarrow> sched_db \<times> (sched_error, unit) result" where
  "fail_task now sch run_id attempt pol i log err exits d =
     (if retries_remain attempt (rp_max_retries pol) then
        let d1 = set_task_index_on run_id i d;
            d2 = finish_run_on now run_id Retry log False d1;
            d3 = emit_schedule_run (sc_id sch) run_id Retry attempt d2;
            due = now + sched_secs (backoff_delay_s (rp_backoff_s pol) attempt)
        in if find_schedule d3 (sc_id sch) = None then (d3, Err SchedConstraint)
           else (sched_notify now ''warning'' (retry_title (sc_name sch) attempt (rp_max_retries pol)) err (sc_server sch)
                   (insert_pending due (sc_id sch) (attempt + 1) (int i) exits d3), Ok ())
      else
        let d1 = finish_run_on now run_id Failed log True d;
            d2 = emit_schedule_run (sc_id sch) run_id Failed attempt d1
        in (sched_notify now ''error'' (''Schedule '' @ quoted (sc_name sch) @ '' failed'') err (sc_server sch) d2, Ok ()))"

definition handle_attempt_failure ::
  "instant \<Rightarrow> string \<Rightarrow> schedule \<Rightarrow> int \<Rightarrow> int \<Rightarrow> retry_policy \<Rightarrow> string \<Rightarrow> string \<Rightarrow> sched_db \<Rightarrow> sched_db" where
  "handle_attempt_failure now db_err sch run_id attempt pol log msg d =
     (if retries_remain attempt (rp_max_retries pol) then
        let d1 = finish_run_on now run_id Retry log False d;
            due = now + sched_secs (backoff_delay_s (rp_backoff_s pol) attempt);
            resume = row_task_index_on d1 run_id;
            exits = read_task_exits_on d1 run_id
        in if find_schedule d1 (sc_id sch) = None then
             sched_notify now ''error'' (''Schedule '' @ quoted (sc_name sch) @ '' failed'')
               (msg @ newline # ''requeue insert failed: '' @ db_err) (sc_server sch)
               (finish_run_on now run_id Failed (log @ ''[requeue-failed: '' @ db_err @ '']'') True d1)
           else sched_notify now ''warning'' (retry_title (sc_name sch) attempt (rp_max_retries pol)) msg (sc_server sch)
                  (insert_pending due (sc_id sch) (attempt + 1) resume exits d1)
      else sched_notify now ''error'' (''Schedule '' @ quoted (sc_name sch) @ '' failed'') msg (sc_server sch)
             (finish_run_on now run_id Failed log True d))"

text \<open>
  The environment of an attempt: the JSON parser, the recent-event registry, the clock at each chain
  position, and what executing the task at a position does. An execution may also panic.
\<close>

datatype task_result = Ran | Skipped | TaskErr string | TaskPanic string

record attempt_env =
  te_parse :: "string \<Rightarrow> json option"
  te_recent :: registry
  te_clock :: "nat \<Rightarrow> instant"
  te_run :: "nat \<Rightarrow> sched_task \<Rightarrow> task_result"
  te_db_err :: string

datatype attempt_result = Done | DbError sched_error | Panicked string

fun error_text :: "sched_error \<Rightarrow> string" where
  "error_text GateCorrupt = ''gate condition is corrupt JSON''"
| "error_text GateNotObject = ''gate condition must be a JSON object''"
| "error_text GateNoKind = ''gate condition missing '' @ quote # ''kind'' @ [quote]"
| "error_text GateTaskIndex = ''exit gate needs an integer task_index >= 0''"
| "error_text GateCode = ''exit gate needs an integer code''"
| "error_text GateEvent = ''signal gate needs a non-empty event''"
| "error_text GateServer = ''signal gate needs an integer server_id''"
| "error_text GateTimeoutRange = ''signal gate timeout_s must be an integer in 1..=3600''"
| "error_text (GateUnknownKind k) = ''unknown gate kind: '' @ k"
| "error_text (GateBadRef ti own) = ''gate.badref: task_index '' @ show_nat ti
     @ '' does not reference an earlier task (own index '' @ show_nat own @ '')''"
| "error_text (GateExitMismatch ti r c) = ''gate.exit: task '' @ show_nat ti @ '' exited with '' @ show_int r
     @ '', gate requires '' @ show_int c"
| "error_text (GateNoExit ti) = ''gate.badref: task '' @ show_nat ti @ '' has no recorded exit in this run''"
| "error_text (GateTimeout ev sid t) = ''gate.timeout: no '' @ quoted ev @ '' event for server '' @ show_int sid
     @ '' within '' @ show_nat t @ ''s''"
| "error_text (TaskFailed e) = e"
| "error_text ScheduleNotFound = ''schedule not found''"
| "error_text InvalidCron = ''invalid cron expression''"
| "error_text NoFutureRun = ''no future run time for expression''"
| "error_text SchedConstraint = ''FOREIGN KEY constraint failed''"
| "error_text (GateNotEarlier own) = ''exit gate task_index must reference an earlier task (index < '' @ show_nat own @ '')''"

definition task_conditions_on :: "sched_db \<Rightarrow> int \<Rightarrow> (int, string option) hmap" where
  "task_conditions_on d i = map (\<lambda>t. (tk_id t, tk_condition t)) (filter (\<lambda>t. tk_schedule t = i) (sd_tasks d))"

definition task_line :: "string \<Rightarrow> sched_task \<Rightarrow> string \<Rightarrow> string" where
  "task_line tag t rest = ''['' @ tag @ ''] '' @ tk_action t @ '' '' @ tk_payload t @ rest @ [newline]"

definition record_effect :: "nat \<Rightarrow> bool \<Rightarrow> sched_db \<Rightarrow> sched_db" where
  "record_effect i ok d = d\<lparr>sd_effects := sd_effects d @ [(i, ok)]\<rparr>"

definition of_fail :: "sched_db \<times> (sched_error, unit) result \<Rightarrow> sched_db \<times> attempt_result" where
  "of_fail p = (fst p, case snd p of Ok _ \<Rightarrow> Done | Err e \<Rightarrow> DbError e)"

fun run_chain ::
  "attempt_env \<Rightarrow> schedule \<Rightarrow> int \<Rightarrow> int \<Rightarrow> retry_policy \<Rightarrow> (int, string option) hmap \<Rightarrow> nat \<Rightarrow> sched_task list
     \<Rightarrow> (nat, int) hmap \<Rightarrow> string \<Rightarrow> sched_db \<Rightarrow> sched_db \<times> attempt_result" where
  "run_chain env sch run_id attempt pol conds i [] exits log d =
     (emit_schedule_run (sc_id sch) run_id Success attempt (finish_run_on (te_clock env i) run_id Success log True d), Done)"
| "run_chain env sch run_id attempt pol conds i (t # ts) exits log d =
     (case eval_gate (te_parse env) (te_recent env) (te_clock env i) i (sc_server sch)
             (case hm_get conds (tk_id t) of Some c \<Rightarrow> c | None \<Rightarrow> None) exits of
        Err e \<Rightarrow>
          let exits' = hm_insert i 1 exits
          in of_fail (fail_task (te_clock env i) sch run_id attempt pol i (log @ task_line ''gate'' t ('': '' @ error_text e))
               (error_text e) exits' (set_task_exits_on run_id exits' d))
      | Ok _ \<Rightarrow>
          (case te_run env i t of
             Ran \<Rightarrow>
               let exits' = hm_insert i 0 exits
               in run_chain env sch run_id attempt pol conds (Suc i) ts exits' (log @ task_line ''ok'' t [])
                    (set_task_index_on run_id (Suc i) (set_task_exits_on run_id exits' (record_effect i True d)))
           | Skipped \<Rightarrow>
               let exits' = hm_insert i 0 exits
               in run_chain env sch run_id attempt pol conds (Suc i) ts exits' (log @ task_line ''skip'' t [])
                    (set_task_index_on run_id (Suc i) (set_task_exits_on run_id exits' (record_effect i True d)))
           | TaskErr e \<Rightarrow>
               let exits' = hm_insert i 1 exits
               in of_fail (fail_task (te_clock env i) sch run_id attempt pol i (log @ task_line ''err'' t ('': '' @ e)) e exits'
                    (set_task_exits_on run_id exits' (record_effect i False d)))
           | TaskPanic e \<Rightarrow> (record_effect i False d, Panicked e)))"

definition run_attempt ::
  "attempt_env \<Rightarrow> schedule \<Rightarrow> sched_task list \<Rightarrow> int \<Rightarrow> int \<Rightarrow> retry_policy \<Rightarrow> sched_db \<Rightarrow> sched_db \<times> attempt_result" where
  "run_attempt env sch tasks run_id attempt pol d =
     (let stored = row_task_index_on d run_id;
          start_idx = (if stored < 0 then length tasks else min (nat stored) (length tasks))
      in run_chain env sch run_id attempt pol (task_conditions_on d (sc_id sch)) start_idx (drop start_idx tasks)
           (read_task_exits_on d run_id) [] d)"

definition run_attempt_guarded ::
  "attempt_env \<Rightarrow> schedule \<Rightarrow> sched_task list \<Rightarrow> int \<Rightarrow> int \<Rightarrow> retry_policy \<Rightarrow> sched_db \<Rightarrow> sched_db" where
  "run_attempt_guarded env sch tasks run_id attempt pol d =
     (case run_attempt env sch tasks run_id attempt pol d of
        (d1, Done) \<Rightarrow> unmark_live run_id d1
      | (d1, DbError e) \<Rightarrow>
          unmark_live run_id (finish_run_on (te_clock env (length tasks)) run_id Failed
            (''[db-error] '' @ error_text e @ [newline]) True d1)
      | (d1, Panicked msg) \<Rightarrow>
          unmark_live run_id (handle_attempt_failure (te_clock env (length tasks)) (te_db_err env) sch run_id attempt pol
            (''[panic] '' @ msg @ [newline]) msg d1))"

section \<open>Fires and ticks\<close>

datatype execute_outcome = Fired int | AlreadyActive | OfflineSkipped

text \<open>\<open>fire\<close> bundles the cron crate: the next occurrence of an expression in a zone after an instant.\<close>

type_synonym fire = "string \<Rightarrow> instant \<Rightarrow> int \<Rightarrow> (sched_error, instant) result"

definition advance_next :: "fire \<Rightarrow> string \<Rightarrow> instant \<Rightarrow> int \<Rightarrow> int \<Rightarrow> sched_db \<Rightarrow> sched_db" where
  "advance_next fire expr now tz i d =
     set_schedule_next d i (case fire expr now tz of Ok t \<Rightarrow> Some t | Err _ \<Rightarrow> None)"

definition execute ::
  "fire \<Rightarrow> (string \<Rightarrow> int option) \<Rightarrow> (int \<Rightarrow> bool) \<Rightarrow> instant \<Rightarrow> schedule \<times> sched_task list \<Rightarrow> sched_db
     \<Rightarrow> sched_db \<times> (sched_error, execute_outcome) result" where
  "execute fire parse_offset is_online now st d =
     (let sch = fst st; i = sc_id sch; tz = schedule_tz parse_offset d i in
      case policy d i of
        Err e \<Rightarrow> (d, Err e)
      | Ok pol \<Rightarrow>
          if \<not> should_run True (rp_only_when_online pol) (is_online (sc_server sch)) then
            ((case sc_next sch of
                Some (Stamp due) \<Rightarrow>
                  if sched_secs OFFLINE_CATCHUP_WINDOW_S < now - due
                  then sched_notify now ''info'' (''Schedule '' @ quoted (sc_name sch) @ '' skipped'') ''workspace offline''
                         (sc_server sch) (advance_next fire (sc_cron sch) now tz i d)
                  else d
              | _ \<Rightarrow> d), Ok OfflineSkipped)
          else
            let d1 = advance_next fire (sc_cron sch) now tz i d in
            (case claim_fresh_run d1 i now of
               Err e \<Rightarrow> (d1, Err e)
             | Ok (d2, None) \<Rightarrow> (d2, Ok AlreadyActive)
             | Ok (d2, Some run_id) \<Rightarrow>
                 (mark_live run_id (sched_notify now ''info'' (''Schedule '' @ quoted (sc_name sch) @ '' triggered'')
                    (''Running '' @ show_nat (length (snd st)) @ '' task(s)'') (sc_server sch)
                    (set_schedule_last d2 i (Some now))), Ok (Fired run_id))))"

text \<open>The due time of a schedule in a tick; a missing or corrupt one is computed and stored first.\<close>

definition tick_due :: "fire \<Rightarrow> (string \<Rightarrow> int option) \<Rightarrow> instant \<Rightarrow> schedule \<Rightarrow> sched_db \<Rightarrow> sched_db \<times> instant option" where
  "tick_due fire parse_offset now sch d =
     (case sc_next sch of
        Some (Stamp t) \<Rightarrow> (d, Some t)
      | _ \<Rightarrow>
          (case fire (sc_cron sch) now (schedule_tz parse_offset d (sc_id sch)) of
             Ok t \<Rightarrow> (set_schedule_next d (sc_id sch) (Some t), Some t)
           | Err _ \<Rightarrow> (d, None)))"

definition tick_schedule ::
  "fire \<Rightarrow> (string \<Rightarrow> int option) \<Rightarrow> (int \<Rightarrow> bool) \<Rightarrow> instant \<Rightarrow> schedule \<times> sched_task list \<Rightarrow> sched_db \<Rightarrow> sched_db \<times> int list" where
  "tick_schedule fire parse_offset is_online now st d =
     (case tick_due fire parse_offset now (fst st) d of
        (d1, Some t) \<Rightarrow>
          if t \<le> now then
            (case execute fire parse_offset is_online now st d1 of
               (d2, Ok (Fired k)) \<Rightarrow> (d2, [k])
             | (d2, _) \<Rightarrow> (d2, []))
          else (d1, [])
      | (d1, None) \<Rightarrow> (d1, []))"

text \<open>The first pass of a tick; the claimed runs are the attempts to spawn. A vanished schedule ends the tick.\<close>

fun tick_schedules ::
  "fire \<Rightarrow> (string \<Rightarrow> int option) \<Rightarrow> (int \<Rightarrow> bool) \<Rightarrow> instant \<Rightarrow> int list \<Rightarrow> sched_db \<Rightarrow> sched_db \<times> (sched_error, int list) result" where
  "tick_schedules fire parse_offset is_online now [] d = (d, Ok [])"
| "tick_schedules fire parse_offset is_online now (i # ids) d =
     (case get_schedule d i of
        Err e \<Rightarrow> (d, Err e)
      | Ok st \<Rightarrow>
          let (d1, ks) = tick_schedule fire parse_offset is_online now st d;
              (d2, r) = tick_schedules fire parse_offset is_online now ids d1
          in (d2, rbind r (\<lambda>rs. Ok (ks @ rs))))"

definition due_retries :: "instant \<Rightarrow> sched_db \<Rightarrow> sched_run list" where
  "due_retries now d = take 50 (sort_key rn_id (filter (\<lambda>r. rn_status r = Pending \<and>
     (case rn_triggered r of Stamp t \<Rightarrow> t \<le> now | BadStamp \<Rightarrow> False)) (sd_runs d)))"

fun tick_retries :: "(int \<Rightarrow> bool) \<Rightarrow> sched_run list \<Rightarrow> sched_db \<Rightarrow> sched_db \<times> int list" where
  "tick_retries is_online [] d = (d, [])"
| "tick_retries is_online (r # rs) d =
     (case get_schedule d (rn_schedule r) of
        Err _ \<Rightarrow> tick_retries is_online rs d
      | Ok (sch, tasks) \<Rightarrow>
          (case policy d (rn_schedule r) of
             Err _ \<Rightarrow> tick_retries is_online rs d
           | Ok pol \<Rightarrow>
               if \<not> should_run (sc_enabled sch) (rp_only_when_online pol) (is_online (sc_server sch))
               then tick_retries is_online rs d
               else
                 let (d1, claimed) = claim_pending_retry d (rn_id r)
                 in if \<not> claimed then tick_retries is_online rs d1
                    else let (d2, ks) = tick_retries is_online rs (mark_live (rn_id r) d1) in (d2, rn_id r # ks)))"

definition tick_once ::
  "fire \<Rightarrow> (string \<Rightarrow> int option) \<Rightarrow> (int \<Rightarrow> bool) \<Rightarrow> instant \<Rightarrow> sched_db \<Rightarrow> sched_db \<times> (sched_error, int list) result" where
  "tick_once fire parse_offset is_online now d =
     (case tick_schedules fire parse_offset is_online now (map sc_id (filter sc_enabled (sd_schedules d))) d of
        (d1, Err e) \<Rightarrow> (d1, Err e)
      | (d1, Ok fired) \<Rightarrow>
          let (d2, retried) = tick_retries is_online (due_retries now d1) d1 in (d2, Ok (fired @ retried)))"

section \<open>Back-off against its reference\<close>

lemma sat_i64_min: "0 \<le> x \<Longrightarrow> sat_i64 x = min i64_max x"
  by (auto simp: sat_i64_def i64_bounds)

text \<open>
  The retry delay computed with a shift, a special case for large exponents and a saturating
  product equals the documented one: the base doubled for every attempt after the first, capped at the
  largest 64-bit integer, and nothing for a base that is not positive.
\<close>
theorem backoff_secs_reference:
  assumes "1 \<le> attempt" "in_i64 attempt" "in_i64 base"
  shows "backoff_secs base attempt = (if base \<le> 0 then 0 else min i64_max (base * 2 ^ nat (attempt - 1)))"
proof (cases "base \<le> 0")
  case False
  have e: "sat_sub attempt 1 = attempt - 1" using assms(1,2) by (auto simp: sat_simps sat_i64_def in_i64_def i64_bounds)
  show ?thesis
  proof (cases "63 \<le> attempt - 1")
    case True
    have "(2::int) ^ 63 \<le> 2 ^ nat (attempt - 1)" using True by (intro power_increasing) auto
    moreover have "2 ^ nat (attempt - 1) \<le> base * 2 ^ nat (attempt - 1)" using False by simp
    ultimately have "2 ^ 63 \<le> base * 2 ^ nat (attempt - 1)" by (rule order_trans)
    then have "i64_max \<le> base * 2 ^ nat (attempt - 1)" by (simp add: i64_max_def)
    moreover have "i64_max \<le> base * i64_max" using False by (simp add: i64_bounds)
    ultimately show ?thesis using False True e
      by (simp add: backoff_secs_def Let_def sat_mul_def sat_i64_min i64_bounds)
  next
    case small: False
    have "(2::int) ^ nat (attempt - 1) \<le> 2 ^ 62" using small by (intro power_increasing) auto
    then have "wrap_i64 (2 ^ nat (attempt - 1)) = 2 ^ nat (attempt - 1)"
      by (intro wrap_i64_id) (simp add: in_i64_def i64_bounds order_trans [of _ 0])
    moreover have "(attempt - 1) mod 64 = attempt - 1" using small assms(1) by simp
    ultimately show ?thesis using False small e by (simp add: backoff_secs_def Let_def sat_mul_def sat_i64_min)
  qed
qed (simp add: backoff_secs_def)

section \<open>Flow gates\<close>

definition gate_ok :: "gate \<Rightarrow> bool" where
  "gate_ok g = (case g of GExit ti c \<Rightarrow> in_i64 (int ti) \<and> in_i64 c | GSignal ev sid t \<Rightarrow> ev \<noteq> [] \<and> in_i64 sid \<and> 1 \<le> t \<and> t \<le> 3600)"

lemma gate_roundtrip: "gate_ok g \<Longrightarrow> gate_from_value (gate_to_value g) = Ok (Some g)"
  by (cases g) (auto simp: gate_ok_def json_field_def ok_or_def opt_filter_def)

lemma gate_from_value_ok: "gate_from_value v = Ok (Some g) \<Longrightarrow> gate_ok g"
  by (cases v) (auto simp: gate_ok_def rbind_Ok_iff json_field_def ok_or_def opt_filter_def in_i64_def
    split: if_splits option.splits elim!: as_i64.elims as_u64.elims dest!: bind_eq_Some_conv [THEN iffD1])

text \<open>
  A condition accepted for the task at a chain position is stored in a form that reads back as the
  same gate, and at run time it is decided by its meaning alone: an exit gate always refers to an
  earlier task and passes exactly when that task's recorded exit is the required code; a signal gate
  passes exactly when the event is seen for the schedule's own server at one of the polls, whatever
  server the condition names.
\<close>
theorem accepted_gate_semantics:
  assumes "validate_condition print (Some v) own = Ok (Some raw)" "\<And>g. gate_from_value v = Ok (Some g) \<Longrightarrow> parse (print (gate_to_value g)) = Some (gate_to_value g)"
  shows "\<exists>g. gate_from_value v = Ok (Some g) \<and> gate_ok g \<and>
    (case g of
       GExit ti c \<Rightarrow> ti < own \<and> (eval_gate parse recent now own sid (Some raw) exits = Ok () \<longleftrightarrow> hm_get exits ti = Some c)
     | GSignal ev _ t \<Rightarrow> (eval_gate parse recent now own sid (Some raw) exits = Ok ()
         \<longleftrightarrow> wait_signal_loop (recent ev sid now) (now + sched_secs (int t)) now))"
proof -
  obtain g where g: "gate_from_value v = Ok (Some g)" and raw: "raw = print (gate_to_value g)"
    and lt: "\<And>ti c. g = GExit ti c \<Longrightarrow> ti < own"
  proof -
    obtain o' where o': "gate_from_value v = Ok o'" using assms(1) by (auto simp: validate_condition_def rbind_Ok_iff)
    then show thesis using assms(1) that
      by (cases o') (auto simp: validate_condition_def split: gate.splits if_splits)
  qed
  have ok: "gate_ok g" by (rule gate_from_value_ok [OF g])
  have "gate_from_value (gate_to_value g) = Ok (Some g)" by (rule gate_roundtrip [OF ok])
  then show ?thesis using g ok lt assms(2)
    by (cases g) (auto simp: eval_gate_def raw ok_or_def wait_signal_def split: option.splits)
qed

section \<open>One running attempt per schedule\<close>

text \<open>
  The single writes the engine is made of, in any order and by any number of tasks: an attempt is a
  sequence of them, and other attempts, ticks, manual runs, recovery and schedule edits come between.
\<close>

inductive sched_step :: "sched_db \<Rightarrow> sched_db \<Rightarrow> bool" where
  claim: "claim_fresh_run d i now = Ok (d', x) \<Longrightarrow> sched_step d d'"
| retry: "sched_step d (fst (claim_pending_retry d i))"
| recover: "sched_step d (fst (recover_stale_running now d))"
| prune: "sched_step d (fst (prune_terminal_runs now d))"
| finish: "st \<noteq> Running \<Longrightarrow> sched_step d (finish_run_on now i st log b d)"
| exits: "sched_step d (set_task_exits_on i e d)"
| index: "sched_step d (set_task_index_on i k d)"
| requeue: "sched_step d (insert_pending due sch attempt idx e d)"
| delete: "sched_step d (delete_schedule d i)"
| other: "sd_runs d' = sd_runs d \<Longrightarrow> sd_run_seq d' = sd_run_seq d \<Longrightarrow> sched_step d d'"

definition one_running :: "sched_run list \<Rightarrow> bool" where
  "one_running rs \<longleftrightarrow> (\<forall>r\<in>set rs. \<forall>r'\<in>set rs. rn_status r = Running \<and> rn_status r' = Running \<and> rn_schedule r = rn_schedule r'
     \<longrightarrow> rn_id r = rn_id r')"

definition runs_wf :: "sched_db \<Rightarrow> bool" where
  "runs_wf d \<longleftrightarrow> distinct (map rn_id (sd_runs d)) \<and> (\<forall>r\<in>set (sd_runs d). rn_id r \<le> sd_run_seq d) \<and> one_running (sd_runs d)"

lemma set_runs_frame [simp]:
  "sd_runs (set_runs f d) = f (sd_runs d)" "sd_run_seq (set_runs f d) = sd_run_seq d"
  "sd_schedules (set_runs f d) = sd_schedules d" "sd_effects (set_runs f d) = sd_effects d" "sd_tasks (set_runs f d) = sd_tasks d"
  by (simp_all add: set_runs_def)

lemma runs_wf_update:
  assumes "runs_wf d" "\<And>r. rn_id (f r) = rn_id r \<and> rn_schedule (f r) = rn_schedule r"
    and "\<And>r. rn_status (f r) = Running \<Longrightarrow> rn_status r = Running"
  shows "runs_wf (set_runs (update_rows P f) d)"
proof -
  have "one_running (update_rows P f (sd_runs d))"
    unfolding one_running_def set_update_rows
  proof (intro ballI impI; elim imageE)
    fix a b r r' assume "rn_status a = Running \<and> rn_status b = Running \<and> rn_schedule a = rn_schedule b"
      "a = (if P r then f r else r)" "r \<in> set (sd_runs d)" "b = (if P r' then f r' else r')" "r' \<in> set (sd_runs d)"
    then show "rn_id a = rn_id b" using assms unfolding runs_wf_def one_running_def by (metis (full_types))
  qed
  then show ?thesis using assms(1,2) by (auto simp: runs_wf_def map_update_rows set_update_rows)
qed

lemma runs_wf_append:
  assumes "runs_wf d" "rn_id r = sd_run_seq d + 1" "sd_runs d' = sd_runs d @ [r]" "sd_run_seq d' = sd_run_seq d + 1"
    and "rn_status r = Running \<Longrightarrow> \<forall>x\<in>set (sd_runs d). rn_schedule x = rn_schedule r \<longrightarrow> rn_status x \<noteq> Running"
  shows "runs_wf d'"
proof -
  have "rn_id r \<notin> rn_id ` set (sd_runs d)" using assms(1,2) by (fastforce simp: runs_wf_def)
  moreover have "one_running (sd_runs d @ [r])"
    unfolding one_running_def
  proof (intro ballI impI)
    fix x y assume "x \<in> set (sd_runs d @ [r])" "y \<in> set (sd_runs d @ [r])"
      "rn_status x = Running \<and> rn_status y = Running \<and> rn_schedule x = rn_schedule y"
    then show "rn_id x = rn_id y" using assms(1,5) unfolding runs_wf_def one_running_def
      by (metis Un_iff empty_iff list.set(1,2) insert_iff set_append)
  qed
  ultimately show ?thesis using assms(1-4) by (auto simp: runs_wf_def)
qed

lemma runs_wf_filter:
  "runs_wf d \<Longrightarrow> sd_runs d' = filter P (sd_runs d) \<Longrightarrow> sd_run_seq d' = sd_run_seq d \<Longrightarrow> runs_wf d'"
  by (auto simp: runs_wf_def one_running_def distinct_map_filter)

lemma runs_wf_finish: "st \<noteq> Running \<Longrightarrow> runs_wf d \<Longrightarrow> runs_wf (finish_run_on now i st log b d)"
  by (auto simp: finish_run_on_def on_run_def intro!: runs_wf_update)

lemma claim_fresh_wf:
  assumes "runs_wf d" "claim_fresh_run d i now = Ok (d', x)"
  shows "runs_wf d'"
proof (cases x)
  case None
  with assms show ?thesis by (auto simp: claim_fresh_run_def Let_def split: if_splits)
next
  case (Some k)
  with assms(2) have no: "\<forall>r\<in>set (sd_runs d). rn_schedule r = i \<longrightarrow> rn_status r \<noteq> Running"
    by (auto simp: claim_fresh_run_def Let_def split: if_splits)
  show ?thesis
    by (rule runs_wf_append [OF assms(1)]) (use assms(2) Some no in \<open>auto simp: claim_fresh_run_def Let_def split: if_splits\<close>)
qed

lemma claim_pending_wf:
  assumes "runs_wf d"
  shows "runs_wf (fst (claim_pending_retry d i))"
proof -
  let ?f = "\<lambda>r. r\<lparr>rn_status := Running, rn_tag := Some (sd_tag d)\<rparr>"
  let ?P = "retry_claimable d i"
  have inj: "\<forall>x\<in>set (sd_runs d). \<forall>y\<in>set (sd_runs d). rn_id x = rn_id y \<longrightarrow> x = y"
    using assms by (auto simp: runs_wf_def distinct_map inj_on_def)
  have alone: "rn_id y = i" if px: "?P x" "x \<in> set (sd_runs d)" "y \<in> set (sd_runs d)" "rn_schedule y = rn_schedule x"
    "rn_status y = Running" for x y
  proof -
    obtain z where z: "find (\<lambda>x. rn_id x = i) (sd_runs d) = Some z" "rn_id x = i"
      and no: "\<not> exists_row (\<lambda>y. rn_schedule y = rn_schedule z \<and> rn_id y \<noteq> i \<and> rn_status y = Running) (sd_runs d)"
      using px(1) by (auto simp: retry_claimable_def split: option.splits)
    then have "z = x" using inj px(2) find_Some_set [OF z(1)] by auto
    with no px show ?thesis by auto
  qed
  have "one_running (update_rows ?P ?f (sd_runs d))"
    unfolding one_running_def set_update_rows
  proof (intro ballI impI; elim imageE)
    fix a b r r' assume h: "rn_status a = Running \<and> rn_status b = Running \<and> rn_schedule a = rn_schedule b"
      "a = (if ?P r then ?f r else r)" "r \<in> set (sd_runs d)" "b = (if ?P r' then ?f r' else r')" "r' \<in> set (sd_runs d)"
    have id: "?P x \<Longrightarrow> rn_id x = i" for x by (simp add: retry_claimable_def)
    have sched: "rn_schedule r = rn_schedule r'" using h by (auto split: if_splits)
    have "rn_id r = rn_id r'"
    proof (cases "?P r"; cases "?P r'")
      assume "?P r" "\<not> ?P r'" then show ?thesis using h alone [of r r'] id sched by simp
    next
      assume "\<not> ?P r" "?P r'" then show ?thesis using h alone [of r' r] id sched by simp
    next
      assume "\<not> ?P r" "\<not> ?P r'"
      then have "rn_status r = Running" "rn_status r' = Running" using h by simp_all
      then show ?thesis using h(3,5) sched assms unfolding runs_wf_def one_running_def by blast
    qed (use id in simp)
    then show "rn_id a = rn_id b" using h by simp
  qed
  moreover have "map rn_id (update_rows ?P ?f (sd_runs d)) = map rn_id (sd_runs d)" by (rule map_update_rows) simp
  ultimately show ?thesis using assms unfolding runs_wf_def claim_pending_retry_def fst_conv set_runs_frame
    by (metis (no_types, lifting) imageE image_eqI list.set_map)
qed

lemma sched_step_wf: "sched_step d d' \<Longrightarrow> runs_wf d \<Longrightarrow> runs_wf d'"
proof (induction rule: sched_step.induct)
  case (claim d i now d' x)
  then show ?case using claim_fresh_wf by blast
next
  case (recover d now)
  then show ?case by (auto simp: recover_stale_running_def intro!: runs_wf_update)
next
  case (prune d now)
  then show ?case by (auto simp: prune_terminal_runs_def intro: runs_wf_filter)
next
  case (exits d i e)
  then show ?case by (auto simp: set_task_exits_on_def on_run_def intro!: runs_wf_update)
next
  case (index d i k)
  then show ?case by (auto simp: set_task_index_on_def on_run_def intro!: runs_wf_update)
next
  case (requeue d due sch attempt idx e)
  then show ?case by (rule runs_wf_append) (auto simp: insert_pending_def)
next
  case (delete d i)
  then show ?case by (auto simp: delete_schedule_def intro: runs_wf_filter)
next
  case (other d' d)
  then show ?case by (simp add: runs_wf_def)
qed (simp_all add: claim_pending_wf runs_wf_finish)

interpretation sched: invariant_system "\<lambda>d. sd_runs d = []" sched_step runs_wf
proof
  show "sd_runs d = [] \<Longrightarrow> runs_wf d" for d :: sched_db by (simp add: runs_wf_def one_running_def)
qed (rule sched_step_wf)

text \<open>Whole operations of the engine keep the invariant, being made of these writes.\<close>

lemma runs_wf_other [simp]:
  "runs_wf (mark_live i d) = runs_wf d" "runs_wf (unmark_live i d) = runs_wf d" "runs_wf (emit_schedule_run sch i st a d) = runs_wf d"
  "runs_wf (sched_notify now l t m sid d) = runs_wf d" "runs_wf (record_effect k ok d) = runs_wf d"
  "runs_wf (set_schedule_next d i nx) = runs_wf d" "runs_wf (set_schedule_last d i nx) = runs_wf d"
  "runs_wf (advance_next fire expr now tz i d) = runs_wf d"
  by (simp_all add: runs_wf_def mark_live_def unmark_live_def emit_schedule_run_def sched_notify_def record_effect_def
      set_schedule_next_def set_schedule_last_def on_schedule_def advance_next_def)

lemma runs_wf_writes [simp]:
  "runs_wf d \<Longrightarrow> runs_wf (set_task_exits_on i e d)" "runs_wf d \<Longrightarrow> runs_wf (set_task_index_on i k d)"
  "runs_wf d \<Longrightarrow> runs_wf (insert_pending due sch a idx e d)" "runs_wf d \<Longrightarrow> st \<noteq> Running \<Longrightarrow> runs_wf (finish_run_on now i st log b d)"
  by (blast intro: sched_step_wf sched_step.exits sched_step.index sched_step.requeue sched_step.finish)+

lemma runs_wf_fail_task [simp]: "runs_wf d \<Longrightarrow> runs_wf (fst (fail_task now sch i a pol k log err e d))"
  by (simp add: fail_task_def Let_def)

lemma runs_wf_handle_failure [simp]: "runs_wf d \<Longrightarrow> runs_wf (handle_attempt_failure now db_err sch i a pol log msg d)"
  by (simp add: handle_attempt_failure_def Let_def)

lemma runs_wf_run_chain: "runs_wf d \<Longrightarrow> runs_wf (fst (run_chain env sch i a pol conds k ts e log d))"
  by (induction ts arbitrary: k e log d) (simp_all add: of_fail_def Let_def split: sum.splits task_result.splits)

lemma runs_wf_run_attempt:
  assumes "runs_wf d"
  shows "runs_wf (run_attempt_guarded env sch tasks i a pol d)"
proof -
  obtain d1 r where r: "run_attempt env sch tasks i a pol d = (d1, r)" by fastforce
  have "runs_wf (fst (run_attempt env sch tasks i a pol d))"
    unfolding run_attempt_def Let_def by (rule runs_wf_run_chain [OF assms])
  then show ?thesis by (cases r) (simp_all add: run_attempt_guarded_def r)
qed

lemma runs_wf_execute: "runs_wf d \<Longrightarrow> runs_wf (fst (execute fire po on now st d))"
  unfolding execute_def Let_def
  by (auto split: sum.splits option.splits stamp.splits prod.splits dest: claim_fresh_wf [rotated])

lemma runs_wf_tick_due: "runs_wf d \<Longrightarrow> runs_wf (fst (tick_due fire po now sch d))"
  by (simp add: tick_due_def split: option.splits stamp.splits sum.splits)

lemma runs_wf_tick_schedule:
  assumes "runs_wf d"
  shows "runs_wf (fst (tick_schedule fire po on now st d))"
proof -
  obtain d1 due where due: "tick_due fire po now (fst st) d = (d1, due)" by fastforce
  then have d1: "runs_wf d1" using runs_wf_tick_due [OF assms, of fire po now "fst st"] by simp
  obtain d2 out where out: "execute fire po on now st d1 = (d2, out)" by fastforce
  then have "runs_wf d2" using runs_wf_execute [OF d1, of fire po on now st] by simp
  with d1 show ?thesis by (simp add: tick_schedule_def due out split: option.splits sum.splits execute_outcome.splits)
qed

lemma runs_wf_tick_schedules: "runs_wf d \<Longrightarrow> runs_wf (fst (tick_schedules fire po on now ids d))"
  by (induction ids arbitrary: d) (simp_all add: case_prod_beta Let_def runs_wf_tick_schedule split: sum.splits)

lemma runs_wf_tick_retries: "runs_wf d \<Longrightarrow> runs_wf (fst (tick_retries on rs d))"
proof (induction rs arbitrary: d)
  case (Cons r rs)
  have "runs_wf (fst (claim_pending_retry d (rn_id r)))" using Cons.prems by (rule claim_pending_wf)
  then show ?case using Cons by (auto simp: case_prod_beta Let_def split: sum.splits prod.splits)
qed simp

lemma runs_wf_tick: "runs_wf d \<Longrightarrow> runs_wf (fst (tick_once fire po on now d))"
  using runs_wf_tick_schedules [of d fire po on now "map sc_id (filter sc_enabled (sd_schedules d))"] runs_wf_tick_retries
  by (auto simp: tick_once_def case_prod_beta Let_def split: prod.splits sum.splits) 

text \<open>
  C8: from a panel without runs, under any interleaving of the writes of attempts, ticks, manual runs,
  recovery, pruning and schedule edits, run ids are unique and no schedule has two rows in state
  running; every attempt, fire and tick started in such a state ends in one.
\<close>
theorem one_running_attempt:
  assumes "sd_runs d0 = []" "sched_step\<^sup>*\<^sup>* d0 d"
  shows "runs_wf d \<and> runs_wf (run_attempt_guarded env sch tasks i a pol d) \<and> runs_wf (fst (execute fire po on now st d))
    \<and> runs_wf (fst (tick_once fire po on now d))"
  using sched.reachable_inv [OF assms] runs_wf_run_attempt runs_wf_execute runs_wf_tick by blast

section \<open>Retries resume where the chain failed\<close>


lemma on_run_frame [simp]:
  "sd_run_seq (on_run i f d) = sd_run_seq d" "sd_schedules (on_run i f d) = sd_schedules d"
  "sd_effects (on_run i f d) = sd_effects d" "sd_tasks (on_run i f d) = sd_tasks d"
  by (simp_all add: on_run_def)


lemma find_schedule_frame:
  "sd_schedules d' = sd_schedules d \<Longrightarrow> find_schedule d' i = find_schedule d i"
  by (simp add: find_schedule_def)

definition ids_bounded :: "sched_db \<Rightarrow> bool" where
  "ids_bounded d \<longleftrightarrow> (\<forall>r\<in>set (sd_runs d). rn_id r \<le> sd_run_seq d)"













lemma record_effect_frame [simp]:
  "ids_bounded (record_effect j ok d) = ids_bounded d" "find_schedule (record_effect j ok d) i = find_schedule d i"
  "sd_effects (record_effect j ok d) = sd_effects d @ [(j, ok)]" "sd_runs (record_effect j ok d) = sd_runs d"
  by (simp_all add: record_effect_def ids_bounded_def find_schedule_def)















section \<open>A race of recovery with a manual run\<close>

text \<open>
  A run is claimed and registered as live in two steps. A recovery pass between them takes the fresh row
  for an orphan, and the schedule can be claimed a second time while the first attempt is about to start.
\<close>

lemma recovery_races_claim:
  assumes "claim_fresh_run d i now = Ok (d1, Some k)" "k \<notin> sd_live d"
  shows "\<exists>d2 k'. claim_fresh_run (fst (recover_stale_running t d1)) i now = Ok (d2, Some k')"
proof -
  obtain r where r: "sd_runs d1 = sd_runs d @ [r]" "rn_id r = k" "rn_status r = Running" "rn_tag r = Some (sd_tag d)"
    "sd_tag d1 = sd_tag d" "sd_live d1 = sd_live d" "sd_schedules d1 = sd_schedules d"
    and no: "\<forall>x\<in>set (sd_runs d). rn_schedule x = i \<longrightarrow> rn_status x \<noteq> Running \<and> rn_status x \<noteq> Pending"
    and sch: "find_schedule d i \<noteq> None"
    using assms(1) by (auto simp: claim_fresh_run_def Let_def split: if_splits)
  have "stale t d1 r" using r assms(2) by (simp add: stale_def)
  then have "\<not> exists_row (\<lambda>x. rn_schedule x = i \<and> (rn_status x = Running \<or> rn_status x = Pending))
      (sd_runs (fst (recover_stale_running t d1)))"
    using no by (auto simp: recover_stale_running_def set_update_rows r(1))
  moreover have "find_schedule (fst (recover_stale_running t d1)) i \<noteq> None"
    using sch r(7) by (simp add: find_schedule_def recover_stale_running_def)
  ultimately show ?thesis by (simp add: claim_fresh_run_def Let_def del: exists_row_iff)
qed

section \<open>Starvation of the retry queue\<close>

text \<open>
  The retry pass looks at the fifty due retries with the lowest ids only, and leaves those it may
  not run in place. While fifty due retries of disabled schedules head the queue, no retry of any other
  schedule is claimed, however many ticks pass.
\<close>
theorem blocked_head_starves_queue:
  assumes "\<forall>r\<in>set (due_retries now d). \<exists>s. find_schedule d (rn_schedule r) = Some s \<and> \<not> sc_enabled s"
  shows "tick_retries on (due_retries now d) d = (d, [])"
proof -
  have "tick_retries on rs d = (d, [])" if "\<forall>r\<in>set rs. \<exists>s. find_schedule d (rn_schedule r) = Some s \<and> \<not> sc_enabled s" for rs
    using that by (induction rs) (auto simp: get_schedule_def policy_def should_run_def)
  then show ?thesis using assms by blast
qed

section \<open>Worked instances\<close>

definition wsched :: "int \<Rightarrow> bool \<Rightarrow> schedule" where
  "wsched i en = \<lparr>sc_id = i, sc_server = 7, sc_name = ''nightly'', sc_cron = ''0 3 * * *'', sc_enabled = en, sc_last = None,
     sc_next = None, sc_created = 0, sc_max_retries = 2, sc_backoff = 5, sc_only_online = False, sc_tz = ''UTC''\<rparr>"

definition wpending :: "int \<Rightarrow> int \<Rightarrow> sched_run" where
  "wpending i s = \<lparr>rn_id = i, rn_schedule = s, rn_triggered = Stamp 0, rn_status = Pending, rn_log = [], rn_attempt = 2,
     rn_finished = None, rn_tag = None, rn_index = 0, rn_exits = []\<rparr>"

definition wsdb :: "sched_run list \<Rightarrow> sched_db" where
  "wsdb rs = \<lparr>sd_schedules = [wsched 1 False, wsched 2 True], sd_seq = 2, sd_tasks = [], sd_task_seq = 0, sd_runs = rs, sd_run_seq = 60,
     sd_tag = ''p'', sd_live = {}, sd_emitted = [], sd_effects = [], sd_notifier = \<lparr>nf_next = 0, nf_history = []\<rparr>\<rparr>"

theorem backoff_secs_reference_witness: "backoff_secs 5 3 = 20 \<and> backoff_secs 5 100 = i64_max"
  using backoff_secs_reference [of 3 5] backoff_secs_reference [of 100 5]
  by (simp add: in_i64_def i64_bounds)

theorem accepted_gate_semantics_witness:
  "eval_gate (\<lambda>_. Some (gate_to_value (GExit 0 1))) (\<lambda>_ _ _ _. False) 0 1 7 (Some ''g'') [(0, 1)] = Ok ()"
proof -
  let ?v = "gate_to_value (GExit 0 1)"
  have v: "validate_condition (\<lambda>_. ''g'') (Some ?v) 1 = Ok (Some ''g'')"
    by (simp add: validate_condition_def json_field_def ok_or_def opt_filter_def in_i64_def i64_bounds)
  have g: "gate_from_value ?v = Ok (Some (GExit 0 1))"
    by (simp add: json_field_def ok_or_def opt_filter_def in_i64_def i64_bounds)
  show ?thesis
    using accepted_gate_semantics [OF v, where parse = "\<lambda>_. Some ?v" and recent = "\<lambda>_ _ _ _. False" and now = 0 and sid = 7
      and exits = "[(0, 1)]"] g by (simp add: hm_get_def)
qed

theorem one_running_attempt_witness:
  "runs_wf (fst (tick_once (\<lambda>_ t _. Ok (t + 1)) (\<lambda>_. None) (\<lambda>_. True) 5 (wsdb [])))"
proof -
  have "sd_runs (wsdb []) = []" by (simp add: wsdb_def)
  then show ?thesis using one_running_attempt [of "wsdb []" "wsdb []"] by blast
qed


theorem blocked_head_starves_queue_witness:
  "tick_retries (\<lambda>_. True) (due_retries 9 (wsdb (map (\<lambda>i. wpending (int i) 1) [0..<50] @ [wpending 50 2])))
     (wsdb (map (\<lambda>i. wpending (int i) 1) [0..<50] @ [wpending 50 2]))
   = (wsdb (map (\<lambda>i. wpending (int i) 1) [0..<50] @ [wpending 50 2]), [])"
proof (rule blocked_head_starves_queue)
  let ?ps = "map (\<lambda>i. wpending (int i) 1) [0..<50]"
  let ?all = "?ps @ [wpending 50 2]"
  have "sorted (map rn_id ?all)"
    by (auto simp: wpending_def comp_def sorted_append sorted_map intro!: sorted_wrt_map_mono [OF sorted_wrt_upt])
  then have srt: "sort_key rn_id ?all = ?all" by (rule sort_key_id_if_sorted)
  have flt: "filter (\<lambda>r. rn_status r = Pending \<and> (case rn_triggered r of Stamp t \<Rightarrow> t \<le> 9 | BadStamp \<Rightarrow> False)) ?all = ?all"
    by (simp add: wpending_def filter_id_conv)
  have runs: "sd_runs (wsdb ?all) = ?all" by (simp add: wsdb_def)
  have "due_retries 9 (wsdb ?all) = ?ps" unfolding due_retries_def runs flt srt by simp
  then show "\<forall>r\<in>set (due_retries 9 (wsdb ?all)). \<exists>s. find_schedule (wsdb ?all) (rn_schedule r) = Some s \<and> \<not> sc_enabled s"
    by (auto simp: wpending_def wsdb_def wsched_def find_schedule_def)
qed

end
