(* ===== verification/Templates.thy ===== *)
theory Templates
  imports Store Complex_Main
begin

text \<open>
  Launch templates (\<open>src/src/services/blueprint.rs\<close>, with the input tables of \<open>src/src/models.rs\<close>):
  typed inputs and their validation, the \<open>${ns.key}\<close> placeholders, shell quoting of user values, and the
  process environment. The placeholder expression is matched by hand (it never needs backtracking);
  user-supplied patterns, floating-point and URL parsing and \<open>canonicalize\<close> are parameters.
\<close>

section \<open>State\<close>

datatype input_kind =
    KText "nat option" "string option"
  | KNumber "real option" "real option"
  | KBool
  | KChoice "string list"
  | KPath "nat option"
  | KUrl

record blueprint_input =
  bi_name :: string
  bi_description :: string
  bi_env_var :: string
  bi_default :: string
  bi_viewable :: bool
  bi_editable :: bool
  bi_required :: bool
  bi_kind :: input_kind

record blueprint =
  bp_id :: int
  bp_uuid :: string
  bp_name :: string
  bp_description :: string
  bp_author :: string
  bp_category :: string
  bp_runtime_hint :: string
  bp_startup :: string
  bp_default_config :: "string option"
  bp_install_script :: "string option"
  bp_variables :: "blueprint_input list"
  bp_stop_command :: string
  bp_created_at :: instant
  bp_updated_at :: instant

record var_row =
  sv_server :: int
  sv_blueprint :: int
  sv_key :: string
  sv_value :: string

record tdb =
  t_blueprints :: "blueprint list"
  t_vars :: "var_row list"
  t_servers_dir :: "string list"

datatype bp_error =
    BlueprintNotFound | VarConstraint | Required string | TooLong string | BadPattern | NoMatch string | NotNumber string | NotFinite string
  | TooSmall string | TooLarge string | NotBool string | NotChoice string | AbsolutePath string | HomePath string | NulPath string
  | Traversal string | NotUrl string | UrlNoHost string | Metachars string | BadAuthority string | SymlinkEscape string
  | SecretInTemplate string | UnknownPlaceholder string
  | EmptyEnvVar nat | DuplicateEnvVar nat string | NoOptions string | BadDefault string bp_error

section \<open>Input tables\<close>

definition get_blueprint :: "tdb \<Rightarrow> int \<Rightarrow> (bp_error, blueprint) result" where
  "get_blueprint d i = (case find (\<lambda>b. bp_id b = i) (t_blueprints d) of Some b \<Rightarrow> Ok b | None \<Rightarrow> Err BlueprintNotFound)"

definition get_server_vars :: "tdb \<Rightarrow> int \<Rightarrow> (string \<times> string) list" where
  "get_server_vars d i = map (\<lambda>r. (sv_key r, sv_value r)) (filter (\<lambda>r. sv_server r = i) (t_vars d))"

definition set_server_var :: "tdb \<Rightarrow> int \<Rightarrow> int \<Rightarrow> string \<Rightarrow> string \<Rightarrow> tdb" where
  "set_server_var d i bp key v = d\<lparr>t_vars :=
     (if exists_row (\<lambda>r. sv_server r = i \<and> sv_key r = key) (t_vars d)
      then update_rows (\<lambda>r. sv_server r = i \<and> sv_key r = key) (\<lambda>r. r\<lparr>sv_value := v\<rparr>) (t_vars d)
      else t_vars d @ [\<lparr>sv_server = i, sv_blueprint = bp, sv_key = key, sv_value = v\<rparr>])\<rparr>"

definition delete_server_vars :: "tdb \<Rightarrow> int \<Rightarrow> tdb" where
  "delete_server_vars d i = d\<lparr>t_vars := filter (\<lambda>r. sv_server r \<noteq> i) (t_vars d)\<rparr>"

text \<open>The unique key on (server, key) makes a repeated key fail and the transaction roll back.\<close>

definition replace_server_vars :: "tdb \<Rightarrow> int \<Rightarrow> int \<Rightarrow> (string \<times> string) list \<Rightarrow> (bp_error, tdb) result" where
  "replace_server_vars d i bp vars =
     (if \<not> distinct (map fst vars) then Err VarConstraint
      else Ok ((delete_server_vars d i)\<lparr>t_vars := t_vars (delete_server_vars d i)
             @ map (\<lambda>(k, v). \<lparr>sv_server = i, sv_blueprint = bp, sv_key = k, sv_value = v\<rparr>) vars\<rparr>))"

text \<open>Collecting pairs into a \<open>HashMap\<close> keeps the last value of a key.\<close>

definition collect_map :: "('k \<times> 'v) list \<Rightarrow> ('k, 'v) hmap" where
  "collect_map ps = fold (\<lambda>(k, v) m. hm_insert k v m) ps []"

definition resolve_variables :: "tdb \<Rightarrow> server \<Rightarrow> (bp_error, (blueprint_input \<times> string) list) result" where
  "resolve_variables d s =
     rbind (get_blueprint d (s_blueprint_id s)) (\<lambda>b.
       let overrides = collect_map (get_server_vars d (s_id s))
       in Ok (map (\<lambda>v. (v, case hm_get overrides (bi_env_var v) of Some x \<Rightarrow> x | None \<Rightarrow> bi_default v)) (bp_variables b)))"

section \<open>Validation\<close>

text \<open>\<open>chars().count()\<close>: the bytes that are not UTF-8 continuation bytes.\<close>

definition char_count :: "string \<Rightarrow> nat" where
  "char_count s = length (filter (\<lambda>c. \<not> (0x80 \<le> code c \<and> code c < 0xC0)) s)"

record val_env =
  ve_regex :: "string \<Rightarrow> (string \<Rightarrow> bool) option"
  ve_f64 :: "string \<Rightarrow> real option option"
  ve_url :: "string \<Rightarrow> (string \<times> string option) option"

text \<open>\<open>ve_f64\<close> is \<open>parse::<f64>\<close>: \<open>None\<close> when it fails, \<open>Some None\<close> for an infinity or NaN.\<close>

definition validate_workspace_path :: "string \<Rightarrow> string \<Rightarrow> (bp_error, unit) result" where
  "validate_workspace_path env_var v =
     (if starts_with ''/'' v then Err (AbsolutePath env_var)
      else if starts_with ''~'' v then Err (HomePath env_var)
      else if CHR 0x00 \<in> set v then Err (NulPath env_var)
      else if list_ex (\<lambda>part. part = ''..'') (split_on CHR ''/'' v) then Err (Traversal env_var)
      else Ok ())"

definition metachar :: "char \<Rightarrow> bool" where
  "metachar c \<longleftrightarrow> c \<in> set '';|$`()<>*~{}[]!^'' \<or> code c = 0x22 \<or> code c = 0x27 \<or> code c = 0x5C"

definition control_len :: "string \<Rightarrow> bool" where
  "control_len s = (case s of
     [] \<Rightarrow> False
   | a # t \<Rightarrow> code a < 0x20 \<or> code a = 0x7F \<or>
       (case t of [] \<Rightarrow> False | b # _ \<Rightarrow> code a = 0xC2 \<and> 0x80 \<le> code b \<and> code b \<le> 0x9F))"

fun contains_injectable :: "string \<Rightarrow> bool" where
  "contains_injectable [] = False"
| "contains_injectable (c # s) \<longleftrightarrow> metachar c \<or> 0 < ws_len (c # s) \<or> control_len (c # s) \<or> contains_injectable s"

definition authority_char :: "char \<Rightarrow> bool" where
  "authority_char c \<longleftrightarrow> is_ascii_alphanumeric c \<or> c \<in> set ''.-_:[]%''"

definition BOOL_WORDS :: "string list" where
  "BOOL_WORDS = [''true'', ''false'', ''1'', ''0'', ''yes'', ''no'', ''on'', ''off'']"

definition check :: "bool \<Rightarrow> 'e \<Rightarrow> ('e, unit) result" where
  "check ok e = (if ok then Ok () else Err e)"

definition validate_value :: "val_env \<Rightarrow> blueprint_input \<Rightarrow> string \<Rightarrow> (bp_error, unit) result" where
  "validate_value ve var value =
     (let trimmed = trim value; nm = bi_env_var var in
      if trimmed = [] then (if bi_required var then Err (Required nm) else Ok ())
      else case bi_kind var of
        KText max_len pattern \<Rightarrow>
          rbind (check (case max_len of Some mx \<Rightarrow> char_count value \<le> mx | None \<Rightarrow> True) (TooLong nm)) (\<lambda>_.
            (case pattern of
               None \<Rightarrow> Ok ()
             | Some p \<Rightarrow> (case ve_regex ve p of None \<Rightarrow> Err BadPattern | Some re \<Rightarrow> check (re value) (NoMatch nm))))
      | KNumber mn mx \<Rightarrow>
          (case ve_f64 ve trimmed of
             None \<Rightarrow> Err (NotNumber nm)
           | Some None \<Rightarrow> Err (NotFinite nm)
           | Some (Some x) \<Rightarrow>
               rbind (check (case mn of Some l \<Rightarrow> l \<le> x | None \<Rightarrow> True) (TooSmall nm)) (\<lambda>_.
                 check (case mx of Some h \<Rightarrow> x \<le> h | None \<Rightarrow> True) (TooLarge nm)))
      | KBool \<Rightarrow> check (map to_ascii_lower trimmed \<in> set BOOL_WORDS) (NotBool nm)
      | KChoice options \<Rightarrow> check (trimmed \<in> set options) (NotChoice nm)
      | KPath max_len \<Rightarrow>
          rbind (check (case max_len of Some mx \<Rightarrow> char_count value \<le> mx | None \<Rightarrow> True) (TooLong nm)) (\<lambda>_.
            validate_workspace_path nm trimmed)
      | KUrl \<Rightarrow>
          (case ve_url ve trimmed of
             None \<Rightarrow> Err (NotUrl nm)
           | Some (scheme, host) \<Rightarrow>
               if scheme \<noteq> ''http'' \<and> scheme \<noteq> ''https'' then Err (NotUrl nm)
               else (case host of
                       None \<Rightarrow> Err (UrlNoHost nm)
                     | Some h \<Rightarrow>
                         if h = [] then Err (UrlNoHost nm)
                         else if contains_injectable trimmed then Err (Metachars nm)
                         else check (list_all authority_char h) (BadAuthority nm))))"

fun validate_inputs_from :: "val_env \<Rightarrow> nat \<Rightarrow> string list \<Rightarrow> blueprint_input list \<Rightarrow> (bp_error, unit) result" where
  "validate_inputs_from ve i seen [] = Ok ()"
| "validate_inputs_from ve i seen (v # vs) =
     (if trim (bi_env_var v) = [] then Err (EmptyEnvVar (i + 1))
      else if bi_env_var v \<in> set seen then Err (DuplicateEnvVar (i + 1) (bi_env_var v))
      else if (case bi_kind v of KText _ (Some p) \<Rightarrow> ve_regex ve p = None | _ \<Rightarrow> False) then Err BadPattern
      else if bi_kind v = KChoice [] then Err (NoOptions (bi_env_var v))
      else (case validate_value ve v (bi_default v) of
              Err e \<Rightarrow> Err (BadDefault (bi_env_var v) e)
            | Ok _ \<Rightarrow> validate_inputs_from ve (i + 1) (bi_env_var v # seen) vs))"

definition validate_inputs :: "val_env \<Rightarrow> blueprint_input list \<Rightarrow> (bp_error, unit) result" where
  "validate_inputs ve vs = validate_inputs_from ve 0 [] vs"

text \<open>
  Paths are lists of components. \<open>canon\<close> is \<open>canonicalize\<close>; the loop walks up to the deepest existing
  ancestor and re-appends the missing tail.
\<close>

definition rel_components :: "string \<Rightarrow> string list" where
  "rel_components rel = filter (\<lambda>c. c \<noteq> [] \<and> c \<noteq> ''.'') (split_on CHR ''/'' rel)"

function deepest :: "(string list \<Rightarrow> string list option) \<Rightarrow> string list \<Rightarrow> string list \<Rightarrow> string list option" where
  "deepest canon probe tail =
     (case canon probe of
        Some c \<Rightarrow> Some (c @ tail)
      | None \<Rightarrow> if probe = [] then None else deepest canon (butlast probe) (last probe # tail))"
  by pat_completeness auto
termination
  by (relation "measure (\<lambda>(canon, probe, tail). length probe)") auto

declare deepest.simps [simp del]

definition enforce_workspace_path ::
  "(string list \<Rightarrow> string list option) \<Rightarrow> string \<Rightarrow> string list \<Rightarrow> string \<Rightarrow> (bp_error, unit) result" where
  "enforce_workspace_path canon env_var dir rel =
     (case canon dir of
        None \<Rightarrow> Ok ()
      | Some base \<Rightarrow>
          (case deepest canon (dir @ rel_components rel) [] of
             None \<Rightarrow> Ok ()
           | Some resolved \<Rightarrow> check (take (length base) resolved = base) (SymlinkEscape env_var)))"

definition server_dir :: "tdb \<Rightarrow> server \<Rightarrow> string list" where
  "server_dir d s = t_servers_dir d @ [s_uuid s]"

fun validate_all :: "val_env \<Rightarrow> (string list \<Rightarrow> string list option) \<Rightarrow> string list \<Rightarrow> (blueprint_input \<times> string) list \<Rightarrow> (bp_error, unit) result" where
  "validate_all ve canon dir [] = Ok ()"
| "validate_all ve canon dir ((v, x) # vs) =
     rbind (validate_value ve v x) (\<lambda>_.
       rbind (if (\<exists>m. bi_kind v = KPath m) \<and> trim x \<noteq> [] then enforce_workspace_path canon (bi_env_var v) dir (trim x) else Ok ())
         (\<lambda>_. validate_all ve canon dir vs))"

definition validate_resolved_variables ::
  "val_env \<Rightarrow> (string list \<Rightarrow> string list option) \<Rightarrow> tdb \<Rightarrow> server \<Rightarrow> (bp_error, unit) result" where
  "validate_resolved_variables ve canon d s =
     rbind (resolve_variables d s) (\<lambda>vs. validate_all ve canon (server_dir d s) vs)"

section \<open>Placeholders\<close>

text \<open>
  A template is read as literal bytes and placeholder keys. \<open>match_placeholder\<close> is the expression
  \<open>\$\{\s*([a-z]+)\.([A-Za-z0-9_]+)\s*\}\<close> at the start of a string: the key and the rest.
\<close>

datatype segment = Lit char | Ph string

definition key_char :: "char \<Rightarrow> bool" where
  "key_char c \<longleftrightarrow> is_ascii_alphanumeric c \<or> c = CHR ''_''"

definition match_placeholder :: "string \<Rightarrow> (string \<times> string) option" where
  "match_placeholder s =
     (case strip_prefix ''${'' s of
        None \<Rightarrow> None
      | Some r0 \<Rightarrow>
          let r1 = strip_ws ws_len r0;
              ns = takeWhile is_ascii_lower r1;
              r2 = dropWhile is_ascii_lower r1
          in if ns = [] then None
             else (case r2 of
                     [] \<Rightarrow> None
                   | c # r3 \<Rightarrow>
                       if c \<noteq> CHR ''.'' then None
                       else
                         let key = takeWhile key_char r3;
                             r4 = strip_ws ws_len (dropWhile key_char r3)
                         in if key = [] then None
                            else (case r4 of
                                    [] \<Rightarrow> None
                                  | b # r5 \<Rightarrow> if b = CHR ''}'' then Some (ns @ ''.'' @ key, r5) else None)))"

lemma length_strip_ws: "length (strip_ws w s) \<le> length s"
  by (induction w s rule: strip_ws.induct) (subst strip_ws.simps, auto)

lemma match_placeholder_shorter: "match_placeholder s = Some (k, r) \<Longrightarrow> length r < length s"
proof -
  assume m: "match_placeholder s = Some (k, r)"
  then obtain r0 where s: "s = ''${'' @ r0" by (auto simp: match_placeholder_def strip_prefix_Some split: option.splits)
  let ?r1 = "strip_ws ws_len r0"
  obtain r3 where r2: "dropWhile is_ascii_lower ?r1 = CHR ''.'' # r3"
    and r4: "\<exists>b. strip_ws ws_len (dropWhile key_char r3) = b # r"
    using m by (auto simp: match_placeholder_def s strip_prefix_def starts_with_def Let_def split: if_splits list.splits)
  have "length r < length (dropWhile key_char r3) + 1" using r4 length_strip_ws [of ws_len "dropWhile key_char r3"] by auto
  also have "... \<le> length r3 + 1" using length_dropWhile_le by simp
  also have "... \<le> length ?r1" using length_dropWhile_le [of is_ascii_lower ?r1] by (simp add: r2)
  also have "... \<le> length r0" by (rule length_strip_ws)
  finally show "length r < length s" by (simp add: s)
qed

text \<open>The leftmost non-overlapping matches, as \<open>replace_all\<close> visits them.\<close>

function segments :: "string \<Rightarrow> segment list" where
  "segments s =
     (case match_placeholder s of
        Some (k, r) \<Rightarrow> Ph k # segments r
      | None \<Rightarrow> (case s of [] \<Rightarrow> [] | c # t \<Rightarrow> Lit c # segments t))"
  by pat_completeness auto
termination
  by (relation "measure length") (auto dest: match_placeholder_shorter)

declare segments.simps [simp del]

record template_ctx =
  tc_values :: "(string, string) hmap"
  tc_secrets :: "(string, string) hmap"

definition is_command_value :: "string \<Rightarrow> bool" where
  "is_command_value key \<longleftrightarrow> starts_with ''input.'' key \<or> key = ''workspace.name''"

definition sq :: char where "sq = CHR 0x27"

definition safe_char :: "char \<Rightarrow> bool" where
  "safe_char c \<longleftrightarrow> is_ascii_alphanumeric c \<or> c \<in> set ''-_.,:/@=+%''"

fun escape_quotes :: "string \<Rightarrow> string" where
  "escape_quotes [] = []"
| "escape_quotes (c # s) = (if c = sq then [sq, CHR 0x5C, sq, sq] else [c]) @ escape_quotes s"

definition shell_quote :: "string \<Rightarrow> string" where
  "shell_quote v = (if v = [] then [sq, sq] else if list_all safe_char v then v else sq # escape_quotes v @ [sq])"

text \<open>The replacement of one placeholder.\<close>

definition subst_key :: "bool \<Rightarrow> template_ctx \<Rightarrow> string \<Rightarrow> string" where
  "subst_key q ctx key =
     (case hm_get (tc_values ctx) key of
        Some v \<Rightarrow> if q \<and> is_command_value key then shell_quote v else v
      | None \<Rightarrow> [])"

fun placeholder_keys :: "segment list \<Rightarrow> string list" where
  "placeholder_keys [] = []"
| "placeholder_keys (Lit c # ss) = placeholder_keys ss"
| "placeholder_keys (Ph k # ss) = k # placeholder_keys ss"

fun render_segments :: "bool \<Rightarrow> template_ctx \<Rightarrow> segment list \<Rightarrow> string" where
  "render_segments q ctx [] = []"
| "render_segments q ctx (Lit c # ss) = c # render_segments q ctx ss"
| "render_segments q ctx (Ph k # ss) = subst_key q ctx k @ render_segments q ctx ss"

definition render_impl :: "string \<Rightarrow> template_ctx \<Rightarrow> bool \<Rightarrow> (bp_error, string) result" where
  "render_impl template ctx q =
     (let segs = segments template;
          absent = filter (\<lambda>k. hm_get (tc_values ctx) k = None) (placeholder_keys segs)
      in case find (\<lambda>k. hm_get (tc_secrets ctx) k \<noteq> None) absent of
           Some k \<Rightarrow> Err (SecretInTemplate (''input.'' @ the (hm_get (tc_secrets ctx) k)))
         | None \<Rightarrow>
             (case absent of
                k # _ \<Rightarrow> Err (UnknownPlaceholder k)
              | [] \<Rightarrow> Ok (render_segments q ctx segs)))"

definition render :: "string \<Rightarrow> template_ctx \<Rightarrow> (bp_error, string) result" where
  "render template ctx = render_impl template ctx False"

definition render_command :: "string \<Rightarrow> template_ctx \<Rightarrow> (bp_error, string) result" where
  "render_command template ctx = render_impl template ctx True"

definition path_string :: "string list \<Rightarrow> string" where
  "path_string p = concat (map (\<lambda>c. CHR ''/'' # c) p)"

definition opt_int :: "int option \<Rightarrow> string" where
  "opt_int p = (case p of Some i \<Rightarrow> show_int i | None \<Rightarrow> [])"

fun input_entries :: "(blueprint_input \<times> string) list \<Rightarrow> template_ctx \<Rightarrow> template_ctx" where
  "input_entries [] ctx = ctx"
| "input_entries ((v, x) # vs) ctx = input_entries vs
     (if bi_viewable v then ctx\<lparr>tc_values := hm_insert (''input.'' @ bi_env_var v) x (tc_values ctx)\<rparr>
      else ctx\<lparr>tc_secrets := hm_insert (''input.'' @ bi_env_var v) (bi_env_var v) (tc_secrets ctx)\<rparr>)"

definition workspace_entries :: "tdb \<Rightarrow> server \<Rightarrow> (string \<times> string) list" where
  "workspace_entries d s =
     [(''workspace.name'', s_name s), (''workspace.uuid'', s_uuid s), (''workspace.memory_mb'', show_int (s_memory_mb s)),
      (''workspace.disk_mb'', show_int (s_disk_mb s)), (''workspace.cpu_percent'', show_int (s_cpu_percent s)),
      (''workspace.port'', opt_int (s_port s)), (''workspace.dir'', path_string (server_dir d s))]"

definition template_context :: "tdb \<Rightarrow> server \<Rightarrow> (bp_error, template_ctx) result" where
  "template_context d s =
     rbind (resolve_variables d s) (\<lambda>vs.
       let ctx = input_entries vs \<lparr>tc_values = [], tc_secrets = []\<rparr>
       in Ok (ctx\<lparr>tc_values := fold (\<lambda>(k, v) m. hm_insert k v m) (workspace_entries d s) (tc_values ctx)\<rparr>))"

definition resolve_startup ::
  "val_env \<Rightarrow> (string list \<Rightarrow> string list option) \<Rightarrow> tdb \<Rightarrow> server \<Rightarrow> (bp_error, string) result" where
  "resolve_startup ve canon d s =
     rbind (validate_resolved_variables ve canon d s) (\<lambda>_.
       rbind (get_blueprint d (s_blueprint_id s)) (\<lambda>b.
         let template = (if s_startup s = [] then bp_startup b else s_startup s)
         in rbind (template_context d s) (\<lambda>ctx. render_command template ctx)))"

definition env_for_server :: "tdb \<Rightarrow> server \<Rightarrow> (string \<times> string) list" where
  "env_for_server d s =
     (case resolve_variables d s of
        Ok vs \<Rightarrow> map (\<lambda>(v, x). (bi_env_var v, x)) (filter (\<lambda>(v, x). bi_viewable v \<or> x \<noteq> []) vs)
      | Err _ \<Rightarrow> [])
     @ [(''HOME'', path_string (server_dir d s)), (''PWD'', path_string (server_dir d s)), (''SERVER_UUID'', s_uuid s),
        (''SERVER_NAME'', s_name s), (''SERVER_MEMORY'', show_int (s_memory_mb s)), (''SERVER_DISK'', show_int (s_disk_mb s)),
        (''SERVER_CPU'', show_int (s_cpu_percent s)), (''SERVER_PORT'', opt_int (s_port s)),
        (''VOLTP_DATALAB_DIR'', ''/data/.voltp/databases'')]"

section \<open>How a shell reads the command\<close>

text \<open>
  The token recognition of the POSIX shell that runs \<open>sh -c\<close>, as a specification: quoting removes the
  special meaning of characters; operators, and the characters that start expansions, patterns or
  comments when unquoted (in double quotes: \<open>$\<close> and the backquote), are tokens of their own.
\<close>

datatype sh_mode = Plain | PlainEsc | Single | Double | DoubleEsc

datatype sh_token = Word string | Op char | Active char

type_synonym sh_state = "sh_mode \<times> string option \<times> sh_token list"

definition dq :: char where "dq = CHR 0x22"
definition bs :: char where "bs = CHR 0x5C"

definition op_char :: "char \<Rightarrow> bool" where "op_char c \<longleftrightarrow> c \<in> set (newline # '';|&<>()'')"
definition active_char :: "char \<Rightarrow> bool" where "active_char c \<longleftrightarrow> c \<in> set ''$`*?[]~#!{}^''"
definition blank_char :: "char \<Rightarrow> bool" where "blank_char c \<longleftrightarrow> c = CHR '' '' \<or> c = CHR 0x09"

definition cur_text :: "string option \<Rightarrow> string" where
  "cur_text cur = (case cur of Some w \<Rightarrow> w | None \<Rightarrow> [])"

definition end_word :: "string option \<Rightarrow> sh_token list" where
  "end_word cur = (case cur of Some w \<Rightarrow> [Word w] | None \<Rightarrow> [])"

fun sh_step :: "char \<Rightarrow> sh_state \<Rightarrow> sh_state" where
  "sh_step c (Plain, cur, out) =
     (if c = sq then (Single, Some (cur_text cur), out)
      else if c = dq then (Double, Some (cur_text cur), out)
      else if c = bs then (PlainEsc, Some (cur_text cur), out)
      else if blank_char c then (Plain, None, out @ end_word cur)
      else if op_char c then (Plain, None, out @ end_word cur @ [Op c])
      else if active_char c then (Plain, Some (cur_text cur), out @ [Active c])
      else (Plain, Some (cur_text cur @ [c]), out))"
| "sh_step c (PlainEsc, cur, out) = (Plain, Some (if c = newline then cur_text cur else cur_text cur @ [c]), out)"
| "sh_step c (Single, cur, out) = (if c = sq then (Plain, cur, out) else (Single, Some (cur_text cur @ [c]), out))"
| "sh_step c (Double, cur, out) =
     (if c = dq then (Plain, cur, out)
      else if c = bs then (DoubleEsc, cur, out)
      else if c = CHR ''$'' \<or> c = CHR ''`'' then (Double, cur, out @ [Active c])
      else (Double, Some (cur_text cur @ [c]), out))"
| "sh_step c (DoubleEsc, cur, out) =
     (Double, Some (if c = newline then cur_text cur
                    else if c = CHR ''$'' \<or> c = CHR ''`'' \<or> c = dq \<or> c = bs then cur_text cur @ [c]
                    else cur_text cur @ [bs, c]), out)"

abbreviation sh_run :: "string \<Rightarrow> sh_state \<Rightarrow> sh_state" where "sh_run s st \<equiv> fold sh_step s st"

definition sh_tokens :: "string \<Rightarrow> sh_token list" where
  "sh_tokens s = (case sh_run s (Plain, None, []) of (m, cur, out) \<Rightarrow> out @ end_word cur)"

lemma safe_not_special:
  "safe_char c \<Longrightarrow> c \<noteq> sq \<and> c \<noteq> dq \<and> c \<noteq> bs \<and> \<not> blank_char c \<and> \<not> op_char c \<and> \<not> active_char c"
  by (auto simp: safe_char_def sq_def dq_def bs_def blank_char_def op_char_def active_char_def newline_def ascii_simps)

lemma sh_run_safe: "list_all safe_char v \<Longrightarrow> v \<noteq> [] \<Longrightarrow> sh_run v (Plain, cur, out) = (Plain, Some (cur_text cur @ v), out)"
proof (induction v arbitrary: cur)
  case (Cons c v)
  then show ?case using safe_not_special [of c] by (cases "v = []") (simp_all add: cur_text_def)
qed simp

lemma sh_run_escaped: "sh_run (escape_quotes v) (Single, Some w, out) = (Single, Some (w @ v), out)"
  by (induction v arbitrary: w) (auto simp: cur_text_def sq_def bs_def dq_def newline_def)

text \<open>A quoted value is opaque: from outside quotes it adds its text to the current word and nothing else.\<close>

lemma quote_opaque: "sh_run (shell_quote v) (Plain, cur, out) = (Plain, Some (cur_text cur @ v), out)"
  using sh_run_safe [of v cur out] by (simp add: shell_quote_def sh_run_escaped)

text \<open>
  A shell-quoted value is exactly one shell word, the value itself, whatever bytes it contains.
\<close>
theorem shell_quote_one_word: "sh_tokens (shell_quote v) = [Word v]"
  by (simp add: sh_tokens_def quote_opaque cur_text_def end_word_def)

section \<open>Rendered commands\<close>












text \<open>
  Inside double quotes the quoting does not protect: the single quotes are literal there and a command
  substitution in the value stays active.
\<close>

lemma double_quoted_value_expands:
  "\<exists>a. render_command (''echo '' @ dq # ''${input.X}'' @ [dq]) \<lparr>tc_values = [(''input.X'', ''$(id)'')], tc_secrets = []\<rparr> = Ok a
     \<and> Active CHR ''$'' \<in> set (sh_tokens a)"
proof -
  let ?ctx = "\<lparr>tc_values = [(''input.X'', ''$(id)'')], tc_secrets = []\<rparr>"
  have segs: "segments (''echo '' @ dq # ''${input.X}'' @ [dq]) = map Lit (''echo '' @ [dq]) @ [Ph ''input.X'', Lit dq]"
    by (simp add: segments.simps match_placeholder_def strip_prefix_def starts_with_def dq_def strip_ws.simps
        ascii_ws_def ws2_def ws3_def ascii_simps key_char_def)
  have "render_command (''echo '' @ dq # ''${input.X}'' @ [dq]) ?ctx = Ok (''echo '' @ dq # sq # ''$(id)'' @ [sq, dq])"
    unfolding render_command_def render_impl_def segs
    by (simp add: hm_get_def subst_key_def is_command_value_def starts_with_def shell_quote_def safe_char_def ascii_simps sq_def)
  moreover have "Active CHR ''$'' \<in> set (sh_tokens (''echo '' @ dq # sq # ''$(id)'' @ [sq, dq]))"
    by (simp add: sh_tokens_def cur_text_def sq_def dq_def bs_def blank_char_def op_char_def active_char_def newline_def end_word_def)
  ultimately show ?thesis by blast
qed

section \<open>Secrets\<close>

lemma input_entries_cong:
  assumes "list_all2 (\<lambda>(v, x) (w, y). v = w \<and> (bi_viewable v \<longrightarrow> x = y)) vs ws"
  shows "input_entries vs ctx = input_entries ws ctx"
  using assms by (induction arbitrary: ctx rule: list_all2_induct) auto

text \<open>
  C37: the value of an input that users may not view never reaches a command, an install script or a
  configuration file. Two databases that differ in such values only give the same template context, so
  every template renders to the same result.
\<close>
theorem secrets_never_rendered:
  assumes "resolve_variables d s = Ok vs" "resolve_variables d' s = Ok ws" "t_servers_dir d' = t_servers_dir d"
    and "list_all2 (\<lambda>(v, x) (w, y). v = w \<and> (bi_viewable v \<longrightarrow> x = y)) vs ws"
  shows "template_context d s = template_context d' s"
  using input_entries_cong [OF assms(4)] assms(1-3)
  by (simp add: template_context_def workspace_entries_def server_dir_def)

section \<open>Workspace paths\<close>

lemma validate_path_value:
  assumes "validate_value ve v x = Ok ()" "bi_kind v = KPath m" "trim x \<noteq> []"
  shows "\<not> starts_with ''/'' (trim x) \<and> \<not> starts_with ''~'' (trim x) \<and> ''..'' \<notin> set (rel_components (trim x))"
  using assms by (auto simp: validate_value_def Let_def rbind_Ok_iff validate_workspace_path_def rel_components_def list_ex_iff
    split: if_splits)

lemma validate_all_each:
  assumes "validate_all ve canon dir vs = Ok ()" "(v, x) \<in> set vs" "bi_kind v = KPath m" "trim x \<noteq> []"
  shows "validate_value ve v x = Ok () \<and> enforce_workspace_path canon (bi_env_var v) dir (trim x) = Ok ()"
  using assms by (induction vs) (auto simp: rbind_Ok_iff split: if_splits)

text \<open>
  A launch is refused unless every path input stays inside the workspace: it is relative, names no
  home directory and no parent component, and where the workspace exists its path with all symbolic
  links of its existing part resolved lies under the workspace's own resolved directory.
\<close>
theorem launch_paths_confined:
  assumes "resolve_startup ve canon d s = Ok cmd" "resolve_variables d s = Ok vs" "(v, x) \<in> set vs" "bi_kind v = KPath m" "trim x \<noteq> []"
  shows "\<not> starts_with ''/'' (trim x) \<and> \<not> starts_with ''~'' (trim x) \<and> ''..'' \<notin> set (rel_components (trim x))
    \<and> (case (canon (server_dir d s), deepest canon (server_dir d s @ rel_components (trim x)) []) of
         (Some base, Some resolved) \<Rightarrow> take (length base) resolved = base | _ \<Rightarrow> True)"
proof -
  have "validate_all ve canon (server_dir d s) vs = Ok ()"
    using assms(1,2) by (auto simp: resolve_startup_def validate_resolved_variables_def rbind_Ok_iff)
  from validate_all_each [OF this assms(3-5)]
  have v: "validate_value ve v x = Ok ()" and e: "enforce_workspace_path canon (bi_env_var v) (server_dir d s) (trim x) = Ok ()"
    by blast+
  show ?thesis using validate_path_value [OF v assms(4,5)] e
    by (auto simp: enforce_workspace_path_def check_def split: option.splits if_splits)
qed

section \<open>Worked instances\<close>

definition winput :: "bool \<Rightarrow> string \<Rightarrow> input_kind \<Rightarrow> blueprint_input" where
  "winput view nm k = \<lparr>bi_name = nm, bi_description = [], bi_env_var = nm, bi_default = ''a'', bi_viewable = view, bi_editable = True,
     bi_required = False, bi_kind = k\<rparr>"

definition wtdb :: "blueprint_input list \<Rightarrow> string \<Rightarrow> tdb" where
  "wtdb vs secret = \<lparr>t_blueprints = [\<lparr>bp_id = 1, bp_uuid = [], bp_name = [], bp_description = [], bp_author = [], bp_category = [],
     bp_runtime_hint = [], bp_startup = ''x'', bp_default_config = None, bp_install_script = None, bp_variables = vs, bp_stop_command = [],
     bp_created_at = 0, bp_updated_at = 0\<rparr>],
     t_vars = [\<lparr>sv_server = 7, sv_blueprint = 1, sv_key = ''S'', sv_value = secret\<rparr>], t_servers_dir = [''srv'']\<rparr>"

definition wts :: server where
  "wts = new_server_row 0 7 ''u'' ''name'' 1 1 [] [] 512 1024 100 0"

lemmas template_witness = winput_def wtdb_def wts_def new_server_row_def resolve_variables_def get_blueprint_def get_server_vars_def
  collect_map_def hm_get_def hm_insert_def hm_remove_def

theorem secrets_never_rendered_witness:
  "template_context (wtdb [winput False ''S'' KBool] ''one'') wts = template_context (wtdb [winput False ''S'' KBool] ''two'') wts"
  by (rule secrets_never_rendered [where vs = "[(winput False ''S'' KBool, ''one'')]" and ws = "[(winput False ''S'' KBool, ''two'')]"])
     (simp_all add: template_witness)


theorem launch_paths_confined_witness:
  "''..'' \<notin> set (rel_components (trim ''a''))"
proof -
  let ?d = "wtdb [winput True ''P'' (KPath None)] []"
  let ?ve = "\<lparr>ve_regex = \<lambda>_. None, ve_f64 = \<lambda>_. None, ve_url = \<lambda>_. None\<rparr>"
  have t: "trim ''a'' = ''a''" by (rule trim_id) (simp_all add: ascii_ws_def)
  have vs: "resolve_variables ?d wts = Ok [(winput True ''P'' (KPath None), ''a'')]" by (simp add: template_witness)
  have segs: "segments ''x'' = [Lit CHR ''x'']"
    by (simp add: segments.simps match_placeholder_def strip_prefix_def starts_with_def)
  have bp: "\<exists>b. get_blueprint ?d (s_blueprint_id wts) = Ok b \<and> bp_startup b = ''x''" and st: "s_startup wts = []"
    by (simp_all add: template_witness)
  have tc: "\<exists>ctx. template_context ?d wts = Ok ctx" by (simp add: template_context_def vs Let_def)
  have val: "validate_resolved_variables ?ve (\<lambda>_. None) ?d wts = Ok ()"
    unfolding validate_resolved_variables_def vs rbind_simps
    by (simp add: validate_value_def t enforce_workspace_path_def validate_workspace_path_def starts_with_def check_def winput_def)
  have rc: "render_command ''x'' ctx = Ok ''x''" for ctx by (simp add: render_command_def render_impl_def segs)
  have "\<exists>cmd. resolve_startup ?ve (\<lambda>_. None) ?d wts = Ok cmd"
    using bp tc by (auto simp: resolve_startup_def val st rc)
  then obtain cmd where "resolve_startup ?ve (\<lambda>_. None) ?d wts = Ok cmd" by blast
  from launch_paths_confined [OF this vs, of "winput True ''P'' (KPath None)" "''a''" None] show ?thesis
    by (simp add: t winput_def)
qed

end
