(* ===== verification/Egress.thy ===== *)
theory Egress
  imports Prelude
begin

text \<open>
  Network addresses and the outbound-request guards: the address predicates of the Rust standard
  library, CIDR ranges (\<open>IpNet\<close> of \<open>src/src/config.rs\<close>), the webhook destination check
  (\<open>is_public_ip\<close>, \<open>validate_target_url_opts\<close>, \<open>client_for_target_opts\<close> of
  \<open>src/src/services/webhooks.rs\<close>), and the file-pull guard, its redirect loop and the transfer
  registry (\<open>src/src/services/files.rs\<close>). URL parsing, DNS and the remote server are parameters.
\<close>

unbundle bit_operations_syntax

section \<open>Addresses\<close>

datatype ip = V4 "32 word" | V6 "128 word"

definition octet :: "32 word \<Rightarrow> nat \<Rightarrow> nat" where
  "octet w i = unat w div 2 ^ (24 - 8 * i) mod 256"

definition seg :: "128 word \<Rightarrow> nat \<Rightarrow> nat" where
  "seg w i = unat w div 2 ^ (112 - 16 * i) mod 65536"

text \<open>\<open>std::net::Ipv4Addr\<close> and \<open>Ipv6Addr\<close>.\<close>

definition is_private :: "32 word \<Rightarrow> bool" where
  "is_private w \<longleftrightarrow> octet w 0 = 10 \<or> octet w 0 = 172 \<and> 16 \<le> octet w 1 \<and> octet w 1 \<le> 31
     \<or> octet w 0 = 192 \<and> octet w 1 = 168"

definition is_loopback4 :: "32 word \<Rightarrow> bool" where
  "is_loopback4 w \<longleftrightarrow> octet w 0 = 127"

definition is_link_local :: "32 word \<Rightarrow> bool" where
  "is_link_local w \<longleftrightarrow> octet w 0 = 169 \<and> octet w 1 = 254"

definition is_broadcast :: "32 word \<Rightarrow> bool" where
  "is_broadcast w \<longleftrightarrow> octet w 0 = 255 \<and> octet w 1 = 255 \<and> octet w 2 = 255 \<and> octet w 3 = 255"

definition is_documentation :: "32 word \<Rightarrow> bool" where
  "is_documentation w \<longleftrightarrow> octet w 0 = 192 \<and> octet w 1 = 0 \<and> octet w 2 = 2
     \<or> octet w 0 = 198 \<and> octet w 1 = 51 \<and> octet w 2 = 100
     \<or> octet w 0 = 203 \<and> octet w 1 = 0 \<and> octet w 2 = 113"

definition is_unspecified4 :: "32 word \<Rightarrow> bool" where
  "is_unspecified4 w \<longleftrightarrow> w = 0"

definition is_multicast4 :: "32 word \<Rightarrow> bool" where
  "is_multicast4 w \<longleftrightarrow> 224 \<le> octet w 0 \<and> octet w 0 \<le> 239"

definition is_loopback6 :: "128 word \<Rightarrow> bool" where
  "is_loopback6 w \<longleftrightarrow> w = 1"

definition is_unspecified6 :: "128 word \<Rightarrow> bool" where
  "is_unspecified6 w \<longleftrightarrow> w = 0"

definition is_multicast6 :: "128 word \<Rightarrow> bool" where
  "is_multicast6 w \<longleftrightarrow> seg w 0 AND 0xff00 = 0xff00"

definition to_ipv4_mapped :: "128 word \<Rightarrow> 32 word option" where
  "to_ipv4_mapped w =
     (if seg w 0 = 0 \<and> seg w 1 = 0 \<and> seg w 2 = 0 \<and> seg w 3 = 0 \<and> seg w 4 = 0 \<and> seg w 5 = 0xffff
      then Some (ucast w) else None)"

fun is_loopback :: "ip \<Rightarrow> bool" where
  "is_loopback (V4 w) = is_loopback4 w"
| "is_loopback (V6 w) = is_loopback6 w"

section \<open>Ranges\<close>

record ip_net =
  net_addr :: ip
  net_prefix :: nat

datatype net_error = BadAddress string | BadPrefix string | PrefixTooLong nat

text \<open>\<open>parse::<u8>\<close>: an optional plus sign, at least one digit, a value up to 255.\<close>

definition parse_u8 :: "string \<Rightarrow> nat option" where
  "parse_u8 s =
     (let ds = (case s of c # r \<Rightarrow> if c = CHR ''+'' then r else s | [] \<Rightarrow> s)
      in if ds = [] \<or> \<not> list_all is_ascii_digit ds \<or> 255 < read_nat 0 ds then None else Some (read_nat 0 ds))"

fun split_once :: "char \<Rightarrow> string \<Rightarrow> (string \<times> string) option" where
  "split_once c [] = None"
| "split_once c (x # xs) =
     (if x = c then Some ([], xs) else map_option (\<lambda>(p, q). (x # p, q)) (split_once c xs))"

fun ip_width :: "ip \<Rightarrow> nat" where
  "ip_width (V4 _) = 32"
| "ip_width (V6 _) = 128"

definition ipnet_parse :: "(string \<Rightarrow> ip option) \<Rightarrow> string \<Rightarrow> (net_error, ip_net) result" where
  "ipnet_parse parse_ip s0 =
     (let s = trim s0 in
      case split_once CHR ''/'' s of
        Some (addr, pfx) \<Rightarrow>
          (case parse_ip addr of
             None \<Rightarrow> Err (BadAddress s)
           | Some a \<Rightarrow>
               (case parse_u8 pfx of
                  None \<Rightarrow> Err (BadPrefix s)
                | Some p \<Rightarrow> if ip_width a < p then Err (PrefixTooLong p) else Ok \<lparr>net_addr = a, net_prefix = p\<rparr>))
      | None \<Rightarrow>
          (case parse_ip s of
             None \<Rightarrow> Err (BadAddress s)
           | Some a \<Rightarrow> Ok \<lparr>net_addr = a, net_prefix = ip_width a\<rparr>))"

definition octets6 :: "128 word \<Rightarrow> nat list" where
  "octets6 w = map (\<lambda>i. unat w div 2 ^ (120 - 8 * i) mod 256) [0..<16]"

fun ipnet_contains :: "ip_net \<Rightarrow> ip \<Rightarrow> bool" where
  "ipnet_contains n (V4 ip) =
     (case net_addr n of
        V4 net \<Rightarrow>
          let mask = (if net_prefix n = 0 then 0 else push_bit (32 - net_prefix n) (- 1))
          in net AND mask = ip AND mask
      | V6 _ \<Rightarrow> False)"
| "ipnet_contains n (V6 ip) =
     (case net_addr n of
        V6 net \<Rightarrow>
          let full = net_prefix n div 8; r = net_prefix n mod 8
          in take full (octets6 net) = take full (octets6 ip)
             \<and> (r = 0 \<or> drop_bit (8 - r) (octets6 net ! full) = drop_bit (8 - r) (octets6 ip ! full))
      | V4 _ \<Rightarrow> False)"

section \<open>The two destination guards\<close>

definition is_public4 :: "32 word \<Rightarrow> bool" where
  "is_public4 w \<longleftrightarrow> \<not> (is_private w \<or> is_loopback4 w \<or> is_link_local w \<or> is_broadcast w \<or> is_documentation w
     \<or> is_unspecified4 w \<or> is_multicast4 w \<or> octet w 0 = 0 \<or> 224 \<le> octet w 0
     \<or> octet w 0 = 100 \<and> 64 \<le> octet w 1 \<and> octet w 1 \<le> 127
     \<or> octet w 0 = 192 \<and> octet w 1 = 0 \<and> octet w 2 = 0
     \<or> octet w 0 = 192 \<and> octet w 1 = 88 \<and> octet w 2 = 99
     \<or> octet w 0 = 198 \<and> (octet w 1 = 18 \<or> octet w 1 = 19))"

fun is_public_ip :: "ip \<Rightarrow> bool" where
  "is_public_ip (V4 w) = is_public4 w"
| "is_public_ip (V6 w) =
     (if is_loopback6 w \<or> is_unspecified6 w \<or> is_multicast6 w
         \<or> seg w 0 AND 0xfe00 = 0xfc00 \<or> seg w 0 AND 0xffc0 = 0xfe80
         \<or> seg w 0 = 0x2001 \<and> seg w 1 = 0x0db8 \<or> seg w 0 = 0x2001 \<and> seg w 1 = 0
         \<or> seg w 0 = 0x2001 \<and> seg w 1 = 2 \<or> seg w 0 = 0x0064 \<and> seg w 1 = 0xff9b
      then False
      else case to_ipv4_mapped w of
             Some v4 \<Rightarrow> is_public4 v4
           | None \<Rightarrow> seg w 0 AND 0xe000 = 0x2000)"

definition is_blocked4 :: "32 word \<Rightarrow> bool" where
  "is_blocked4 w =
     (if is_loopback4 w \<or> is_private w \<or> is_link_local w \<or> is_multicast4 w \<or> is_broadcast w \<or> is_unspecified4 w \<or> is_documentation w
      then True
      else let a = octet w 0; b = octet w 1; c = octet w 2 in
        a = 0 \<or> 240 \<le> a \<or> a = 100 \<and> b AND 0xc0 = 0x40 \<or> a = 192 \<and> b = 0 \<and> c = 0 \<or> a = 198 \<and> b AND 0xfe = 0x12)"

fun ip_is_blocked :: "ip \<Rightarrow> bool" where
  "ip_is_blocked (V4 w) = is_blocked4 w"
| "ip_is_blocked (V6 w) =
     (case to_ipv4_mapped w of
        Some v4 \<Rightarrow> is_blocked4 v4
      | None \<Rightarrow>
          is_loopback6 w \<or> is_unspecified6 w \<or> is_multicast6 w \<or> seg w 0 AND 0xfe00 = 0xfc00
          \<or> seg w 0 AND 0xffc0 = 0xfe80 \<or> seg w 0 = 0x2001 \<and> seg w 1 = 0x0db8)"

section \<open>Ranges against integer division\<close>

lemma unat_lt: "unat (w :: 32 word) < 2 ^ 32" "unat (v :: 128 word) < 2 ^ 128"
  using unsigned_less [of w] unsigned_less [of v] by simp_all

lemma contains4:
  assumes "p \<le> 32"
  shows "ipnet_contains \<lparr>net_addr = V4 n, net_prefix = p\<rparr> (V4 x) \<longleftrightarrow> unat n div 2 ^ (32 - p) = unat x div 2 ^ (32 - p)"
proof (cases "p = 0")
  case True
  then show ?thesis using unat_lt by simp
next
  case False
  let ?k = "32 - p"
  have mask: "w AND push_bit ?k (- 1) = push_bit ?k (drop_bit ?k w)" for w :: "32 word"
    by (rule bit_word_eqI) (auto simp: bit_simps)
  have u: "unat (drop_bit ?k w) = unat w div 2 ^ ?k" for w :: "32 word"
    by (rule trans [OF unat_drop_bit_eq drop_bit_eq_div])
  have "push_bit ?k (drop_bit ?k n) = push_bit ?k (drop_bit ?k x) \<longleftrightarrow> drop_bit ?k n = drop_bit ?k x"
  proof
    assume eq: "push_bit ?k (drop_bit ?k n) = push_bit ?k (drop_bit ?k x)"
    show "drop_bit ?k n = drop_bit ?k x"
    proof (rule bit_word_eqI)
      fix i assume "i < LENGTH(32)"
      from eq have "bit (push_bit ?k (drop_bit ?k n)) (i + ?k) = bit (push_bit ?k (drop_bit ?k x)) (i + ?k)" by simp
      then show "bit (drop_bit ?k n) i = bit (drop_bit ?k x) i"
        by (auto simp: bit_simps add.commute dest: bit_imp_le_length)
    qed
  qed simp
  also have "... \<longleftrightarrow> unat n div 2 ^ ?k = unat x div 2 ^ ?k"
    by (simp only: word_unat_eq_iff u)
  finally show ?thesis using False mask by simp
qed

lemma div_step: "(x :: nat) div 2 ^ k = 2 ^ j * (x div 2 ^ (k + j)) + x div 2 ^ k mod 2 ^ j"
  by (simp add: div_mult2_eq power_add)

lemma bytes_prefix:
  fixes n m :: nat
  assumes "n < 2 ^ 128" "m < 2 ^ 128" "k \<le> 16"
  shows "(\<forall>i<k. n div 2 ^ (120 - 8 * i) mod 256 = m div 2 ^ (120 - 8 * i) mod 256)
     \<longleftrightarrow> n div 2 ^ (128 - 8 * k) = m div 2 ^ (128 - 8 * k)"
  using assms(3)
proof (induction k)
  case 0
  then show ?case using assms by simp
next
  case (Suc k)
  have e: "120 - 8 * k + 8 = 128 - 8 * k" "128 - 8 * Suc k = 120 - 8 * k" using Suc.prems by auto
  have st: "x div 2 ^ (120 - 8 * k) = 256 * (x div 2 ^ (128 - 8 * k)) + x div 2 ^ (120 - 8 * k) mod 256" for x :: nat
    using div_step [of x "120 - 8 * k" 8] e(1) by simp
  have "n div 2 ^ (120 - 8 * k) = m div 2 ^ (120 - 8 * k)
     \<longleftrightarrow> n div 2 ^ (128 - 8 * k) = m div 2 ^ (128 - 8 * k) \<and> n div 2 ^ (120 - 8 * k) mod 256 = m div 2 ^ (120 - 8 * k) mod 256"
    (is "?l \<longleftrightarrow> ?r")
  proof
    assume l: ?l
    have "x div 2 ^ (120 - 8 * k) div 2 ^ 8 = x div 2 ^ (128 - 8 * k)" for x :: nat
      by (metis div_mult2_eq e(1) power_add)
    with l show ?r by metis
  qed (use st in metis)
  then show ?case using Suc by (auto simp: less_Suc_eq e(2))
qed

lemma contains6:
  assumes "p \<le> 128"
  shows "ipnet_contains \<lparr>net_addr = V6 n, net_prefix = p\<rparr> (V6 x) \<longleftrightarrow> unat n div 2 ^ (128 - p) = unat x div 2 ^ (128 - p)"
proof -
  let ?f = "p div 8" and ?r = "p mod 8" and ?N = "unat n" and ?X = "unat x"
  have f: "?f \<le> 16" and p: "p = 8 * ?f + ?r" using assms by auto
  have tk: "take ?f (octets6 n) = take ?f (octets6 x) \<longleftrightarrow> ?N div 2 ^ (128 - 8 * ?f) = ?X div 2 ^ (128 - 8 * ?f)"
  proof -
    have "take ?f (octets6 n) = take ?f (octets6 x)
       \<longleftrightarrow> (\<forall>i<?f. ?N div 2 ^ (120 - 8 * i) mod 256 = ?X div 2 ^ (120 - 8 * i) mod 256)"
      using f by (auto simp: octets6_def take_map list_eq_iff_nth_eq min_def)
    then show ?thesis using bytes_prefix [OF unat_lt(2) unat_lt(2) f] by simp
  qed
  show ?thesis
  proof (cases "?r = 0")
    case True
    then show ?thesis using tk p by simp
  next
    case False
    then have f': "?f < 16" using assms p by presburger
    let ?e = "120 - 8 * ?f" and ?s = "8 - ?r"
    have ee: "?e + 8 = 128 - 8 * ?f" "?e + ?s = 128 - p" "?s + ?r = 8" using f' p False by auto
    have byte: "octets6 w ! ?f = unat w div 2 ^ ?e mod 256" for w using f' by (simp add: octets6_def)
    have pw: "(2 :: nat) ^ ?s * 2 ^ ?r = 256" using ee(3) by (simp flip: power_add)
    have small: "(y div 2 ^ ?e mod 256) div 2 ^ ?s < 2 ^ ?r" for y :: nat
      using pw by (simp add: less_mult_imp_div_less mult.commute)
    have split: "y div 2 ^ (128 - p) = 2 ^ ?r * (y div 2 ^ (128 - 8 * ?f)) + (y div 2 ^ ?e mod 256) div 2 ^ ?s" for y :: nat
    proof -
      have "y div 2 ^ ?e = 256 * (y div 2 ^ (128 - 8 * ?f)) + y div 2 ^ ?e mod 256"
        using div_step [of y ?e 8] ee(1) by simp
      then have "y div 2 ^ ?e = y div 2 ^ ?e mod 256 + 2 ^ ?s * (2 ^ ?r * (y div 2 ^ (128 - 8 * ?f)))"
        by (simp only: mult.assoc [symmetric] pw add.commute)
      moreover have "y div 2 ^ (128 - p) = y div 2 ^ ?e div 2 ^ ?s" by (simp only: ee(2) [symmetric] power_add div_mult2_eq)
      ultimately show ?thesis by (metis add.commute div_mult_self2 power_not_zero zero_neq_numeral)
    qed
    have uniq: "2 ^ ?r * a + b = 2 ^ ?r * a' + b' \<longleftrightarrow> a = a' \<and> b = b'" if "b < 2 ^ ?r" "b' < 2 ^ ?r" for a b a' b' :: nat
      using that by (metis div_mult_self4 div_less add_0 add_left_cancel power_not_zero zero_neq_numeral add.commute)
    have "?N div 2 ^ (128 - p) = ?X div 2 ^ (128 - p) \<longleftrightarrow>
        ?N div 2 ^ (128 - 8 * ?f) = ?X div 2 ^ (128 - 8 * ?f)
        \<and> (?N div 2 ^ ?e mod 256) div 2 ^ ?s = (?X div 2 ^ ?e mod 256) div 2 ^ ?s"
      unfolding split by (rule uniq [OF small small])
    then show ?thesis using tk False byte by (simp add: drop_bit_eq_div Let_def)
  qed
qed

text \<open>The range a prefix denotes: the addresses of the same family that agree on the leading bits.\<close>

fun same_prefix :: "nat \<Rightarrow> ip \<Rightarrow> ip \<Rightarrow> bool" where
  "same_prefix p (V4 a) (V4 b) \<longleftrightarrow> unat a div 2 ^ (32 - p) = unat b div 2 ^ (32 - p)"
| "same_prefix p (V6 a) (V6 b) \<longleftrightarrow> unat a div 2 ^ (128 - p) = unat b div 2 ^ (128 - p)"
| "same_prefix p _ _ \<longleftrightarrow> False"

lemma contains_same_prefix:
  assumes "net_prefix n \<le> ip_width (net_addr n)"
  shows "ipnet_contains n x \<longleftrightarrow> same_prefix (net_prefix n) (net_addr n) x"
proof -
  obtain a p where n: "n = \<lparr>net_addr = a, net_prefix = p\<rparr>" by (cases n) auto
  show ?thesis using assms contains4 [of p] contains6 [of p] unfolding n
    by (cases a; cases x) (auto simp del: ipnet_contains.simps simp: ipnet_contains.simps(1,2) [of _ ] split: ip.splits)
qed

lemma ipnet_parse_width: "ipnet_parse f s = Ok n \<Longrightarrow> net_prefix n \<le> ip_width (net_addr n)"
  by (auto simp: ipnet_parse_def Let_def split: option.splits if_splits)

section \<open>The guards against tables of ranges\<close>

definition net4 :: "nat \<Rightarrow> nat \<Rightarrow> nat \<Rightarrow> nat \<Rightarrow> ip_net" where
  "net4 a b c p = \<lparr>net_addr = V4 (of_nat (a * 2 ^ 24 + b * 2 ^ 16 + c * 2 ^ 8)), net_prefix = p\<rparr>"

lemma octet_range: "octet w i < 256"
  by (simp add: octet_def)

lemma unat_octets: "unat w = octet w 0 * 2 ^ 24 + octet w 1 * 2 ^ 16 + octet w 2 * 2 ^ 8 + octet w 3"
proof -
  have top: "unat w div 2 ^ 24 < 256" using unat_lt(1) [of w] by (simp add: less_mult_imp_div_less)
  define q8 q16 q24 r0 r1 r2 where q: "q8 = unat w div 2 ^ 8" "q16 = unat w div 2 ^ 16" "q24 = unat w div 2 ^ 24"
    "r0 = unat w mod 256" "r1 = unat w div 2 ^ 8 mod 256" "r2 = unat w div 2 ^ 16 mod 256"
  have "unat w = 256 * q8 + r0" by (simp add: q)
  moreover have "q8 = 256 * q16 + r1" using div_step [of "unat w" 8 8] by (simp add: q)
  moreover have "q16 = 256 * q24 + r2" using div_step [of "unat w" 16 8] by (simp add: q)
  moreover have "octet w 0 = q24" "octet w 1 = r2" "octet w 2 = r1" "octet w 3 = r0" using top by (simp_all add: octet_def q)
  ultimately show ?thesis by simp
qed

declare ipnet_contains.simps [simp del]

lemma net4_contains:
  assumes "a < 256" "b < 256" "c < 256" "p \<le> 32"
  shows "ipnet_contains (net4 a b c p) (V4 w) \<longleftrightarrow>
    (a * 2 ^ 24 + b * 2 ^ 16 + c * 2 ^ 8) div 2 ^ (32 - p)
      = (octet w 0 * 2 ^ 24 + octet w 1 * 2 ^ 16 + octet w 2 * 2 ^ 8 + octet w 3) div 2 ^ (32 - p)"
proof -
  have "a * 2 ^ 24 + b * 2 ^ 16 + c * 2 ^ 8 < 2 ^ 32" using assms by simp
  moreover have "unat (of_nat m :: 32 word) = m" if "m < 2 ^ 32" for m
    using that by (simp add: unat_of_nat take_bit_nat_eq_self)
  ultimately have "unat (of_nat (a * 2 ^ 24 + b * 2 ^ 16 + c * 2 ^ 8) :: 32 word) = a * 2 ^ 24 + b * 2 ^ 16 + c * 2 ^ 8"
    by blast
  then show ?thesis unfolding net4_def contains4 [OF assms(4)] by (simp only: unat_octets [of w])
qed

lemma octet_sum_div:
  fixes a b c e :: nat
  assumes "a < 256" "b < 256" "c < 256" "e < 256"
  shows "(a * 2 ^ 24 + b * 2 ^ 16 + c * 2 ^ 8 + e) div 2 ^ 8 = a * 65536 + b * 256 + c"
    "(a * 2 ^ 24 + b * 2 ^ 16 + c * 2 ^ 8 + e) div 2 ^ 16 = a * 256 + b"
    "(a * 2 ^ 24 + b * 2 ^ 16 + c * 2 ^ 8 + e) div 2 ^ 24 = a"
proof -
  show 1: "(a * 2 ^ 24 + b * 2 ^ 16 + c * 2 ^ 8 + e) div 2 ^ 8 = a * 65536 + b * 256 + c" using assms by simp
  have "(a * 2 ^ 24 + b * 2 ^ 16 + c * 2 ^ 8 + e) div 2 ^ 16 = (a * 2 ^ 24 + b * 2 ^ 16 + c * 2 ^ 8 + e) div 2 ^ 8 div 2 ^ 8"
    by (simp flip: div_mult2_eq)
  then show 2: "(a * 2 ^ 24 + b * 2 ^ 16 + c * 2 ^ 8 + e) div 2 ^ 16 = a * 256 + b" using assms by (simp add: 1)
  have "(a * 2 ^ 24 + b * 2 ^ 16 + c * 2 ^ 8 + e) div 2 ^ 24 = (a * 2 ^ 24 + b * 2 ^ 16 + c * 2 ^ 8 + e) div 2 ^ 16 div 2 ^ 8"
    by (simp flip: div_mult2_eq)
  then show "(a * 2 ^ 24 + b * 2 ^ 16 + c * 2 ^ 8 + e) div 2 ^ 24 = a" using assms by (simp add: 2)
qed

lemmas octets_div = octet_sum_div [OF octet_range [of w 0] octet_range [of w 1] octet_range [of w 2] octet_range [of w 3]] for w

lemma div_split: "(x :: nat) div 2 ^ (i + j) = x div 2 ^ i div 2 ^ j"
  by (simp only: power_add div_mult2_eq)

lemma pair_eq: "b < 256 \<Longrightarrow> b' < 256 \<Longrightarrow> a * 256 + b = a' * 256 + (b' :: nat) \<longleftrightarrow> a = a' \<and> b = b'"
  by (cases a a' rule: linorder_cases) auto

lemma net4_8: "a < 256 \<Longrightarrow> ipnet_contains (net4 a 0 0 8) (V4 w) \<longleftrightarrow> octet w 0 = a"
  using octets_div(3) [of w] by (auto simp: net4_contains)

lemma net4_16:
  assumes "a < 256" "b < 256"
  shows "ipnet_contains (net4 a b 0 16) (V4 w) \<longleftrightarrow> octet w 0 = a \<and> octet w 1 = b"
  using octets_div(2) [of w] octet_sum_div(2) [of a b 0 0] pair_eq [OF assms(2) octet_range [of w 1], of a "octet w 0"] assms
  by (auto simp: net4_contains)

lemma net4_24:
  assumes "a < 256" "b < 256" "c < 256"
  shows "ipnet_contains (net4 a b c 24) (V4 w) \<longleftrightarrow> octet w 0 = a \<and> octet w 1 = b \<and> octet w 2 = c"
  using octets_div(1) [of w] octet_sum_div(1) [of a b c 0] assms
    pair_eq [OF assms(2) octet_range [of w 1], of a "octet w 0"]
    pair_eq [OF assms(3) octet_range [of w 2], of "a * 256 + b" "octet w 0 * 256 + octet w 1"]
  by (auto simp: net4_contains)

text \<open>A prefix that ends inside the second octet, and one that ends inside the first.\<close>

lemma net4_mid:
  assumes "a < 256" "b < 256" "8 \<le> p" "p \<le> 16"
  shows "ipnet_contains (net4 a b 0 p) (V4 w) \<longleftrightarrow> (a * 256 + b) div 2 ^ (16 - p) = (octet w 0 * 256 + octet w 1) div 2 ^ (16 - p)"
proof -
  have e: "32 - p = 16 + (16 - p)" using assms by simp
  have p: "p \<le> 32" using assms by simp
  have z: "(a * 2 ^ 24 + b * 2 ^ 16 + 0 * 2 ^ 8) div 2 ^ 16 = a * 256 + b" using octet_sum_div(2) [of a b 0 0] assms by simp
  have c0: "(0 :: nat) < 256" by simp
  show ?thesis unfolding net4_contains [OF assms(1,2) c0 p] e div_split octets_div z ..
qed

lemma net4_low:
  assumes "a < 256" "p \<le> 8"
  shows "ipnet_contains (net4 a 0 0 p) (V4 w) \<longleftrightarrow> a div 2 ^ (8 - p) = octet w 0 div 2 ^ (8 - p)"
proof -
  have e: "32 - p = 24 + (8 - p)" using assms by simp
  have p: "p \<le> 32" using assms by simp
  have z: "(a * 2 ^ 24 + 0 * 2 ^ 16 + 0 * 2 ^ 8) div 2 ^ 24 = a" using octet_sum_div(3) [of a 0 0 0] assms by simp
  have c0: "(0 :: nat) < 256" by simp
  show ?thesis unfolding net4_contains [OF assms(1) c0 c0 p] e div_split octets_div z ..
qed

text \<open>The special-purpose IPv4 ranges the webhook guard refuses.\<close>

definition SPECIAL4 :: "ip_net list" where
  "SPECIAL4 = [net4 0 0 0 8, net4 10 0 0 8, net4 100 64 0 10, net4 127 0 0 8, net4 169 254 0 16, net4 172 16 0 12,
     net4 192 0 0 24, net4 192 0 2 24, net4 192 88 99 24, net4 192 168 0 16, net4 198 18 0 15, net4 198 51 100 24,
     net4 203 0 113 24, net4 224 0 0 3]"

lemma div_window: "0 < k \<Longrightarrow> q = x div k \<longleftrightarrow> q * k \<le> x \<and> x < q * k + (k :: nat)"
  using dividend_less_div_times [of k x] div_times_less_eq_dividend [of x k] div_nat_eqI [of k q x]
  by (auto simp: algebra_simps)

lemma net4_rows:
  "ipnet_contains (net4 100 64 0 10) (V4 w) \<longleftrightarrow> octet w 0 = 100 \<and> 64 \<le> octet w 1 \<and> octet w 1 \<le> 127"
  "ipnet_contains (net4 172 16 0 12) (V4 w) \<longleftrightarrow> octet w 0 = 172 \<and> 16 \<le> octet w 1 \<and> octet w 1 \<le> 31"
  "ipnet_contains (net4 198 18 0 15) (V4 w) \<longleftrightarrow> octet w 0 = 198 \<and> (octet w 1 = 18 \<or> octet w 1 = 19)"
  "ipnet_contains (net4 224 0 0 3) (V4 w) \<longleftrightarrow> 224 \<le> octet w 0"
proof -
  define a b where ab: "a = octet w 0" "b = octet w 1"
  have r: "a < 256" "b < 256" using octet_range by (simp_all add: ab)
  have "401 = (a * 256 + b) div 64 \<longleftrightarrow> a = 100 \<and> 64 \<le> b \<and> b \<le> 127" using r by (cases a "100 :: nat" rule: linorder_cases) (auto simp: div_window)
  then show "ipnet_contains (net4 100 64 0 10) (V4 w) \<longleftrightarrow> octet w 0 = 100 \<and> 64 \<le> octet w 1 \<and> octet w 1 \<le> 127"
    by (simp add: net4_mid ab)
  have "2753 = (a * 256 + b) div 16 \<longleftrightarrow> a = 172 \<and> 16 \<le> b \<and> b \<le> 31" using r by (cases a "172 :: nat" rule: linorder_cases) (auto simp: div_window)
  then show "ipnet_contains (net4 172 16 0 12) (V4 w) \<longleftrightarrow> octet w 0 = 172 \<and> 16 \<le> octet w 1 \<and> octet w 1 \<le> 31"
    by (simp add: net4_mid ab)
  have "25353 = (a * 256 + b) div 2 \<longleftrightarrow> a = 198 \<and> (b = 18 \<or> b = 19)" using r by (cases a "198 :: nat" rule: linorder_cases) (auto simp: div_window)
  then show "ipnet_contains (net4 198 18 0 15) (V4 w) \<longleftrightarrow> octet w 0 = 198 \<and> (octet w 1 = 18 \<or> octet w 1 = 19)"
    by (simp add: net4_mid ab)
  have "7 = a div 32 \<longleftrightarrow> 224 \<le> a" using r by (auto simp: div_window)
  then show "ipnet_contains (net4 224 0 0 3) (V4 w) \<longleftrightarrow> 224 \<le> octet w 0"
    by (simp add: net4_low ab)
qed

lemma is_public4_table: "is_public4 w \<longleftrightarrow> \<not> (\<exists>n\<in>set SPECIAL4. ipnet_contains n (V4 w))"
proof -
  have z: "is_unspecified4 w \<Longrightarrow> octet w 0 = 0" by (simp add: octet_def is_unspecified4_def)
  have b: "is_broadcast w \<or> is_multicast4 w \<Longrightarrow> 224 \<le> octet w 0" by (auto simp: is_broadcast_def is_multicast4_def)
  have "is_public4 w \<longleftrightarrow> \<not> (is_private w \<or> is_loopback4 w \<or> is_link_local w \<or> is_documentation w \<or> octet w 0 = 0
     \<or> 224 \<le> octet w 0 \<or> octet w 0 = 100 \<and> 64 \<le> octet w 1 \<and> octet w 1 \<le> 127
     \<or> octet w 0 = 192 \<and> octet w 1 = 0 \<and> octet w 2 = 0 \<or> octet w 0 = 192 \<and> octet w 1 = 88 \<and> octet w 2 = 99
     \<or> octet w 0 = 198 \<and> (octet w 1 = 18 \<or> octet w 1 = 19))"
    unfolding is_public4_def using z b by argo
  then show ?thesis
    unfolding SPECIAL4_def is_private_def is_loopback4_def is_link_local_def is_documentation_def
    by (simp add: net4_rows net4_8 net4_16 net4_24 del: de_Morgan_disj de_Morgan_conj) argo
qed

text \<open>A mask of leading ones keeps the quotient.\<close>

lemma and_high_mask:
  assumes "(n :: nat) < 2 ^ (k + m)"
  shows "n AND push_bit k (mask m) = n div 2 ^ k * 2 ^ k"
proof -
  have "n AND push_bit k (mask m) = push_bit k (drop_bit k n)"
  proof (rule bit_eqI)
    fix i
    have "bit n i \<Longrightarrow> i < k + m"
      using assms by (metis bit_take_bit_iff take_bit_nat_eq_self)
    then show "bit (n AND push_bit k (mask m)) i = bit (push_bit k (drop_bit k n)) i" by (auto simp: bit_simps)
  qed
  then show ?thesis by (simp add: push_bit_eq_mult drop_bit_eq_div)
qed

lemma mask_window:
  assumes "(n :: nat) < 2 ^ (k + m)"
  shows "n AND push_bit k (mask m) = q * 2 ^ k \<longleftrightarrow> q * 2 ^ k \<le> n \<and> n < q * 2 ^ k + 2 ^ k"
  unfolding and_high_mask [OF assms] using div_window [of "2 ^ k" q n] by auto

lemma masks:
  "n < 256 \<Longrightarrow> n AND 0xc0 = 0x40 \<longleftrightarrow> 64 \<le> n \<and> n \<le> (127 :: nat)"
  "n < 256 \<Longrightarrow> n AND 0xfe = 0x12 \<longleftrightarrow> n = 18 \<or> n = (19 :: nat)"
  "n < 65536 \<Longrightarrow> n AND 0xe000 = 0x2000 \<longleftrightarrow> 0x2000 \<le> n \<and> n < (0x4000 :: nat)"
  "n < 65536 \<Longrightarrow> n AND 0xff00 = 0xff00 \<longleftrightarrow> 0xff00 \<le> (n :: nat)"
  "n < 65536 \<Longrightarrow> n AND 0xfe00 = 0xfc00 \<longleftrightarrow> 0xfc00 \<le> n \<and> n < (0xfe00 :: nat)"
  "n < 65536 \<Longrightarrow> n AND 0xffc0 = 0xfe80 \<longleftrightarrow> 0xfe80 \<le> n \<and> n < (0xfec0 :: nat)"
  using mask_window [of n 6 2 1] mask_window [of n 1 7 9] mask_window [of n 13 3 1] mask_window [of n 8 8 255]
    mask_window [of n 9 7 126] mask_window [of n 6 10 1018]
  by (auto simp: mask_eq_exp_minus_1 push_bit_eq_mult)

lemma seg_range: "seg w i < 65536"
  by (simp add: seg_def)

definition net6 :: "nat \<Rightarrow> nat \<Rightarrow> nat \<Rightarrow> ip_net" where
  "net6 s t p = \<lparr>net_addr = V6 (of_nat (s * 2 ^ 112 + t * 2 ^ 96)), net_prefix = p\<rparr>"

lemma segs: "unat w div 2 ^ 112 = seg w 0" "unat w div 2 ^ 96 = seg w 0 * 65536 + seg w 1"
proof -
  have "unat w div 2 ^ 112 < 65536" using unat_lt(2) [of w] by (simp add: less_mult_imp_div_less)
  then show a: "unat w div 2 ^ 112 = seg w 0" by (simp add: seg_def)
  show "unat w div 2 ^ 96 = seg w 0 * 65536 + seg w 1"
    using div_step [of "unat w" 96 16] a by (simp add: seg_def)
qed

lemma net6_addr:
  assumes "s < 65536" "t < 65536"
  shows "unat (of_nat (s * 2 ^ 112 + t * 2 ^ 96) :: 128 word) div 2 ^ 112 = s"
    "unat (of_nat (s * 2 ^ 112 + t * 2 ^ 96) :: 128 word) div 2 ^ 96 = s * 65536 + t"
proof -
  have "unat (of_nat m :: 128 word) = m" if "m < 2 ^ 128" for m using that by (simp add: unat_of_nat take_bit_nat_eq_self)
  moreover have "s * 2 ^ 112 + t * 2 ^ 96 < 2 ^ 128" using assms by simp
  ultimately have u: "unat (of_nat (s * 2 ^ 112 + t * 2 ^ 96) :: 128 word) = s * 2 ^ 112 + t * 2 ^ 96" by blast
  show "unat (of_nat (s * 2 ^ 112 + t * 2 ^ 96) :: 128 word) div 2 ^ 112 = s" unfolding u using assms by simp
  show "unat (of_nat (s * 2 ^ 112 + t * 2 ^ 96) :: 128 word) div 2 ^ 96 = s * 65536 + t" unfolding u using assms by simp
qed

lemma net6_32:
  assumes "s < 65536" "t < 65536"
  shows "ipnet_contains (net6 s t 32) (V6 w) \<longleftrightarrow> seg w 0 = s \<and> seg w 1 = t"
proof -
  have "s * 65536 + t = seg w 0 * 65536 + seg w 1 \<longleftrightarrow> seg w 0 = s \<and> seg w 1 = t"
    using assms seg_range [of w 1] by (cases s "seg w 0" rule: linorder_cases) auto
  then show ?thesis
    using net6_addr(2) [OF assms] segs(2) [of w] by (simp add: net6_def contains6)
qed

lemma net6_3: "ipnet_contains (net6 0x2000 0 3) (V6 w) \<longleftrightarrow> seg w 0 AND 0xe000 = 0x2000"
proof -
  have e: "(125 :: nat) = 112 + 13" by simp
  have a: "unat (of_nat (8192 * 2 ^ 112 + 0 * 2 ^ 96) :: 128 word) div 2 ^ 125 = 1"
    unfolding e div_split using net6_addr(1) [of 8192 0] by simp
  have b: "unat w div 2 ^ 125 = seg w 0 div 8192" unfolding e div_split segs by simp
  have "ipnet_contains (net6 0x2000 0 3) (V6 w) \<longleftrightarrow> 1 = seg w 0 div 8192"
    unfolding net6_def using contains6 [of 3 "of_nat (8192 * 2 ^ 112 + 0 * 2 ^ 96)" w] a b by simp
  then show ?thesis using masks(3) [OF seg_range [of w 0]] by (auto simp: div_window)
qed

text \<open>The IPv6 ranges refused inside the global unicast block.\<close>

definition SPECIAL6 :: "ip_net list" where
  "SPECIAL6 = [net6 0x2001 0x0db8 32, net6 0x2001 0 32, net6 0x2001 2 32]"

lemma mapped_seg0: "to_ipv4_mapped w = Some v \<Longrightarrow> seg w 0 = 0"
  by (auto simp: to_ipv4_mapped_def split: if_splits)

lemma seg0_small: "w = 0 \<or> w = 1 \<Longrightarrow> seg w 0 = 0"
  by (auto simp: seg_def)

lemma mapped_not_special: "to_ipv4_mapped w = Some v \<Longrightarrow> \<not> is_loopback6 w \<and> \<not> is_unspecified6 w"
  by (auto simp: to_ipv4_mapped_def is_loopback6_def is_unspecified6_def seg_def split: if_splits)

lemma is_public6_cases:
  "is_public_ip (V6 w) \<longleftrightarrow> (case to_ipv4_mapped w of Some v \<Rightarrow> is_public4 v
     | None \<Rightarrow> 0x2000 \<le> seg w 0 \<and> seg w 0 < 0x4000 \<and> \<not> (seg w 0 = 0x2001 \<and> (seg w 1 = 0x0db8 \<or> seg w 1 = 0 \<or> seg w 1 = 2)))"
proof (cases "to_ipv4_mapped w")
  case (Some v)
  then show ?thesis using mapped_seg0 [OF Some] mapped_not_special [OF Some]
    by (simp add: is_multicast6_def masks)
next
  case None
  have "is_loopback6 w \<or> is_unspecified6 w \<Longrightarrow> seg w 0 = 0"
    using seg0_small by (auto simp: is_loopback6_def is_unspecified6_def)
  then show ?thesis using None masks(3-6) [OF seg_range [of w 0]] by (auto simp: is_multicast6_def)
qed

text \<open>
  The webhook destination guard is exactly a table of address ranges: an IPv4 address, or the IPv4
  address inside a mapped IPv6 address, is public iff no special-purpose range contains it; any other
  IPv6 address is public iff it lies in 2000::/3 outside the documentation, Teredo and benchmarking ranges.
\<close>
theorem public_ip_is_range_table:
  "is_public_ip x \<longleftrightarrow>
     (case x of
        V4 w \<Rightarrow> \<not> (\<exists>n\<in>set SPECIAL4. ipnet_contains n x)
      | V6 w \<Rightarrow> (case to_ipv4_mapped w of
          Some v \<Rightarrow> \<not> (\<exists>n\<in>set SPECIAL4. ipnet_contains n (V4 v))
        | None \<Rightarrow> ipnet_contains (net6 0x2000 0 3) x \<and> \<not> (\<exists>n\<in>set SPECIAL6. ipnet_contains n x)))"
proof (cases x)
  case (V4 w)
  then show ?thesis using is_public4_table by simp
next
  case (V6 w)
  have "(\<exists>n\<in>set SPECIAL6. ipnet_contains n (V6 w)) \<longleftrightarrow> seg w 0 = 0x2001 \<and> (seg w 1 = 0x0db8 \<or> seg w 1 = 0 \<or> seg w 1 = 2)"
    by (auto simp: SPECIAL6_def net6_32)
  then show ?thesis unfolding V6 is_public6_cases
    by (auto simp: is_public4_table net6_3 masks(3) [OF seg_range] split: option.splits)
qed

lemma is_blocked4_or_public: "\<not> is_public4 w \<longleftrightarrow> is_blocked4 w \<or> octet w 0 = 192 \<and> octet w 1 = 88 \<and> octet w 2 = 99"
proof -
  have ite: "(if c then True else b) \<longleftrightarrow> c \<or> b" for c b by simp
  have top: "224 \<le> octet w 0 \<longleftrightarrow> is_multicast4 w \<or> 240 \<le> octet w 0" by (auto simp: is_multicast4_def)
  show ?thesis
    unfolding is_public4_def is_blocked4_def Let_def ite masks(1,2) [OF octet_range [of w 1]] top by argo
qed

lemma public4_not_blocked: "is_public4 w \<Longrightarrow> \<not> is_blocked4 w"
  using is_blocked4_or_public [of w] by blast

lemma public_not_blocked:
  assumes "is_public_ip x"
  shows "\<not> ip_is_blocked x"
proof (cases x)
  case (V4 w)
  then show ?thesis using assms public4_not_blocked by simp
next
  case (V6 w)
  have z: "is_loopback6 w \<or> is_unspecified6 w \<Longrightarrow> seg w 0 = 0"
    using seg0_small by (auto simp: is_loopback6_def is_unspecified6_def)
  have p: "is_public_ip (V6 w)" using assms V6 by simp
  show ?thesis
  proof (cases "to_ipv4_mapped w")
    case None
    then show ?thesis using p z masks(4-6) [OF seg_range [of w 0]] unfolding V6 is_public6_cases
      by (auto simp: is_multicast6_def)
  next
    case (Some v)
    then show ?thesis using p public4_not_blocked unfolding V6 is_public6_cases by simp
  qed
qed

text \<open>The NAT64 form 64:ff9b::/96 of an IPv4 address, which a translating network routes to that address.\<close>

definition nat64 :: "32 word \<Rightarrow> 128 word" where
  "nat64 v = of_nat (0x0064ff9b * 2 ^ 96 + unat v)"

lemma nat64_segs: "seg (nat64 v) 0 = 0x64" "seg (nat64 v) 1 = 0xff9b"
proof -
  have "unat (of_nat m :: 128 word) = m" if "m < 2 ^ 128" for m using that by (simp add: unat_of_nat take_bit_nat_eq_self)
  moreover have "0x0064ff9b * 2 ^ 96 + unat v < 2 ^ 128" using unat_lt(1) [of v] by simp
  ultimately have u: "unat (nat64 v) = 0x0064ff9b * 2 ^ 96 + unat v" unfolding nat64_def by blast
  have d: "(0x0064ff9b * 2 ^ 96 + unat v) div 2 ^ 96 = 0x0064ff9b" using unat_lt(1) [of v] by simp
  have e: "(112 :: nat) = 96 + 16" by simp
  show "seg (nat64 v) 1 = 0xff9b" using d by (simp add: seg_def u)
  have "(0x0064ff9b * 2 ^ 96 + unat v) div 2 ^ 112 = 0x64" unfolding e div_split d by simp
  then show "seg (nat64 v) 0 = 0x64" by (simp add: seg_def u)
qed

text \<open>
  The file-pull guard and the webhook guard compared. Every destination the webhook guard admits the
  pull guard admits too; on IPv4 they differ only on 192.88.99.0/24; but for every IPv4 address, a private
  or loopback one included, the pull guard admits its NAT64 form, which the webhook guard refuses.
\<close>
theorem pull_guard_is_weaker:
  "(is_public_ip x \<longrightarrow> \<not> ip_is_blocked x)
   \<and> (ip_is_blocked (V4 w) \<noteq> (\<not> is_public_ip (V4 w)) \<longleftrightarrow> ipnet_contains (net4 192 88 99 24) (V4 w))
   \<and> \<not> ip_is_blocked (V6 (nat64 v)) \<and> \<not> is_public_ip (V6 (nat64 v))"
proof -
  have "to_ipv4_mapped (nat64 v) = None" by (simp add: to_ipv4_mapped_def nat64_segs)
  moreover have "\<not> is_loopback6 (nat64 v)" "\<not> is_unspecified6 (nat64 v)"
    using nat64_segs(1) [of v] seg0_small [of "nat64 v"] by (auto simp: is_loopback6_def is_unspecified6_def)
  ultimately have n: "\<not> ip_is_blocked (V6 (nat64 v))" "\<not> is_public_ip (V6 (nat64 v))"
    by (simp_all add: nat64_segs is_multicast6_def masks)
  have "octet w 0 = 192 \<and> octet w 1 = 88 \<and> octet w 2 = 99 \<Longrightarrow> \<not> is_blocked4 w"
    by (auto simp: is_blocked4_def is_private_def is_loopback4_def is_link_local_def is_multicast4_def is_broadcast_def
        is_documentation_def is_unspecified4_def octet_def)
  then have "ip_is_blocked (V4 w) \<noteq> (\<not> is_public_ip (V4 w)) \<longleftrightarrow> ipnet_contains (net4 192 88 99 24) (V4 w)"
    using is_blocked4_or_public [of w] net4_24 [of 192 88 99 w] by auto
  then show ?thesis using n public_not_blocked by blast
qed

section \<open>Destinations\<close>

text \<open>
  What the code reads of a parsed \<open>url::Url\<close>; \<open>url_port\<close> is \<open>port_or_known_default\<close>. A resolver maps a
  host and a port to the addresses of one lookup, or to a failure.
\<close>

datatype url_host = Domain string | HostV4 "32 word" | HostV6 "128 word"

record url =
  url_text :: string
  url_scheme :: string
  url_username :: string
  url_password :: "string option"
  url_fragment :: "string option"
  url_host :: "url_host option"
  url_host_str :: "string option"
  url_port :: "nat option"

type_synonym resolver = "string \<Rightarrow> nat \<Rightarrow> (ip \<times> nat) list option"

datatype egress_error =
    InvalidUrl | SchemeNotAllowed string | HasCredentials | HasFragment | NoHost | NotPublic | NoPort
  | LookupFailed | NoAddresses | BlockedAddress ip
  | Cancelled | NoResponse | NoLocation | BadRedirect | HttpStatus nat | TooLarge nat | Stalled | BrokenFrame | SinkFailed | TooManyRedirects

fun host_ip :: "url_host \<Rightarrow> ip option" where
  "host_ip (HostV4 w) = Some (V4 w)"
| "host_ip (HostV6 w) = Some (V6 w)"
| "host_ip (Domain _) = None"

definition validate_target_url_opts :: "(string \<Rightarrow> url option) \<Rightarrow> string \<Rightarrow> bool \<Rightarrow> (egress_error, url) result" where
  "validate_target_url_opts parse raw allow_http =
     (case parse raw of
        None \<Rightarrow> Err InvalidUrl
      | Some u \<Rightarrow>
          if \<not> (url_scheme u = ''https'' \<or> allow_http \<and> url_scheme u = ''http'') then Err (SchemeNotAllowed (url_scheme u))
          else if url_username u \<noteq> [] \<or> url_password u \<noteq> None then Err HasCredentials
          else if url_fragment u \<noteq> None then Err HasFragment
          else (case url_host u of
                  None \<Rightarrow> Err NoHost
                | Some h \<Rightarrow>
                    if (case host_ip h of Some x \<Rightarrow> \<not> is_public_ip x | None \<Rightarrow> False) then Err NotPublic
                    else if (case url_port u of None \<Rightarrow> True | Some port \<Rightarrow> port = 0) then Err NoPort
                    else Ok u))"

definition validate_target_url :: "(string \<Rightarrow> url option) \<Rightarrow> string \<Rightarrow> (egress_error, url) result" where
  "validate_target_url parse raw = validate_target_url_opts parse raw False"

text \<open>The client is pinned to the returned addresses, follows no redirect and uses no proxy.\<close>

definition client_for_target_opts ::
  "(string \<Rightarrow> url option) \<Rightarrow> resolver \<Rightarrow> string \<Rightarrow> bool \<Rightarrow> (egress_error, (ip \<times> nat) list \<times> url) result" where
  "client_for_target_opts parse lookup raw allow_http =
     rbind (validate_target_url_opts parse raw allow_http) (\<lambda>u.
       case url_host_str u of
         None \<Rightarrow> Err NoHost
       | Some host \<Rightarrow>
           (case url_port u of
              None \<Rightarrow> Err NoPort
            | Some port \<Rightarrow>
                (case lookup host port of
                   None \<Rightarrow> Err LookupFailed
                 | Some addresses \<Rightarrow>
                     if addresses = [] \<or> list_ex (\<lambda>a. \<not> is_public_ip (fst a)) addresses then Err NotPublic
                     else Ok (addresses, u))))"

definition client_for_target :: "(string \<Rightarrow> url option) \<Rightarrow> resolver \<Rightarrow> string \<Rightarrow> (egress_error, (ip \<times> nat) list \<times> url) result" where
  "client_for_target parse lookup raw = client_for_target_opts parse lookup raw False"

section \<open>Remote pulls\<close>

definition PULL_MAX_REDIRECTS :: nat where "PULL_MAX_REDIRECTS = 5"
definition PULL_TRANSFER_TTL :: int where "PULL_TRANSFER_TTL = 3600 * 10 ^ 9"

record pull_target =
  pt_url :: url
  pt_addrs :: "(ip \<times> nat) list"

definition parse_pull_url :: "(string \<Rightarrow> url option) \<Rightarrow> string \<Rightarrow> (egress_error, url) result" where
  "parse_pull_url parse raw =
     (case parse raw of
        None \<Rightarrow> Err InvalidUrl
      | Some u \<Rightarrow>
          if url_scheme u \<noteq> ''http'' \<and> url_scheme u \<noteq> ''https'' then Err (SchemeNotAllowed (url_scheme u))
          else if url_host_str u = None then Err NoHost
          else (case (case url_host u of Some h \<Rightarrow> host_ip h | None \<Rightarrow> None) of
                  Some x \<Rightarrow> if ip_is_blocked x then Err (BlockedAddress x) else Ok u
                | None \<Rightarrow> Ok u))"

definition check_resolved_addrs :: "(ip \<times> nat) list \<Rightarrow> (egress_error, unit) result" where
  "check_resolved_addrs addrs =
     (case find (\<lambda>a. ip_is_blocked (fst a)) addrs of Some a \<Rightarrow> Err (BlockedAddress (fst a)) | None \<Rightarrow> Ok ())"

definition prepare_pull :: "(string \<Rightarrow> url option) \<Rightarrow> resolver \<Rightarrow> string \<Rightarrow> (egress_error, pull_target) result" where
  "prepare_pull parse lookup raw =
     rbind (parse_pull_url parse raw) (\<lambda>u.
       let port = (case url_port u of Some p \<Rightarrow> p | None \<Rightarrow> 80) in
       case url_host_str u of
         None \<Rightarrow> Err NoHost
       | Some host \<Rightarrow>
           (case lookup host port of
              None \<Rightarrow> Err LookupFailed
            | Some addrs \<Rightarrow>
                if addrs = [] then Err NoAddresses
                else rbind (check_resolved_addrs addrs) (\<lambda>_. Ok \<lparr>pt_url = u, pt_addrs = addrs\<rparr>)))"

text \<open>The transfer's shared state, and what a remote server does with one request.\<close>

record pull_state =
  pl_status :: string
  pl_phase :: string
  pl_received :: nat
  pl_total :: "nat option"
  pl_error :: "egress_error option"
  pl_cancel :: bool

datatype frame = Data string | Trailers | FrameError | NoFrame

datatype reply =
    Silent
  | Redirect "string option"
  | Status nat
  | Body "nat option" "frame list"

text \<open>
  \<open>cancelled\<close> says whether the cancel flag is up when the transfer looks at it the n-th time during this
  response; \<open>sink\<close> writes a chunk, or fails.
\<close>

definition sat_u64 :: "nat \<Rightarrow> nat" where
  "sat_u64 n = min n (2 ^ 64 - 1)"

fun pull_body ::
  "nat \<Rightarrow> (nat \<Rightarrow> bool) \<Rightarrow> ('s \<Rightarrow> string \<Rightarrow> 's option) \<Rightarrow> nat \<Rightarrow> frame list \<Rightarrow> nat \<Rightarrow> pull_state \<Rightarrow> 's
     \<Rightarrow> (egress_error, nat) result \<times> pull_state \<times> 's" where
  "pull_body cap cancelled sink i [] received st out = (Ok received, st, out)"
| "pull_body cap cancelled sink i (f # fs) received st out =
     (case f of
        NoFrame \<Rightarrow> (Err Stalled, st, out)
      | FrameError \<Rightarrow> (Err BrokenFrame, st, out)
      | Trailers \<Rightarrow> (Err BrokenFrame, st, out)
      | Data chunk \<Rightarrow>
          if cancelled i then (Err Cancelled, st, out)
          else
            let received' = sat_u64 (received + length chunk) in
            if cap < received' then (Err (TooLarge (cap div (1024 * 1024))), st, out)
            else (case sink out chunk of
                    None \<Rightarrow> (Err SinkFailed, st, out)
                  | Some out' \<Rightarrow> pull_body cap cancelled sink (i + 1) fs received' (st\<lparr>pl_received := received'\<rparr>) out'))"

text \<open>
  The hops of \<open>pull_stream\<close>, newest connection first in \<open>conns\<close>: the target each request was pinned to.
  \<open>pe_reply\<close> is the server, \<open>pe_join\<close> resolves a redirect against the current URL, \<open>pe_lookup n\<close> is the
  n-th lookup.
\<close>

record pull_env =
  pe_parse :: "string \<Rightarrow> url option"
  pe_lookup :: "nat \<Rightarrow> resolver"
  pe_join :: "url \<Rightarrow> string \<Rightarrow> string option"
  pe_reply :: "nat \<Rightarrow> pull_target \<Rightarrow> reply"
  pe_cancel_hop :: "nat \<Rightarrow> bool"
  pe_cancel_chunk :: "nat \<Rightarrow> nat \<Rightarrow> bool"

fun pull_hops ::
  "pull_env \<Rightarrow> nat \<Rightarrow> ('s \<Rightarrow> string \<Rightarrow> 's option) \<Rightarrow> nat \<Rightarrow> nat \<Rightarrow> pull_target \<Rightarrow> pull_target list \<Rightarrow> pull_state \<Rightarrow> 's
     \<Rightarrow> (egress_error, nat) result \<times> pull_target list \<times> pull_state \<times> 's" where
  "pull_hops env cap sink 0 hop current conns st out = (Err TooManyRedirects, conns, st, out)"
| "pull_hops env cap sink (Suc n) hop current conns st out =
     (if pe_cancel_hop env hop then (Err Cancelled, conns, st, out)
      else
        let conns' = current # conns in
        (case pe_reply env hop current of
           Silent \<Rightarrow> (Err NoResponse, conns', st, out)
         | Redirect None \<Rightarrow> (Err NoLocation, conns', st, out)
         | Redirect (Some loc) \<Rightarrow>
             (case pe_join env (pt_url current) loc of
                None \<Rightarrow> (Err BadRedirect, conns', st, out)
              | Some next \<Rightarrow>
                  (case prepare_pull (pe_parse env) (pe_lookup env (hop + 1)) next of
                     Err e \<Rightarrow> (Err e, conns', st, out)
                   | Ok target \<Rightarrow> pull_hops env cap sink n (hop + 1) target conns' st out))
         | Status c \<Rightarrow> (Err (HttpStatus c), conns', st, out)
         | Body length_header frames \<Rightarrow>
             if (case length_header of Some l \<Rightarrow> cap < l | None \<Rightarrow> False)
             then (Err (TooLarge (cap div (1024 * 1024))), conns', st, out)
             else
               let st1 = (case length_header of Some l \<Rightarrow> st\<lparr>pl_total := Some l\<rparr> | None \<Rightarrow> st) in
               (case pull_body cap (pe_cancel_chunk env hop) sink 0 frames 0 st1 out of
                  (r, st2, out2) \<Rightarrow> (r, conns', st2, out2))))"

definition pull_stream ::
  "pull_env \<Rightarrow> nat \<Rightarrow> ('s \<Rightarrow> string \<Rightarrow> 's option) \<Rightarrow> pull_target \<Rightarrow> pull_state \<Rightarrow> 's
     \<Rightarrow> (egress_error, nat) result \<times> pull_target list \<times> pull_state \<times> 's" where
  "pull_stream env cap sink target st out = pull_hops env cap sink (Suc PULL_MAX_REDIRECTS) 0 target [] st out"

definition download_pull_buf ::
  "pull_env \<Rightarrow> pull_target \<Rightarrow> nat \<Rightarrow> pull_state \<Rightarrow> (egress_error, string) result \<times> pull_target list \<times> pull_state" where
  "download_pull_buf env target cap st =
     (case pull_stream env cap (\<lambda>buf chunk. Some (buf @ chunk)) target st [] of
        (r, conns, st', buf) \<Rightarrow> (rbind r (\<lambda>_. Ok buf), conns, st'))"

text \<open>
  \<open>remote_pull\<close>: resolve, download, push to the node (\<open>push\<close> is the node client's \<open>write_file\<close>).
\<close>

definition remote_pull ::
  "pull_env \<Rightarrow> (string \<Rightarrow> (egress_error, unit) result) \<Rightarrow> string \<Rightarrow> nat \<Rightarrow> pull_state
     \<Rightarrow> (egress_error, nat) result \<times> pull_target list \<times> pull_state" where
  "remote_pull env push raw cap st =
     (let st1 = st\<lparr>pl_phase := ''resolving''\<rparr> in
      case prepare_pull (pe_parse env) (pe_lookup env 0) raw of
        Err e \<Rightarrow> (Err e, [], st1)
      | Ok target \<Rightarrow>
          (case download_pull_buf env target cap (st1\<lparr>pl_phase := ''downloading''\<rparr>) of
             (Err e, conns, st2) \<Rightarrow> (Err e, conns, st2)
           | (Ok bytes, conns, st2) \<Rightarrow>
               (rbind (push bytes) (\<lambda>_. Ok (length bytes)), conns, st2\<lparr>pl_phase := ''pushing''\<rparr>)))"

section \<open>The transfer registry\<close>

record pull_handle =
  ph_id :: string
  ph_server :: int
  ph_url :: string
  ph_dest :: string
  ph_node :: string
  ph_created :: int
  ph_state :: pull_state
  ph_finished :: "int option"

type_synonym pulls = "(string, pull_handle) hmap"

definition get_pull :: "pulls \<Rightarrow> string \<Rightarrow> pull_handle option" where
  "get_pull m i = hm_get m i"

definition start_pull :: "string \<Rightarrow> int \<Rightarrow> pulls \<Rightarrow> int \<Rightarrow> string \<Rightarrow> string \<Rightarrow> string \<Rightarrow> pulls \<times> pull_handle" where
  "start_pull uuid now m server_id raw dest node =
     (let h = \<lparr>ph_id = uuid, ph_server = server_id, ph_url = raw, ph_dest = dest, ph_node = node, ph_created = now,
                ph_state = \<lparr>pl_status = ''running'', pl_phase = ''queued'', pl_received = 0, pl_total = None, pl_error = None,
                            pl_cancel = False\<rparr>,
                ph_finished = None\<rparr>;
          kept = hm_retain (\<lambda>_ h. pl_status (ph_state h) = ''running''
                   \<or> (case ph_finished h of None \<Rightarrow> True | Some t \<Rightarrow> now - t \<le> PULL_TRANSFER_TTL)) m
      in (hm_insert uuid h kept, h))"

definition finish_pull :: "int \<Rightarrow> (egress_error, nat) result \<Rightarrow> pull_handle \<Rightarrow> pull_handle" where
  "finish_pull now r h =
     (let st = (ph_state h)\<lparr>pl_phase := []\<rparr>;
          st' = (if pl_cancel st then st\<lparr>pl_status := ''cancelled''\<rparr>
                 else (case r of
                         Ok n \<Rightarrow> st\<lparr>pl_status := ''done'', pl_received := n,
                                   pl_total := Some (case pl_total st of Some t \<Rightarrow> t | None \<Rightarrow> n)\<rparr>
                       | Err e \<Rightarrow> st\<lparr>pl_status := ''error'', pl_error := Some e\<rparr>))
      in h\<lparr>ph_state := st', ph_finished := Some now\<rparr>)"

definition cancel_pull :: "pull_handle \<Rightarrow> pull_handle \<times> bool" where
  "cancel_pull h =
     (if pl_status (ph_state h) = ''running'' then (h\<lparr>ph_state := (ph_state h)\<lparr>pl_cancel := True\<rparr>\<rparr>, True)
      else (h, False))"

section \<open>What the guards give\<close>

definition admitted :: "pull_target \<Rightarrow> bool" where
  "admitted t \<longleftrightarrow> pt_addrs t \<noteq> [] \<and> list_all (\<lambda>a. \<not> ip_is_blocked (fst a)) (pt_addrs t)
     \<and> (url_scheme (pt_url t) = ''http'' \<or> url_scheme (pt_url t) = ''https'')"

lemma check_resolved_Ok: "check_resolved_addrs addrs = Ok () \<longleftrightarrow> list_all (\<lambda>a. \<not> ip_is_blocked (fst a)) addrs"
  by (auto simp: check_resolved_addrs_def list_all_iff find_None_set dest: find_Some_set split: option.splits)

lemma prepare_pull_admitted: "prepare_pull parse lookup raw = Ok t \<Longrightarrow> admitted t"
  by (auto simp: prepare_pull_def parse_pull_url_def admitted_def rbind_Ok_iff check_resolved_Ok Let_def split: option.splits if_splits)

lemma target_scheme:
  "validate_target_url_opts parse raw allow_http = Ok u \<Longrightarrow> url_scheme u = ''https'' \<or> allow_http \<and> url_scheme u = ''http''"
  unfolding validate_target_url_opts_def by (fastforce split: option.splits if_splits)

lemma client_target_public:
  assumes "client_for_target_opts parse lookup raw allow_http = Ok (addrs, u)"
  shows "addrs \<noteq> [] \<and> list_all (\<lambda>a. is_public_ip (fst a)) addrs \<and> (url_scheme u = ''https'' \<or> allow_http \<and> url_scheme u = ''http'')"
proof -
  obtain v where v: "validate_target_url_opts parse raw allow_http = Ok v"
    using assms by (auto simp: client_for_target_opts_def rbind_Ok_iff)
  obtain host port where hp: "url_host_str v = Some host" "url_port v = Some port"
    using assms by (cases "url_host_str v"; cases "url_port v") (auto simp: client_for_target_opts_def v)
  obtain as where "lookup host port = Some as"
    using assms by (cases "lookup host port") (auto simp: client_for_target_opts_def v hp)
  with assms have "addrs \<noteq> []" "list_all (\<lambda>a. is_public_ip (fst a)) addrs" "v = u"
    by (auto simp: client_for_target_opts_def v hp list_all_iff list_ex_iff split: if_splits)
  then show ?thesis using target_scheme [OF v] by simp
qed

text \<open>The bytes handed to the sink are counted in \<open>received\<close>, which never passes the limit.\<close>

lemma pull_body_bounded:
  assumes "cap < 2 ^ 64 - 1" "length buf = received" "received \<le> cap"
  shows "(case pull_body cap cancelled (\<lambda>b c. Some (b @ c)) i fs received st buf of
    (r, st', buf') \<Rightarrow> length buf' \<le> cap \<and> (\<forall>n. r = Ok n \<longrightarrow> n = length buf'))"
  using assms(2,3)
proof (induction fs arbitrary: i received st buf)
  case (Cons f fs)
  have step: "length (buf @ chunk) = sat_u64 (received + length chunk)" if "sat_u64 (received + length chunk) \<le> cap" for chunk
    using that assms(1) Cons.prems by (auto simp: sat_u64_def min_def split: if_splits)
  show ?case
  proof (cases f)
    case (Data chunk)
    then show ?thesis
      using Cons.prems Cons.IH [OF step [of chunk], of "i + 1" "st\<lparr>pl_received := sat_u64 (received + length chunk)\<rparr>"]
      by (auto simp: Let_def not_less)
  qed (use Cons.prems in auto)
qed auto

lemma pull_hops_guarded:
  assumes "cap < 2 ^ 64 - 1"
  shows "admitted current \<Longrightarrow> list_all admitted conns \<Longrightarrow>
    (case pull_hops env cap (\<lambda>b c. Some (b @ c)) n hop current conns st [] of
      (r, conns', st', buf) \<Rightarrow> list_all admitted conns' \<and> length conns' \<le> length conns + n \<and> length buf \<le> cap
        \<and> (\<forall>k. r = Ok k \<longrightarrow> k = length buf))"
proof (induction n arbitrary: hop current conns st)
  case (Suc n)
  show ?case
  proof (cases "pe_cancel_hop env hop")
    case False
    let ?conns = "current # conns"
    show ?thesis
    proof (cases "pe_reply env hop current")
      case (Redirect loc)
      show ?thesis
      proof (cases loc)
        case (Some l)
        show ?thesis
        proof (cases "pe_join env (pt_url current) l")
          case (Some nxt)
          show ?thesis
          proof (cases "prepare_pull (pe_parse env) (pe_lookup env (hop + 1)) nxt")
            case (Inr target)
            show ?thesis
              using Suc.prems Suc.IH [OF prepare_pull_admitted [OF Inr], of ?conns "hop + 1" st]
                False Redirect \<open>loc = Some l\<close> Some Inr by (auto simp: Let_def split: prod.splits)
          qed (use Suc.prems False Redirect \<open>loc = Some l\<close> Some in auto)
        qed (use Suc.prems False Redirect \<open>loc = Some l\<close> in auto)
      qed (use Suc.prems False Redirect in auto)
    next
      case (Body lh frames)
      define st1 where "st1 = (case lh of Some l \<Rightarrow> st\<lparr>pl_total := Some l\<rparr> | None \<Rightarrow> st)"
      show ?thesis
        using Suc.prems False Body pull_body_bounded [OF assms, of "[]" 0 "pe_cancel_chunk env hop" 0 frames st1]
        by (auto simp: Let_def st1_def [symmetric] split: prod.splits)
    qed (use Suc.prems False in auto)
  qed (use Suc.prems in auto)
qed auto

text \<open>
  C23: a remote pull, redirects included, only ever connects to targets the address guard admitted after
  resolving them: at most six connections, every one pinned to a non-empty list of addresses none of
  which is blocked; and what it hands to the node never exceeds the size limit, whatever length the
  remote server announces.
\<close>
theorem pull_stays_guarded:
  assumes "cap < 2 ^ 64 - 1" "remote_pull env push raw cap st = (r, conns, st')"
  shows "list_all (\<lambda>t. pt_addrs t \<noteq> [] \<and> list_all (\<lambda>a. \<not> ip_is_blocked (fst a)) (pt_addrs t)) conns
    \<and> length conns \<le> PULL_MAX_REDIRECTS + 1 \<and> (\<forall>n. r = Ok n \<longrightarrow> n \<le> cap)"
proof (cases "prepare_pull (pe_parse env) (pe_lookup env 0) raw")
  case (Inl e)
  then show ?thesis using assms(2) by (auto simp: remote_pull_def Let_def)
next
  case (Inr target)
  let ?st = "st\<lparr>pl_phase := ''downloading''\<rparr>"
  obtain r1 c1 s1 buf where run: "pull_hops env cap (\<lambda>b c. Some (b @ c)) (Suc PULL_MAX_REDIRECTS) 0 target [] ?st [] = (r1, c1, s1, buf)"
    by (cases "pull_hops env cap (\<lambda>b c. Some (b @ c)) (Suc PULL_MAX_REDIRECTS) 0 target [] ?st []")
  have g: "list_all admitted c1" "length c1 \<le> PULL_MAX_REDIRECTS + 1" "length buf \<le> cap"
    using pull_hops_guarded [OF assms(1) prepare_pull_admitted [OF Inr], where conns = "[]" and env = env
        and n = "Suc PULL_MAX_REDIRECTS" and hop = 0 and st = ?st] unfolding run by simp_all
  have "conns = c1 \<and> (\<forall>n. r = Ok n \<longrightarrow> n = length buf)"
    using assms(2) Inr unfolding remote_pull_def download_pull_buf_def pull_stream_def Let_def
    by (cases r1) (auto simp: run rbind_Ok_iff simp del: pull_hops.simps)
  with g have "list_all admitted conns \<and> length conns \<le> PULL_MAX_REDIRECTS + 1 \<and> (\<forall>n. r = Ok n \<longrightarrow> n \<le> cap)" by auto
  then show ?thesis by (auto simp: admitted_def list_all_iff)
qed

text \<open>
  A transfer that was cancelled while it ran ends as cancelled, whatever its result; a finished one
  cannot be cancelled; and registering a transfer drops no running one.
\<close>

lemma cancel_wins:
  assumes "cancel_pull h = (h', True)"
  shows "pl_status (ph_state (finish_pull now r h')) = ''cancelled''"
    "cancel_pull (finish_pull now r h') = (finish_pull now r h', False)"
  using assms by (auto simp: cancel_pull_def finish_pull_def Let_def split: if_splits)

lemma start_pull_keeps_running:
  assumes "hm_wf m" "get_pull m i = Some h" "pl_status (ph_state h) = ''running''" "i \<noteq> uuid"
  shows "get_pull (fst (start_pull uuid now m sid raw dest node)) i = Some h"
  using assms by (simp add: start_pull_def get_pull_def Let_def hm_get_retain)

theorem pull_stays_guarded_witness:
  "list_all (\<lambda>t. pt_addrs t \<noteq> [] \<and> list_all (\<lambda>a. \<not> ip_is_blocked (fst a)) (pt_addrs t))
     [\<lparr>pt_url = \<lparr>url_text = ''u'', url_scheme = ''https'', url_username = [], url_password = None, url_fragment = None,
        url_host = Some (Domain ''h''), url_host_str = Some ''h'', url_port = Some 443\<rparr>, pt_addrs = [(V4 0x08080808, 443)]\<rparr>]"
proof -
  let ?u = "\<lparr>url_text = ''u'', url_scheme = ''https'', url_username = [], url_password = None, url_fragment = None,
        url_host = Some (Domain ''h''), url_host_str = Some ''h'', url_port = Some 443\<rparr>"
  let ?t = "\<lparr>pt_url = ?u, pt_addrs = [(V4 0x08080808, 443)]\<rparr>"
  let ?env = "\<lparr>pe_parse = \<lambda>_. Some ?u, pe_lookup = \<lambda>_ _ _. Some [(V4 0x08080808, 443)], pe_join = \<lambda>_ _. None,
    pe_reply = \<lambda>_ _. Body (Some 3) [Data ''abc''], pe_cancel_hop = \<lambda>_. False, pe_cancel_chunk = \<lambda>_ _. False\<rparr>"
  let ?s = "\<lparr>pl_status = ''running'', pl_phase = ''queued'', pl_received = 0, pl_total = None, pl_error = None, pl_cancel = False\<rparr>"
  have "octet 0x08080808 0 = 8" "octet 0x08080808 1 = 8" by (simp_all add: octet_def)
  then have g: "\<not> is_blocked4 0x08080808"
    by (simp add: is_blocked4_def is_loopback4_def is_private_def is_link_local_def is_multicast4_def is_broadcast_def
        is_unspecified4_def is_documentation_def)
  have p: "prepare_pull (pe_parse ?env) (pe_lookup ?env 0) ''u'' = Ok ?t"
    by (simp add: prepare_pull_def parse_pull_url_def check_resolved_addrs_def g)
  have "\<exists>st'. remote_pull ?env (\<lambda>_. Ok ()) ''u'' 10 ?s = (Ok 3, [?t], st')"
    unfolding remote_pull_def p
    by (simp add: download_pull_buf_def pull_stream_def sat_u64_def Let_def)
  then obtain st' where "remote_pull ?env (\<lambda>_. Ok ()) ''u'' 10 ?s = (Ok 3, [?t], st')" by blast
  from pull_stays_guarded [OF _ this] show ?thesis by simp
qed

text \<open>\<open>pull_guard_is_weaker\<close> at 8.8.8.8, which both guards admit, and at the NAT64 form of 127.0.0.1.\<close>

theorem pull_guard_is_weaker_witness:
  "is_public_ip (V4 0x08080808) \<and> \<not> ip_is_blocked (V4 0x08080808) \<and> \<not> ip_is_blocked (V6 (nat64 0x7f000001))"
proof -
  have "octet 0x08080808 0 = 8" "octet 0x08080808 1 = 8" by (simp_all add: octet_def)
  then have "is_public_ip (V4 0x08080808)"
    by (simp add: is_public4_def is_loopback4_def is_private_def is_link_local_def is_multicast4_def is_broadcast_def
        is_unspecified4_def is_documentation_def)
  then show ?thesis using pull_guard_is_weaker [of "V4 0x08080808" 0 "0x7f000001"] by blast
qed

theorem public_ip_is_range_table_witness:
  "\<not> is_public_ip (V4 0x0a000001)"
proof -
  have "octet 0x0a000001 0 = 10" by (simp add: octet_def)
  then have "ipnet_contains (net4 10 0 0 8) (V4 0x0a000001)" by (simp add: net4_8)
  then show ?thesis using public_ip_is_range_table [of "V4 0x0a000001"] by (auto simp: SPECIAL4_def)
qed

end
