(* ===== verification/Requests.thy ===== *)
theory Requests
  imports Keys Sessions RateLimit Egress
begin

text \<open>
  What a request passes before its handler (\<open>src/src/api/mod.rs\<close>, with the derived host names of
  \<open>src/src/config.rs\<close> and the order of the layers in \<open>src/src/main.rs\<close>): the host allowlist, the flood
  gate keyed on the client address, the same-origin check for cookie-authenticated mutations, and the
  extractors that turn a cookie or an API key into a user. URL, authority and address parsing and
  printing are parameters.
\<close>

section \<open>Requests\<close>

record request =
  rq_method :: string
  rq_path :: string
  rq_headers :: "(string \<times> string) list"
  rq_authority :: "string option"
  rq_peer :: ip

record web_config =
  wc_listen_ip :: ip
  wc_listen_port :: nat
  wc_tls_self_signed :: bool
  wc_tls_extra_sans :: "string list"
  wc_trusted_proxies :: "ip_net list"
  wc_allowed_origins :: "string list"
  wc_hostnames :: "string list"
  wc_rate_limit :: nat
  wc_enable_api_keys :: bool

record web_env =
  we_url :: "string \<Rightarrow> url option"
  we_authority :: "string \<Rightarrow> (string \<times> nat option) option"
  we_parse_ip :: "string \<Rightarrow> ip option"
  we_show_ip :: "ip \<Rightarrow> string"
  we_machine :: "string option"

text \<open>\<open>HeaderMap::get\<close> is the first value of a name; \<open>to_str\<close> accepts visible ASCII and tabs only.\<close>

definition visible_ascii :: "char \<Rightarrow> bool" where
  "visible_ascii c \<longleftrightarrow> 32 \<le> code c \<and> code c < 127 \<or> code c = 9"

definition header :: "string \<Rightarrow> request \<Rightarrow> string option" where
  "header n r = (case map_of (rq_headers r) n of
     Some v \<Rightarrow> if list_all visible_ascii v then Some v else None | None \<Rightarrow> None)"

datatype gate = Next | Reject nat string

section \<open>Proxies and the client address\<close>

definition peer_is_trusted :: "ip \<Rightarrow> ip_net list \<Rightarrow> bool" where
  "peer_is_trusted peer proxies \<longleftrightarrow> is_loopback peer \<or> list_ex (\<lambda>n. ipnet_contains n peer) proxies"

definition request_is_https :: "request \<Rightarrow> ip_net list \<Rightarrow> bool" where
  "request_is_https r proxies \<longleftrightarrow> peer_is_trusted (rq_peer r) proxies
     \<and> (case header ''x-forwarded-proto'' r of
          Some v \<Rightarrow> eq_ignore_ascii_case (trim (hd (split_on CHR '','' v))) ''https''
        | None \<Rightarrow> False)"

definition request_is_tls :: "web_config \<Rightarrow> request \<Rightarrow> bool" where
  "request_is_tls cfg r \<longleftrightarrow> wc_tls_self_signed cfg \<or> request_is_https r (wc_trusted_proxies cfg)"

fun first_untrusted :: "web_env \<Rightarrow> ip_net list \<Rightarrow> string list \<Rightarrow> ip option" where
  "first_untrusted env proxies [] = None"
| "first_untrusted env proxies (hop # hops) =
     (if trim hop = [] then first_untrusted env proxies hops
      else case we_parse_ip env (trim hop) of
             None \<Rightarrow> first_untrusted env proxies hops
           | Some x \<Rightarrow>
               if is_loopback x \<or> list_ex (\<lambda>n. ipnet_contains n x) proxies then first_untrusted env proxies hops
               else Some x)"

definition client_ip :: "web_env \<Rightarrow> request \<Rightarrow> ip_net list \<Rightarrow> string" where
  "client_ip env r proxies =
     (if \<not> peer_is_trusted (rq_peer r) proxies then we_show_ip env (rq_peer r)
      else case header ''x-forwarded-for'' r of
             None \<Rightarrow> we_show_ip env (rq_peer r)
           | Some xff \<Rightarrow>
               (case first_untrusted env proxies (rev (split_on CHR '','' xff)) of
                  Some x \<Rightarrow> we_show_ip env x
                | None \<Rightarrow> we_show_ip env (rq_peer r)))"

section \<open>Host allowlist\<close>

fun rsplit_once :: "char \<Rightarrow> string \<Rightarrow> (string \<times> string) option" where
  "rsplit_once c [] = None"
| "rsplit_once c (x # xs) =
     (case rsplit_once c xs of
        Some (p, q) \<Rightarrow> Some (x # p, q)
      | None \<Rightarrow> if x = c then Some ([], xs) else None)"

definition split_host_port :: "string \<Rightarrow> string \<times> string option" where
  "split_host_port v =
     (if starts_with ''['' v then
        (case find_sub '']'' v of
           None \<Rightarrow> (v, None)
         | Some close \<Rightarrow> (take (close + 1) v, strip_prefix '':'' (drop (close + 1) v)))
      else
        (case rsplit_once CHR '':'' v of
           Some (host, port) \<Rightarrow> if port \<noteq> [] \<and> list_all is_ascii_digit port then (host, Some port) else (v, None)
         | None \<Rightarrow> (v, None)))"

definition hostname_matches :: "string \<Rightarrow> string \<Rightarrow> bool" where
  "hostname_matches allowed host =
     (let (allowed_host, allowed_port) = split_host_port allowed;
          (host_host, host_port) = split_host_port host
      in eq_ignore_ascii_case allowed_host host_host
         \<and> (case allowed_port of Some configured \<Rightarrow> host_port = Some configured | None \<Rightarrow> True))"

definition host_is_ip_literal :: "web_env \<Rightarrow> string \<Rightarrow> bool" where
  "host_is_ip_literal env host =
     (let host_part = fst (split_host_port host);
          bare = (case strip_prefix ''['' host_part of
                    Some h \<Rightarrow> if ends_with '']'' h then butlast h else host_part
                  | None \<Rightarrow> host_part)
      in we_parse_ip env bare \<noteq> None)"

fun is_v6 :: "ip \<Rightarrow> bool" where
  "is_v6 (V6 _) = True"
| "is_v6 (V4 _) = False"

definition ip_names :: "web_env \<Rightarrow> nat \<Rightarrow> ip \<Rightarrow> string list" where
  "ip_names env port x =
     (let t = (if is_v6 x then ''['' @ we_show_ip env x @ '']'' else we_show_ip env x)
      in [t, t @ '':'' @ show_nat port])"

definition default_hostnames :: "web_env \<Rightarrow> web_config \<Rightarrow> string list" where
  "default_hostnames env cfg =
     (let port = wc_listen_port cfg in
      ip_names env port (wc_listen_ip cfg)
      @ (if is_loopback (wc_listen_ip cfg) then []
         else ip_names env port (V4 0x7f000001) @ ip_names env port (V6 1))
      @ (case we_machine env of Some h \<Rightarrow> if h = [] then [] else [h, h @ '':'' @ show_nat port] | None \<Rightarrow> [])
      @ concat (map (\<lambda>san0. let san = trim san0 in
          if san = [] then []
          else case we_parse_ip env san of
                 Some x \<Rightarrow> ip_names env port x
               | None \<Rightarrow> [san, san @ '':'' @ show_nat port]) (wc_tls_extra_sans cfg)))"

definition request_host :: "request \<Rightarrow> string option" where
  "request_host r = (case header ''host'' r of Some h \<Rightarrow> Some h | None \<Rightarrow> rq_authority r)"

definition host_allowlist :: "web_env \<Rightarrow> web_config \<Rightarrow> request \<Rightarrow> gate" where
  "host_allowlist env cfg r =
     (if starts_with ''/api/node/'' (rq_path r) then Next
      else case request_host r of
        None \<Rightarrow> Reject 400 ''missing Host header''
      | Some host \<Rightarrow>
          if wc_hostnames cfg = [] then
            if host_is_ip_literal env host then Next
            else if list_ex (\<lambda>c. hostname_matches c host) (default_hostnames env cfg) then Next
            else Reject 400 ''unknown Host header''
          else if list_ex (\<lambda>c. hostname_matches c host) (wc_hostnames cfg) then Next
          else Reject 400 ''unknown Host header'')"

section \<open>The flood gate\<close>

definition safe_method :: "request \<Rightarrow> bool" where
  "safe_method r \<longleftrightarrow> rq_method r \<in> {''GET'', ''HEAD'', ''OPTIONS''}"

definition api_mutation_rate_limit ::
  "(real \<Rightarrow> real) \<Rightarrow> web_env \<Rightarrow> web_config \<Rightarrow> int \<Rightarrow> request \<Rightarrow> limiter \<Rightarrow> limiter \<times> gate" where
  "api_mutation_rate_limit rnd env cfg now r st =
     (if safe_method r \<or> \<not> starts_with ''/api/'' (rq_path r)
         \<or> rq_path r = ''/api/node/enroll'' \<or> rq_path r = ''/api/node/heartbeat'' then (st, Next)
      else
        let (st', ok) = rate_limit rnd (wc_rate_limit cfg) now st (''api-mut:'' @ client_ip env r (wc_trusted_proxies cfg))
        in (st', if ok then Next else Reject 429 ''too many requests; try again later''))"

section \<open>Same-origin mutations\<close>

definition origin_matches_host :: "web_env \<Rightarrow> string \<Rightarrow> string \<Rightarrow> bool" where
  "origin_matches_host env origin host =
     (case we_url env origin of
        None \<Rightarrow> False
      | Some u \<Rightarrow>
          if url_scheme u \<noteq> ''http'' \<and> url_scheme u \<noteq> ''https'' then False
          else (case url_host_str u of
                  None \<Rightarrow> False
                | Some origin_host \<Rightarrow>
                    (case we_authority env host of
                       None \<Rightarrow> False
                     | Some (ahost, aport) \<Rightarrow>
                         let default_port = (if url_scheme u = ''https'' then 443 else 80)
                         in eq_ignore_ascii_case origin_host ahost
                            \<and> url_port u = Some (case aport of Some p \<Rightarrow> p | None \<Rightarrow> default_port))))"

definition SESSION_COOKIE :: string where "SESSION_COOKIE = ''vp_session''"

definition has_session :: "request \<Rightarrow> bool" where
  "has_session r \<longleftrightarrow> (case header ''cookie'' r of
     Some cookies \<Rightarrow> list_ex (\<lambda>c. starts_with (SESSION_COOKIE @ ''='') (trim c)) (split_on CHR '';'' cookies)
   | None \<Rightarrow> False)"

definition request_source :: "request \<Rightarrow> string option" where
  "request_source r = (case header ''origin'' r of Some s \<Rightarrow> Some s | None \<Rightarrow> header ''referer'' r)"

definition same_origin_mutations :: "web_env \<Rightarrow> web_config \<Rightarrow> request \<Rightarrow> gate" where
  "same_origin_mutations env cfg r =
     (if safe_method r \<or> \<not> starts_with ''/api/'' (rq_path r) then Next
      else if (case header ''sec-fetch-site'' r of Some v \<Rightarrow> eq_ignore_ascii_case v ''cross-site'' | None \<Rightarrow> False)
      then Reject 403 ''cross-site mutation rejected''
      else if \<not> has_session r then Next
      else case request_host r of
        None \<Rightarrow> Reject 403 ''missing Host header''
      | Some host \<Rightarrow>
          (case request_source r of
             None \<Rightarrow> Reject 403 ''same-origin request required''
           | Some source \<Rightarrow>
               if request_is_tls cfg r
                  \<and> (case we_url env source of None \<Rightarrow> True | Some u \<Rightarrow> url_scheme u \<noteq> ''https'')
               then Reject 403 ''same-origin request required''
               else if source \<in> set (wc_allowed_origins cfg) \<or> origin_matches_host env source host then Next
               else Reject 403 ''same-origin request required''))"

text \<open>The layers in the order a request meets them.\<close>

definition gate_stack ::
  "(real \<Rightarrow> real) \<Rightarrow> web_env \<Rightarrow> web_config \<Rightarrow> int \<Rightarrow> request \<Rightarrow> limiter \<Rightarrow> limiter \<times> gate" where
  "gate_stack rnd env cfg now r st =
     (case host_allowlist env cfg r of
        Reject s m \<Rightarrow> (st, Reject s m)
      | Next \<Rightarrow>
          (case api_mutation_rate_limit rnd env cfg now r st of
             (st', Reject s m) \<Rightarrow> (st', Reject s m)
           | (st', Next) \<Rightarrow> (st', same_origin_mutations env cfg r)))"

section \<open>Extractors\<close>

record auth_env =
  ae_codec :: codec
  ae_key_hash :: "string \<Rightarrow> string"
  ae_session_hash :: "string \<Rightarrow> string"
  ae_clock :: instant
  ae_clock2 :: instant

datatype credential = Bearer string | Cookie string | Anonymous

text \<open>Which credential a request presents: a bearer token hides the cookie, valid or not.\<close>

definition credential :: "web_config \<Rightarrow> request \<Rightarrow> credential" where
  "credential cfg r =
     (case (if wc_enable_api_keys cfg then (case header ''authorization'' r of Some v \<Rightarrow> strip_prefix ''Bearer '' v | None \<Rightarrow> None)
            else None) of
        Some raw \<Rightarrow> Bearer raw
      | None \<Rightarrow>
          (case find (starts_with (SESSION_COOKIE @ ''='')) (map trim (split_on CHR '';'' (case header ''cookie'' r of Some c \<Rightarrow> c | None \<Rightarrow> []))) of
             Some c \<Rightarrow> (case split_once CHR ''='' c of Some (_, v) \<Rightarrow> Cookie v | None \<Rightarrow> Anonymous)
           | None \<Rightarrow> Anonymous))"

definition auth_user :: "auth_env \<Rightarrow> web_config \<Rightarrow> request \<Rightarrow> auth_db \<Rightarrow> auth_db \<times> (nat \<times> string, user) result" where
  "auth_user ae cfg r a =
     (case credential cfg r of
        Bearer raw \<Rightarrow>
          (case authenticate (ae_codec ae) (ae_key_hash ae) (ae_clock ae) (ad_db a) raw of
             Err _ \<Rightarrow> (a, Err (404, ''user not found''))
           | Ok (d, None) \<Rightarrow> (a\<lparr>ad_db := d\<rparr>, Err (401, ''invalid API key''))
           | Ok (d, Some (u, sc)) \<Rightarrow>
               (a\<lparr>ad_db := d\<rparr>, if \<not> u_active u then Err (403, ''account disabled'') else Ok (u\<lparr>u_key_scope := Some sc\<rparr>)))
      | Anonymous \<Rightarrow> (a, Err (401, ''not logged in''))
      | Cookie raw \<Rightarrow>
          (case user_from_session (ae_session_hash ae) (ae_clock ae) (ae_clock2 ae) a raw of
             (a', Err _) \<Rightarrow> (a', Err (401, ''invalid or expired session''))
           | (a', Ok u) \<Rightarrow> (a', if \<not> u_active u then Err (403, ''account disabled'') else Ok u)))"

definition admin_user :: "auth_env \<Rightarrow> web_config \<Rightarrow> request \<Rightarrow> auth_db \<Rightarrow> auth_db \<times> (nat \<times> string, user) result" where
  "admin_user ae cfg r a =
     (case auth_user ae cfg r a of
        (a', Err e) \<Rightarrow> (a', Err e)
      | (a', Ok u) \<Rightarrow>
          (a', if \<not> u_root_admin u then Err (403, ''admin only'')
               else (case u_key_scope u of
                       Some sc \<Rightarrow> if is_full_authority sc then Ok u else Err (403, ''scoped API keys cannot access admin endpoints'')
                     | None \<Rightarrow> Ok u)))"

section \<open>The client address\<close>

text \<open>
  What is used of the address printer and parser: a printed address parses back, and is a non-empty text
  of hexadecimal digits, dots and colons.
\<close>

definition ip_codec :: "web_env \<Rightarrow> bool" where
  "ip_codec env \<longleftrightarrow> (\<forall>x. we_parse_ip env (we_show_ip env x) = Some x \<and> we_show_ip env x \<noteq> [])"

lemma first_untrusted_skip:
  assumes "ip_codec env"
  shows "(\<forall>t\<in>set hops. \<exists>x. trim t = we_show_ip env x \<and> peer_is_trusted x proxies) \<Longrightarrow>
    first_untrusted env proxies (hops @ rest) = first_untrusted env proxies rest"
proof (induction hops)
  case (Cons t hops)
  then obtain x where x: "trim t = we_show_ip env x" "peer_is_trusted x proxies" by auto
  then have "we_parse_ip env (trim t) = Some x" "trim t \<noteq> []" using assms by (simp_all add: ip_codec_def)
  then show ?case using x Cons by (auto simp: peer_is_trusted_def)
qed simp

text \<open>
  C24: a client cannot choose the address it is limited and audited under. A peer that is not a trusted
  proxy is reported by its socket address and meets the same flood gate whatever headers it sends. Behind
  a chain of trusted proxies the address the first of them appended is reported, whatever forged hops the
  client put before it.
\<close>
theorem client_ip_unspoofable:
  assumes "ip_codec env"
  shows "(\<not> peer_is_trusted (rq_peer r) (wc_trusted_proxies cfg) \<longrightarrow>
      client_ip env r (wc_trusted_proxies cfg) = we_show_ip env (rq_peer r)
      \<and> api_mutation_rate_limit rnd env cfg now (r\<lparr>rq_headers := hs\<rparr>) st = api_mutation_rate_limit rnd env cfg now r st)
    \<and> (peer_is_trusted (rq_peer r) (wc_trusted_proxies cfg) \<longrightarrow>
       header ''x-forwarded-for'' r = Some v \<longrightarrow> split_on CHR '','' v = forged @ hop # chain \<longrightarrow>
       trim hop = we_show_ip env c \<longrightarrow> \<not> peer_is_trusted c (wc_trusted_proxies cfg) \<longrightarrow>
       (\<forall>t\<in>set chain. \<exists>x. trim t = we_show_ip env x \<and> peer_is_trusted x (wc_trusted_proxies cfg)) \<longrightarrow>
       client_ip env r (wc_trusted_proxies cfg) = we_show_ip env c)"
proof (intro conjI impI)
  let ?px = "wc_trusted_proxies cfg"
  assume n: "\<not> peer_is_trusted (rq_peer r) ?px"
  then show "client_ip env r ?px = we_show_ip env (rq_peer r)" by (simp add: client_ip_def)
  show "api_mutation_rate_limit rnd env cfg now (r\<lparr>rq_headers := hs\<rparr>) st = api_mutation_rate_limit rnd env cfg now r st"
    using n by (simp add: api_mutation_rate_limit_def client_ip_def safe_method_def)
next
  let ?px = "wc_trusted_proxies cfg"
  assume tr: "peer_is_trusted (rq_peer r) ?px" and h: "header ''x-forwarded-for'' r = Some v"
    and sp: "split_on CHR '','' v = forged @ hop # chain" and c: "trim hop = we_show_ip env c" "\<not> peer_is_trusted c ?px"
    and ch: "\<forall>t\<in>set chain. \<exists>x. trim t = we_show_ip env x \<and> peer_is_trusted x ?px"
  have "first_untrusted env ?px (rev chain @ hop # rev forged) = first_untrusted env ?px (hop # rev forged)"
    using first_untrusted_skip [OF assms] ch by simp
  also have "... = Some c" using assms c by (simp add: ip_codec_def peer_is_trusted_def)
  finally show "client_ip env r ?px = we_show_ip env c" using tr h sp by (simp add: client_ip_def)
qed

section \<open>Cross-site requests\<close>

lemma cookie_has_session:
  assumes "credential cfg r = Cookie raw"
  shows "has_session r"
proof -
  let ?cs = "case header ''cookie'' r of Some c \<Rightarrow> c | None \<Rightarrow> []"
  obtain c where "find (starts_with (SESSION_COOKIE @ ''='')) (map trim (split_on CHR '';'' ?cs)) = Some c"
    using assms by (auto simp: credential_def split: option.splits)
  then have c: "c \<in> set (map trim (split_on CHR '';'' ?cs))" "starts_with (SESSION_COOKIE @ ''='') c"
    by (auto dest: find_Some_set)
  show ?thesis
  proof (cases "header ''cookie'' r")
    case None
    have "trim [] = []" by (rule trim_id) simp_all
    then show ?thesis using c None by (simp add: starts_with_def)
  next
    case (Some v)
    then show ?thesis using c by (auto simp: has_session_def list_ex_iff)
  qed
qed

definition host_admitted :: "web_env \<Rightarrow> web_config \<Rightarrow> string \<Rightarrow> bool" where
  "host_admitted env cfg host \<longleftrightarrow>
     (if wc_hostnames cfg = [] then host_is_ip_literal env host \<or> (\<exists>c\<in>set (default_hostnames env cfg). hostname_matches c host)
      else \<exists>c\<in>set (wc_hostnames cfg). hostname_matches c host)"

lemma host_allowlist_Next:
  "host_allowlist env cfg r = Next \<longleftrightarrow> starts_with ''/api/node/'' (rq_path r)
     \<or> (\<exists>host. request_host r = Some host \<and> host_admitted env cfg host)"
  by (auto simp: host_allowlist_def host_admitted_def list_ex_iff split: option.splits)

lemma gate_stack_Next:
  assumes "snd (gate_stack rnd env cfg now r st) = Next"
  shows "host_allowlist env cfg r = Next" "snd (api_mutation_rate_limit rnd env cfg now r st) = Next"
    "same_origin_mutations env cfg r = Next"
  using assms by (auto simp: gate_stack_def split: gate.splits prod.splits)

text \<open>
  C5: no cross-site request rides on a session. A mutating API request that passes the layers and is
  authenticated by the session cookie names a source (its origin, or its referer) that is a configured
  origin or has the scheme, host and port of the request's own host; that host is on the allowlist (so
  the source cannot be a rebound foreign name); and over TLS the source is an https page.
\<close>
theorem cookie_mutation_same_origin:
  assumes "snd (gate_stack rnd env cfg now r st) = Next" "\<not> safe_method r" "starts_with ''/api/'' (rq_path r)"
    and "credential cfg r = Cookie raw"
  shows "\<exists>host source. request_host r = Some host \<and> request_source r = Some source
    \<and> (source \<in> set (wc_allowed_origins cfg) \<or> origin_matches_host env source host)
    \<and> (starts_with ''/api/node/'' (rq_path r) \<or> host_admitted env cfg host)
    \<and> (request_is_tls cfg r \<longrightarrow> (\<exists>u. we_url env source = Some u \<and> url_scheme u = ''https''))"
proof -
  note layers = gate_stack_Next [OF assms(1)]
  obtain host source where h: "request_host r = Some host" "request_source r = Some source"
    "source \<in> set (wc_allowed_origins cfg) \<or> origin_matches_host env source host"
    and tls: "request_is_tls cfg r \<longrightarrow> (\<exists>u. we_url env source = Some u \<and> url_scheme u = ''https'')"
    using layers(3) assms(2,3) cookie_has_session [OF assms(4)]
    by (auto simp: same_origin_mutations_def split: option.splits if_splits)
  show ?thesis using h tls layers(1) unfolding host_allowlist_Next by auto
qed

section \<open>Administrators\<close>

lemma auth_user_cases:
  assumes "auth_user ae cfg r a = (a', Ok u)"
  shows "u_active u \<and> (case credential cfg r of
       Bearer raw \<Rightarrow> \<exists>d u0 sc. authenticate (ae_codec ae) (ae_key_hash ae) (ae_clock ae) (ad_db a) raw = Ok (d, Some (u0, sc))
                      \<and> u = u0\<lparr>u_key_scope := Some sc\<rparr>
     | Cookie raw \<Rightarrow> snd (user_from_session (ae_session_hash ae) (ae_clock ae) (ae_clock2 ae) a raw) = Ok u \<and> u_key_scope u = None
     | Anonymous \<Rightarrow> False)"
proof (cases "credential cfg r")
  case (Cookie raw)
  obtain a1 res where us: "user_from_session (ae_session_hash ae) (ae_clock ae) (ae_clock2 ae) a raw = (a1, res)" by fastforce
  then have "res = Ok u" "u_active u" using assms Cookie by (auto simp: auth_user_def split: sum.splits if_splits)
  moreover have "u_key_scope u = None" if "res = Ok u"
    using us that by (auto simp: user_from_session_def dest: get_user_Ok split: option.splits if_splits sum.splits)
  ultimately show ?thesis using us Cookie by simp
qed (use assms in \<open>auto simp: auth_user_def split: sum.splits prod.splits option.splits if_splits\<close>)

text \<open>
  C4: administration needs an administrator's own authority. A request that passes the administrator
  extractor belongs to an active root administrator and is authenticated by a live session, or by a key
  whose scope is unrestricted; a key limited to some capabilities or servers never passes, whoever owns it.
\<close>
theorem admin_needs_full_authority:
  assumes "admin_user ae cfg r a = (a', Ok u)"
  shows "u_root_admin u \<and> u_active u \<and> (case credential cfg r of
       Bearer raw \<Rightarrow> \<exists>d u0 sc. authenticate (ae_codec ae) (ae_key_hash ae) (ae_clock ae) (ad_db a) raw = Ok (d, Some (u0, sc))
                      \<and> u = u0\<lparr>u_key_scope := Some sc\<rparr> \<and> ks_wildcard sc \<and> ks_server_ids sc = []
     | Cookie raw \<Rightarrow> snd (user_from_session (ae_session_hash ae) (ae_clock ae) (ae_clock2 ae) a raw) = Ok u
     | Anonymous \<Rightarrow> False)"
proof -
  obtain a1 res where au: "auth_user ae cfg r a = (a1, res)" by fastforce
  then have r: "res = Ok u" "u_root_admin u" and sc: "\<And>sc. u_key_scope u = Some sc \<Longrightarrow> is_full_authority sc"
    using assms by (auto simp: admin_user_def split: sum.splits option.splits if_splits)
  then show ?thesis using auth_user_cases [of ae cfg r a a1 u] au
    by (auto simp: is_full_authority_def split: credential.splits)
qed

section \<open>Worked instances\<close>

fun wshow_ip :: "ip \<Rightarrow> string" where
  "wshow_ip (V4 w) = CHR ''a'' # show_nat (unat w)"
| "wshow_ip (V6 w) = CHR ''b'' # show_nat (unat w)"

fun wparse_ip :: "string \<Rightarrow> ip option" where
  "wparse_ip [] = None"
| "wparse_ip (c # s) = (if c = CHR ''a'' then Some (V4 (of_nat (read_nat 0 s)))
     else if c = CHR ''b'' then Some (V6 (of_nat (read_nat 0 s))) else None)"

definition wurl :: url where
  "wurl = \<lparr>url_text = ''o'', url_scheme = ''https'', url_username = [], url_password = None, url_fragment = None,
     url_host = Some (Domain ''h''), url_host_str = Some ''h'', url_port = Some 443\<rparr>"

definition wenv :: web_env where
  "wenv = \<lparr>we_url = \<lambda>_. Some wurl, we_authority = \<lambda>h. Some (h, None), we_parse_ip = wparse_ip, we_show_ip = wshow_ip, we_machine = None\<rparr>"

definition wcfg :: web_config where
  "wcfg = \<lparr>wc_listen_ip = V4 0x7f000001, wc_listen_port = 8080, wc_tls_self_signed = True, wc_tls_extra_sans = [], wc_trusted_proxies = [],
     wc_allowed_origins = [], wc_hostnames = [''h''], wc_rate_limit = 10, wc_enable_api_keys = True\<rparr>"

definition wreq :: "ip \<Rightarrow> (string \<times> string) list \<Rightarrow> request" where
  "wreq peer hs = \<lparr>rq_method = ''POST'', rq_path = ''/api/x'', rq_headers = hs, rq_authority = None, rq_peer = peer\<rparr>"

lemma wenv_codec: "ip_codec wenv"
  unfolding ip_codec_def
proof
  fix x :: ip
  show "we_parse_ip wenv (we_show_ip wenv x) = Some x \<and> we_show_ip wenv x \<noteq> []"
    by (cases x) (simp_all add: wenv_def read_show_nat)
qed

theorem client_ip_unspoofable_witness:
  "client_ip wenv (wreq (V4 0x7f000001) [(''x-forwarded-for'', ''a1,a8'')]) (wc_trusted_proxies wcfg) = wshow_ip (V4 8)"
proof -
  let ?r = "wreq (V4 0x7f000001) [(''x-forwarded-for'', ''a1,a8'')]"
  have s8: "show_nat 8 = ''8''" by code_simp
  have t: "trim ''a8'' = ''a8''" by (rule trim_id) (simp_all add: ascii_ws_def ws2_def ws3_def)
  have "octet 0x7f000001 0 = 127" "octet 8 0 = 0" by (simp_all add: octet_def)
  then have p: "peer_is_trusted (rq_peer ?r) (wc_trusted_proxies wcfg)" "\<not> peer_is_trusted (V4 8) (wc_trusted_proxies wcfg)"
    by (simp_all add: peer_is_trusted_def wreq_def wcfg_def is_loopback4_def)
  have h: "header ''x-forwarded-for'' ?r = Some ''a1,a8''" by (simp add: header_def wreq_def visible_ascii_def)
  have sp: "split_on CHR '','' ''a1,a8'' = [''a1''] @ ''a8'' # []" by simp
  have tr: "trim ''a8'' = we_show_ip wenv (V4 8)" using t s8 by (simp add: wenv_def)
  have "client_ip wenv ?r (wc_trusted_proxies wcfg) = we_show_ip wenv (V4 8)"
    using client_ip_unspoofable [OF wenv_codec, of ?r wcfg "\<lambda>x. x" 0 "[]" "\<lparr>rl_window = 0, rl_rows = [], rl_buckets = []\<rparr>"
        "''a1,a8''" "[''a1'']" "''a8''" "[]" "V4 8"] p h sp tr by simp
  then show ?thesis by (simp add: wenv_def)
qed

theorem cookie_mutation_same_origin_witness:
  "\<exists>host source. request_host (wreq (V4 8) [(''host'', ''h''), (''cookie'', ''vp_session=t''), (''origin'', ''o'')]) = Some host
     \<and> (source \<in> set (wc_allowed_origins wcfg) \<or> origin_matches_host wenv source host)"
proof -
  let ?r = "wreq (V4 8) [(''host'', ''h''), (''cookie'', ''vp_session=t''), (''origin'', ''o'')]"
  let ?st = "\<lparr>rl_window = 0, rl_rows = [], rl_buckets = []\<rparr>"
  have h: "header ''host'' ?r = Some ''h''" "header ''cookie'' ?r = Some ''vp_session=t''" "header ''origin'' ?r = Some ''o''"
    "header ''sec-fetch-site'' ?r = None" "header ''authorization'' ?r = None"
    by (simp_all add: header_def wreq_def visible_ascii_def)
  have t: "trim ''vp_session=t'' = ''vp_session=t''" by (rule trim_id) (simp_all add: ascii_ws_def ws2_def ws3_def)
  have c: "credential wcfg ?r = Cookie ''t''"
    by (simp add: credential_def h t SESSION_COOKIE_def starts_with_def)
  have p: "rq_path ?r = ''/api/x''" "wc_hostnames wcfg = [''h'']" by (simp_all add: wreq_def wcfg_def)
  have a: "host_allowlist wenv wcfg ?r = Next"
    by (simp add: host_allowlist_def request_host_def h p hostname_matches_def split_host_port_def starts_with_def
        eq_ignore_ascii_case_def)
  have b: "snd (api_mutation_rate_limit (\<lambda>x. x) wenv wcfg 0 ?r ?st) = Next"
    by (simp add: api_mutation_rate_limit_def rate_limit_def refill_def BUCKET_TRACK_LIMIT_def wcfg_def Let_def)
  have o: "same_origin_mutations wenv wcfg ?r = Next"
    using cookie_has_session [OF c]
    by (simp add: same_origin_mutations_def h request_host_def request_source_def origin_matches_host_def wenv_def wurl_def
        eq_ignore_ascii_case_def)
  have g: "snd (gate_stack (\<lambda>x. x) wenv wcfg 0 ?r ?st) = Next" using a b o by (auto simp: gate_stack_def split: prod.splits gate.splits)
  have "\<not> safe_method ?r" "starts_with ''/api/'' (rq_path ?r)" by (simp_all add: safe_method_def wreq_def starts_with_def)
  from cookie_mutation_same_origin [OF g this c] show ?thesis by blast
qed

theorem admin_needs_full_authority_witness:
  "u_active (wuser1\<lparr>u_root_admin := True\<rparr>)
   \<and> snd (user_from_session id 500 501 (wauth [wsession 3]\<lparr>ad_db := empty_db\<lparr>users := [wuser1\<lparr>u_root_admin := True\<rparr>]\<rparr>\<rparr>) (show_int 3))
       = Ok (wuser1\<lparr>u_root_admin := True\<rparr>)"
proof -
  let ?u = "wuser1\<lparr>u_root_admin := True\<rparr>"
  let ?a = "wauth [wsession 3]\<lparr>ad_db := empty_db\<lparr>users := [?u]\<rparr>\<rparr>"
  let ?r = "wreq (V4 8) [(''cookie'', ''vp_session=3'')]"
  let ?ae = "\<lparr>ae_codec = wcodec, ae_key_hash = id, ae_session_hash = id, ae_clock = 500, ae_clock2 = 501\<rparr>"
  have t: "trim ''vp_session=3'' = ''vp_session=3''" by (rule trim_id) (simp_all add: ascii_ws_def ws2_def ws3_def)
  have s3: "show_int 3 = ''3''" by code_simp
  have h: "header ''cookie'' ?r = Some ''vp_session=3''" "header ''authorization'' ?r = None"
    by (simp_all add: header_def wreq_def visible_ascii_def)
  have c: "credential wcfg ?r = Cookie (show_int 3)"
    by (simp add: credential_def h t s3 SESSION_COOKIE_def starts_with_def)
  have u: "snd (user_from_session id 500 501 ?a (show_int 3)) = Ok ?u"
    by (simp add: user_from_session_def get_user_def session_witness)
  have "\<exists>a'. admin_user ?ae wcfg ?r ?a = (a', Ok ?u)"
    using u by (cases "user_from_session id 500 501 ?a (show_int 3)") (simp add: admin_user_def auth_user_def c wuser1_def)
  then obtain a' where "admin_user ?ae wcfg ?r ?a = (a', Ok ?u)" by blast
  from admin_needs_full_authority [OF this] show ?thesis using c by simp
qed

end
