(* ===== verification/Idempotency.thy ===== *)
theory Idempotency
  imports Requests
begin

text \<open>
  Replay-safe mutations (\<open>idempotency\<close> of \<open>src/src/api/mod.rs\<close>): the bounded cache of completed and
  in-flight requests, the resolution of a key under the lock, the owner's completion and the guard that
  releases its slot. A request's life is a sequence of critical sections; \<open>idem_step\<close> interleaves those of
  any number of requests. The handler's response is arbitrary.
\<close>

section \<open>The cache\<close>

definition IDEMPOTENCY_KEY :: string where "IDEMPOTENCY_KEY = ''idempotency-key''"
definition IDEMPOTENCY_TTL_SECS :: int where "IDEMPOTENCY_TTL_SECS = 600"
definition IDEMPOTENCY_MAX_ENTRIES :: nat where "IDEMPOTENCY_MAX_ENTRIES = 10000"
definition IDEMPOTENCY_BODY_CAP :: nat where "IDEMPOTENCY_BODY_CAP = 16 * 1024 * 1024"

record idem_entry =
  ie_status :: nat
  ie_body :: string
  ie_content_type :: string
  ie_headers :: "(string \<times> string) list"
  ie_request_hash :: string
  ie_created_at :: int

text \<open>The number of an in-flight slot is the identity of its \<open>Arc\<close>.\<close>

datatype idem_slot = Complete idem_entry | InFlight nat string

type_synonym idem_cache = "(string, idem_slot) hmap"

definition unexpired :: "int \<Rightarrow> idem_slot \<Rightarrow> bool" where
  "unexpired now s = (case s of Complete e \<Rightarrow> now - ie_created_at e < IDEMPOTENCY_TTL_SECS | InFlight _ _ \<Rightarrow> True)"

definition idem_insert_capped :: "idem_cache \<Rightarrow> string \<Rightarrow> idem_slot \<Rightarrow> int \<Rightarrow> idem_cache \<times> bool" where
  "idem_insert_capped cache key slot now =
     (if IDEMPOTENCY_MAX_ENTRIES \<le> length cache then
        let cache1 = hm_retain (\<lambda>_. unexpired now) cache
        in if IDEMPOTENCY_MAX_ENTRIES \<le> length cache1 then (cache1, False)
           else (hm_insert key slot cache1, True)
      else (hm_insert key slot cache, True))"

section \<open>Responses\<close>

text \<open>A response body is a stream: \<open>rs_broken\<close> says that reading it fails.\<close>

record response =
  rs_status :: nat
  rs_headers :: "(string \<times> string) list"
  rs_body :: string
  rs_broken :: bool

definition is_replayable_header :: "string \<Rightarrow> bool" where
  "is_replayable_header n \<longleftrightarrow> n = ''location'' \<or> n = ''content-location''"

definition content_type :: "response \<Rightarrow> string" where
  "content_type rs = (case map_of (rs_headers rs) ''content-type'' of
     Some v \<Rightarrow> if list_all visible_ascii v then v else [] | None \<Rightarrow> [])"

definition cached_idem_response :: "idem_entry \<Rightarrow> response" where
  "cached_idem_response e =
     \<lparr>rs_status = (if 100 \<le> ie_status e \<and> ie_status e \<le> 999 then ie_status e else 200),
      rs_headers = (''content-type'', ie_content_type e) # ie_headers e, rs_body = ie_body e, rs_broken = False\<rparr>"

definition is_success :: "nat \<Rightarrow> bool" where
  "is_success status \<longleftrightarrow> 200 \<le> status \<and> status < 300"

section \<open>One critical section at a time\<close>

datatype idem_decision = Own nat | Wait nat | Retry | Uncached

text \<open>The two 409 answers, without the key their texts quote.\<close>

datatype conflict = ConcurrentBody | ReusedBody

datatype idem_resolution = Decide idem_decision | Replay response | Conflict conflict

text \<open>The lookup under the lock; \<open>fresh\<close> is the identity a newly allocated slot gets.\<close>

definition idem_resolve :: "nat \<Rightarrow> string \<Rightarrow> string \<Rightarrow> int \<Rightarrow> idem_cache \<Rightarrow> idem_cache \<times> idem_resolution" where
  "idem_resolve fresh cache_key request_hash now cache =
     (case hm_get cache cache_key of
        None \<Rightarrow>
          (case idem_insert_capped cache cache_key (InFlight fresh request_hash) now of
             (cache1, True) \<Rightarrow> (cache1, Decide (Own fresh))
           | (cache1, False) \<Rightarrow> (cache1, Decide Uncached))
      | Some (InFlight slot h) \<Rightarrow>
          if h = request_hash then (cache, Decide (Wait slot))
          else (cache, Conflict ConcurrentBody)
      | Some (Complete e) \<Rightarrow>
          if now - ie_created_at e < IDEMPOTENCY_TTL_SECS then
            if ie_request_hash e = request_hash then (cache, Replay (cached_idem_response e))
            else (cache, Conflict ReusedBody)
          else (hm_remove cache_key cache, Decide Retry))"

definition idem_entry_of :: "string \<Rightarrow> int \<Rightarrow> response \<Rightarrow> idem_entry" where
  "idem_entry_of request_hash now rs =
     \<lparr>ie_status = rs_status rs, ie_body = rs_body rs, ie_content_type = content_type rs,
      ie_headers = filter (\<lambda>(n, v). is_replayable_header n) (rs_headers rs),
      ie_request_hash = request_hash, ie_created_at = now\<rparr>"

text \<open>What the owner does with the handler's response, before its guard is dropped.\<close>

definition idem_complete :: "nat \<Rightarrow> string \<Rightarrow> string \<Rightarrow> int \<Rightarrow> response \<Rightarrow> idem_cache
    \<Rightarrow> idem_cache \<times> (nat \<times> string, response) result" where
  "idem_complete body_cap cache_key request_hash now rs cache =
     (if \<not> is_success (rs_status rs) \<or> \<not> starts_with ''application/json'' (content_type rs) then (cache, Ok rs)
      else if rs_broken rs \<or> body_cap < length (rs_body rs) then
        (cache, Err (500, ''response body could not be buffered''))
      else
        (fst (idem_insert_capped cache cache_key (Complete (idem_entry_of request_hash now rs)) now), Ok rs))"

definition idem_drop :: "string \<Rightarrow> nat \<Rightarrow> idem_cache \<Rightarrow> idem_cache" where
  "idem_drop cache_key slot cache =
     (case hm_get cache cache_key of
        Some (InFlight n _) \<Rightarrow> if n = slot then hm_remove cache_key cache else cache
      | _ \<Rightarrow> cache)"

section \<open>Entering the middleware\<close>

definition idem_cache_key :: "int \<Rightarrow> string \<Rightarrow> string \<Rightarrow> string \<Rightarrow> string" where
  "idem_cache_key user_id meth path key = show_int user_id @ '':'' @ meth @ '':'' @ path @ '':'' @ key"

definition body_cap :: "nat \<Rightarrow> nat" where
  "body_cap max_body_mb = min (min (max_body_mb * 1048576) (2 ^ 64 - 1)) IDEMPOTENCY_BODY_CAP"

datatype idem_entrance = PassThrough | TooLarge | Enter string string

text \<open>
  Without a key or a user the request goes straight to its handler; otherwise it enters the loop under its
  cache key and the digest of its body.
\<close>

definition idem_enter ::
  "auth_env \<Rightarrow> web_config \<Rightarrow> (string \<Rightarrow> string) \<Rightarrow> nat \<Rightarrow> request \<Rightarrow> string \<Rightarrow> auth_db \<Rightarrow> auth_db \<times> idem_entrance" where
  "idem_enter ae cfg sha256_hex max_body_mb r body a =
     (case header IDEMPOTENCY_KEY r of
        None \<Rightarrow> (a, PassThrough)
      | Some v \<Rightarrow>
          if trim v = [] then (a, PassThrough)
          else case auth_user ae cfg r a of
            (a', Err _) \<Rightarrow> (a', PassThrough)
          | (a', Ok u) \<Rightarrow>
              (a', if body_cap max_body_mb < length body then TooLarge
                   else Enter (idem_cache_key (u_id u) (rq_method r) (rq_path r) (trim v)) (sha256_hex body)))"

section \<open>Interleaved requests\<close>

datatype phase = Resolving | Waiting nat | Owning nat | Leaving nat | Running | Done

record idem_req =
  iq_key :: string
  iq_hash :: string
  iq_now :: int
  iq_phase :: phase

text \<open>\<open>is_runs\<close> logs the key of every handler execution.\<close>

record idem_sys =
  is_cache :: idem_cache
  is_fresh :: nat
  is_reqs :: "nat \<Rightarrow> idem_req option"
  is_runs :: "string list"

definition set_phase :: "nat \<Rightarrow> idem_req \<Rightarrow> phase \<Rightarrow> idem_sys \<Rightarrow> idem_sys" where
  "set_phase i q p s = s\<lparr>is_reqs := (is_reqs s)(i \<mapsto> q\<lparr>iq_phase := p\<rparr>)\<rparr>"

definition after_resolve :: "idem_resolution \<Rightarrow> phase" where
  "after_resolve res = (case res of
     Decide (Own n) \<Rightarrow> Owning n | Decide (Wait n) \<Rightarrow> Waiting n | Decide Retry \<Rightarrow> Resolving | Decide Uncached \<Rightarrow> Running
   | Replay _ \<Rightarrow> Done | Conflict _ \<Rightarrow> Done)"

definition runs_handler :: "idem_resolution \<Rightarrow> bool" where
  "runs_handler res = (case res of Decide (Own _) \<Rightarrow> True | Decide Uncached \<Rightarrow> True | _ \<Rightarrow> False)"

definition resolve_req :: "nat \<Rightarrow> idem_req \<Rightarrow> idem_sys \<Rightarrow> idem_sys" where
  "resolve_req i q s =
     (case idem_resolve (is_fresh s) (iq_key q) (iq_hash q) (iq_now q) (is_cache s) of
        (c, res) \<Rightarrow> set_phase i q (after_resolve res)
          (s\<lparr>is_cache := c, is_fresh := is_fresh s + 1,
             is_runs := (if runs_handler res then iq_key q # is_runs s else is_runs s)\<rparr>))"

inductive idem_step :: "nat \<Rightarrow> int set \<Rightarrow> idem_sys \<Rightarrow> idem_sys \<Rightarrow> bool" for cap :: nat and arrivals :: "int set" where
  arrive: "is_reqs s i = None \<Longrightarrow> now \<in> arrivals \<Longrightarrow>
    idem_step cap arrivals s (s\<lparr>is_reqs := (is_reqs s)(i \<mapsto> \<lparr>iq_key = k, iq_hash = h, iq_now = now, iq_phase = Resolving\<rparr>)\<rparr>)"
| resolve: "is_reqs s i = Some q \<Longrightarrow> iq_phase q = Resolving \<Longrightarrow> idem_step cap arrivals s (resolve_req i q s)"
| wake: "is_reqs s i = Some q \<Longrightarrow> iq_phase q = Waiting n \<Longrightarrow> idem_step cap arrivals s (set_phase i q Resolving s)"
| respond: "is_reqs s i = Some q \<Longrightarrow> iq_phase q = Owning n \<Longrightarrow>
    idem_step cap arrivals s (set_phase i q (Leaving n)
      (s\<lparr>is_cache := fst (idem_complete cap (iq_key q) (iq_hash q) (iq_now q) rs (is_cache s))\<rparr>))"
| abort: "is_reqs s i = Some q \<Longrightarrow> iq_phase q = Owning n \<Longrightarrow> idem_step cap arrivals s (set_phase i q (Leaving n) s)"
| leave: "is_reqs s i = Some q \<Longrightarrow> iq_phase q = Leaving n \<Longrightarrow>
    idem_step cap arrivals s (set_phase i q Done (s\<lparr>is_cache := idem_drop (iq_key q) n (is_cache s)\<rparr>))"
| cancel: "is_reqs s i = Some q \<Longrightarrow> (\<forall>n. iq_phase q \<noteq> Owning n \<and> iq_phase q \<noteq> Leaving n) \<Longrightarrow>
    idem_step cap arrivals s (set_phase i q Done s)"

definition idem_initial :: "idem_sys \<Rightarrow> bool" where
  "idem_initial s \<longleftrightarrow> is_cache s = [] \<and> is_reqs s = Map.empty"


inductive_cases idem_stepE: "idem_step cap arrivals s t"

section \<open>Single flight\<close>

definition holds_slot :: "nat \<Rightarrow> idem_req \<Rightarrow> bool" where
  "holds_slot n q \<longleftrightarrow> iq_phase q = Owning n \<or> iq_phase q = Leaving n"

text \<open>
  Every in-flight slot of the cache belongs to a request that has not left yet, every owner's slot is in the
  cache under its key, slot identities are used once, and the cache is within its cap.
\<close>

definition slots_owned :: "idem_sys \<Rightarrow> bool" where
  "slots_owned s \<longleftrightarrow> (\<forall>k n h. hm_get (is_cache s) k = Some (InFlight n h) \<longrightarrow>
     (\<exists>i q. is_reqs s i = Some q \<and> iq_key q = k \<and> holds_slot n q))"

definition owners_cached :: "idem_sys \<Rightarrow> bool" where
  "owners_cached s \<longleftrightarrow> (\<forall>i q n. is_reqs s i = Some q \<longrightarrow> iq_phase q = Owning n \<longrightarrow>
     hm_get (is_cache s) (iq_key q) = Some (InFlight n (iq_hash q)))"

definition slots_fresh :: "idem_sys \<Rightarrow> bool" where
  "slots_fresh s \<longleftrightarrow> (\<forall>i q n. is_reqs s i = Some q \<longrightarrow> holds_slot n q \<longrightarrow> n < is_fresh s)
     \<and> (\<forall>i j q r n. is_reqs s i = Some q \<longrightarrow> is_reqs s j = Some r \<longrightarrow> holds_slot n q \<longrightarrow> holds_slot n r \<longrightarrow> i = j)"

definition cache_ok :: "idem_cache \<Rightarrow> bool" where
  "cache_ok c \<longleftrightarrow> hm_wf c \<and> length c \<le> IDEMPOTENCY_MAX_ENTRIES"

definition idem_wf :: "int set \<Rightarrow> idem_sys \<Rightarrow> bool" where
  "idem_wf arrivals s \<longleftrightarrow> cache_ok (is_cache s) \<and> slots_owned s \<and> owners_cached s \<and> slots_fresh s
     \<and> (\<forall>i q. is_reqs s i = Some q \<longrightarrow> iq_now q \<in> arrivals)"

lemma cache_ok_retain: "cache_ok c \<Longrightarrow> cache_ok (hm_retain P c)"
  unfolding cache_ok_def hm_retain_def using hm_wf_filter length_filter_le le_trans by metis

lemma cache_ok_remove: "cache_ok c \<Longrightarrow> cache_ok (hm_remove k c)"
  unfolding cache_ok_def hm_remove_def using hm_wf_filter length_filter_le le_trans by metis

lemma insert_capped_ok: "cache_ok c \<Longrightarrow> cache_ok (fst (idem_insert_capped c k v now))"
  using length_hm_insert [of k v c] length_hm_insert [of k v "hm_retain (\<lambda>_. unexpired now) c"]
    cache_ok_retain [of c "\<lambda>_. unexpired now"]
  by (auto simp: idem_insert_capped_def Let_def cache_ok_def split: if_splits)

text \<open>What a critical section for one key may do to the others: drop an expired answer, nothing else.\<close>

definition framed :: "string \<Rightarrow> int \<Rightarrow> idem_cache \<Rightarrow> idem_cache \<Rightarrow> bool" where
  "framed k now c c' \<longleftrightarrow> (\<forall>k'. k' \<noteq> k \<longrightarrow> hm_get c' k' = hm_get c k'
     \<or> (\<exists>e. hm_get c k' = Some (Complete e) \<and> \<not> unexpired now (Complete e) \<and> hm_get c' k' = None))"

lemma framed_refl [simp]: "framed k now c c"
  by (simp add: framed_def)

lemma framed_remove [simp]: "framed k now c (hm_remove k c)"
  by (simp add: framed_def)

lemma retained: "hm_wf c \<Longrightarrow> hm_get (hm_retain (\<lambda>_. unexpired now) c) k' = hm_get c k'
    \<or> (\<exists>e. hm_get c k' = Some (Complete e) \<and> \<not> unexpired now (Complete e)
         \<and> hm_get (hm_retain (\<lambda>_. unexpired now) c) k' = None)"
  by (auto simp: hm_get_retain unexpired_def split: option.splits idem_slot.splits)

lemma insert_capped_framed: "hm_wf c \<Longrightarrow> framed k now c (fst (idem_insert_capped c k v now))"
  using retained [of c now] by (auto simp: framed_def idem_insert_capped_def Let_def)

lemma insert_capped_get:
  assumes "hm_wf c" "idem_insert_capped c k v now = (c', ok)"
  shows "ok \<Longrightarrow> hm_get c' k = Some v" "\<not> ok \<Longrightarrow> \<forall>e. hm_get c k \<noteq> Some (Complete e) \<Longrightarrow> hm_get c' k = hm_get c k"
  using assms retained [of c now k] by (auto simp: idem_insert_capped_def Let_def split: if_splits)

lemma resolve_cases:
  assumes "cache_ok c" "idem_resolve f k h now c = (c', res)"
  shows "cache_ok c'" "framed k now c c'"
    and "(hm_get c k = None \<and> res = Decide (Own f) \<and> hm_get c' k = Some (InFlight f h))
      \<or> (hm_get c k = None \<and> res = Decide Uncached \<and> hm_get c' k = None)
      \<or> (hm_get c' k = hm_get c k \<and> hm_get c k \<noteq> None \<and> \<not> runs_handler res \<and> res \<noteq> Decide Retry)
      \<or> (\<exists>e. hm_get c k = Some (Complete e) \<and> \<not> unexpired now (Complete e) \<and> c' = hm_remove k c \<and> res = Decide Retry)"
proof -
  have wf: "hm_wf c" using assms(1) by (simp add: cache_ok_def)
  consider (new) c1 ok where "hm_get c k = None" "idem_insert_capped c k (InFlight f h) now = (c1, ok)" "c' = c1"
      "res = Decide (if ok then Own f else Uncached)"
    | (kept) "hm_get c k \<noteq> None" "c' = c" "\<not> runs_handler res" "res \<noteq> Decide Retry"
    | (old) e where "hm_get c k = Some (Complete e)" "\<not> unexpired now (Complete e)" "c' = hm_remove k c" "res = Decide Retry"
    using assms(2) by (cases "idem_insert_capped c k (InFlight f h) now")
      (auto simp: idem_resolve_def unexpired_def runs_handler_def split: option.split_asm idem_slot.split_asm if_split_asm bool.split_asm)
  note c = this
  from c show "cache_ok c'"
  proof cases
    case new then show ?thesis using insert_capped_ok [OF assms(1), of k "InFlight f h" now] by simp
  qed (use assms(1) cache_ok_remove in auto)
  from c show "framed k now c c'"
  proof cases
    case new then show ?thesis using insert_capped_framed [OF wf, of k now "InFlight f h"] by simp
  qed auto
  from c show "(hm_get c k = None \<and> res = Decide (Own f) \<and> hm_get c' k = Some (InFlight f h))
      \<or> (hm_get c k = None \<and> res = Decide Uncached \<and> hm_get c' k = None)
      \<or> (hm_get c' k = hm_get c k \<and> hm_get c k \<noteq> None \<and> \<not> runs_handler res \<and> res \<noteq> Decide Retry)
      \<or> (\<exists>e. hm_get c k = Some (Complete e) \<and> \<not> unexpired now (Complete e) \<and> c' = hm_remove k c \<and> res = Decide Retry)"
  proof cases
    case new then show ?thesis using insert_capped_get [OF wf new(2)] by (cases ok) auto
  qed auto
qed

lemma complete_cases:
  assumes "cache_ok c" "idem_complete cap k h now rs c = (c', out)" "hm_get c k = Some (InFlight n h)"
  shows "cache_ok c'" "framed k now c c'"
    and "hm_get c' k = hm_get c k \<or> (\<exists>e. hm_get c' k = Some (Complete e) \<and> ie_created_at e = now \<and> ie_request_hash e = h)"
proof -
  have wf: "hm_wf c" using assms(1) by (simp add: cache_ok_def)
  consider (same) "c' = c"
    | (ins) e ok where "idem_insert_capped c k (Complete e) now = (c', ok)" "ie_created_at e = now" "ie_request_hash e = h"
    using assms(2) by (cases "idem_insert_capped c k (Complete (idem_entry_of h now rs)) now")
      (auto simp: idem_complete_def idem_entry_of_def split: if_split_asm)
  note c = this
  from c show "cache_ok c'"
  proof cases
    case ins then show ?thesis using insert_capped_ok [OF assms(1), of k "Complete e" now] by simp
  qed (use assms(1) in simp)
  from c show "framed k now c c'"
  proof cases
    case ins then show ?thesis using insert_capped_framed [OF wf, of k now "Complete e"] by simp
  qed simp
  from c show "hm_get c' k = hm_get c k \<or> (\<exists>e. hm_get c' k = Some (Complete e) \<and> ie_created_at e = now \<and> ie_request_hash e = h)"
  proof cases
    case ins then show ?thesis using insert_capped_get [OF wf ins(1)] assms(3) by (cases ok) auto
  qed simp
qed

text \<open>
  The shape of every step but an arrival: one request moves to another phase and its critical section
  touches the slot of its own key.
\<close>

lemma idem_wf_update:
  assumes wf: "idem_wf arrivals s" and q: "is_reqs s i = Some q"
    and t: "t = set_phase i q p (s\<lparr>is_cache := c, is_fresh := f, is_runs := rs\<rparr>)"
    and c: "cache_ok c" "framed (iq_key q) now (is_cache s) c" and f: "is_fresh s \<le> f"
    and held: "\<And>n. p = Owning n \<or> p = Leaving n \<Longrightarrow> holds_slot n q \<or> is_fresh s = n \<and> n < f"
    and own: "\<And>n. p = Owning n \<Longrightarrow> hm_get c (iq_key q) = Some (InFlight n (iq_hash q))"
    and slot: "\<And>n h. hm_get c (iq_key q) = Some (InFlight n h) \<Longrightarrow>
      p = Owning n \<or> p = Leaving n \<or> hm_get (is_cache s) (iq_key q) = Some (InFlight n h) \<and> \<not> holds_slot n q"
    and others: "hm_get c (iq_key q) = hm_get (is_cache s) (iq_key q)
      \<or> (\<forall>n h. hm_get (is_cache s) (iq_key q) = Some (InFlight n h) \<longrightarrow> holds_slot n q)"
  shows "idem_wf arrivals t"
proof -
  let ?q = "q\<lparr>iq_phase := p\<rparr>"
  have R: "is_reqs t j = (if j = i then Some ?q else is_reqs s j)" for j by (simp add: t set_phase_def)
  have C: "is_cache t = c" "is_fresh t = f" by (simp_all add: t set_phase_def)
  have inflight: "hm_get c k = Some (InFlight n h) \<longleftrightarrow> hm_get (is_cache s) k = Some (InFlight n h)" if "k \<noteq> iq_key q" for k n h
    using c(2) that unfolding framed_def by force
  have fr: "is_reqs s j = Some r \<Longrightarrow> holds_slot n r \<Longrightarrow> n < is_fresh s" for j r n
    using wf by (auto simp: idem_wf_def slots_fresh_def)
  have un: "is_reqs s j = Some r \<Longrightarrow> is_reqs s j' = Some r' \<Longrightarrow> holds_slot n r \<Longrightarrow> holds_slot n r' \<Longrightarrow> j = j'" for j r j' r' n
    using wf unfolding idem_wf_def slots_fresh_def by metis
  have oc: "is_reqs s j = Some r \<Longrightarrow> iq_phase r = Owning n \<Longrightarrow> hm_get (is_cache s) (iq_key r) = Some (InFlight n (iq_hash r))" for j r n
    using wf unfolding idem_wf_def owners_cached_def by metis
  have hq: "holds_slot n ?q \<longleftrightarrow> p = Owning n \<or> p = Leaving n" for n by (auto simp: holds_slot_def)
  have "slots_owned t"
    unfolding slots_owned_def
  proof (intro allI impI)
    fix k n h assume g: "hm_get (is_cache t) k = Some (InFlight n h)"
    show "\<exists>j r. is_reqs t j = Some r \<and> iq_key r = k \<and> holds_slot n r"
    proof (cases "k = iq_key q \<and> holds_slot n ?q")
      case True
      then have "is_reqs t i = Some ?q \<and> iq_key ?q = k \<and> holds_slot n ?q" by (simp add: R)
      then show ?thesis by blast
    next
      case False
      then have g': "hm_get (is_cache s) k = Some (InFlight n h)" "k = iq_key q \<Longrightarrow> \<not> holds_slot n q"
        using g slot [of n h] inflight [of k n h] by (cases "k = iq_key q", auto simp: C hq)
      then obtain j r where jr: "is_reqs s j = Some r" "iq_key r = k" "holds_slot n r"
        using wf unfolding idem_wf_def slots_owned_def by metis
      then have "j \<noteq> i" using g'(2) q by auto
      then show ?thesis using jr R by auto
    qed
  qed
  moreover have "owners_cached t"
    unfolding owners_cached_def
  proof (intro allI impI)
    fix j r n assume jr: "is_reqs t j = Some r" "iq_phase r = Owning n"
    show "hm_get (is_cache t) (iq_key r) = Some (InFlight n (iq_hash r))"
    proof (cases "j = i")
      case True then show ?thesis using jr R own by (auto simp: C)
    next
      case False
      then have old: "is_reqs s j = Some r" "hm_get (is_cache s) (iq_key r) = Some (InFlight n (iq_hash r))"
        using jr R oc by auto
      have "holds_slot n r" using jr by (simp add: holds_slot_def)
      then have "\<not> holds_slot n q" using un [OF old(1) q] False by blast
      then show ?thesis using old others inflight by (cases "iq_key r = iq_key q") (auto simp: C)
    qed
  qed
  moreover have "slots_fresh t"
    unfolding slots_fresh_def
  proof (intro conjI allI impI)
    fix j r n assume "is_reqs t j = Some r" "holds_slot n r"
    then show "n < is_fresh t" using R held hq fr q f by (cases "j = i") (fastforce simp: C)+
  next
    fix j j' r r' n assume a: "is_reqs t j = Some r" "is_reqs t j' = Some r'" "holds_slot n r" "holds_slot n r'"
    have no: "\<not> holds_slot n ?q" if x: "is_reqs s j = Some r" "j \<noteq> i" "holds_slot n r" for j r
      using held un [OF x(1) q x(3)] fr [OF x(1,3)] x(2) by (auto simp: hq)
    show "j = j'"
    proof (cases "j = i \<or> j' = i")
      case True then show ?thesis using a R no [of j r] no [of j' r'] by (auto split: if_splits)
    next
      case False then show ?thesis using a R un [of j r j' r' n] by simp
    qed
  qed
  ultimately show ?thesis using wf c(1) R q unfolding idem_wf_def C by auto
qed

lemma idem_wf_phase:
  assumes "idem_wf arrivals s" "is_reqs s i = Some q" "\<And>n. p \<noteq> Owning n" "\<And>n. p = Leaving n \<longleftrightarrow> holds_slot n q"
  shows "idem_wf arrivals (set_phase i q p s)"
  by (rule idem_wf_update [OF assms(1,2), where p = p and c = "is_cache s" and f = "is_fresh s" and rs = "is_runs s" and now = 0])
    (use assms in \<open>auto simp: idem_wf_def set_phase_def\<close>)

lemma idem_step_wf:
  assumes "idem_wf arrivals s" "idem_step cap arrivals s t"
  shows "idem_wf arrivals t"
  using assms(2)
proof cases
  case (arrive i now k h)
  let ?q = "\<lparr>iq_key = k, iq_hash = h, iq_now = now, iq_phase = Resolving\<rparr>"
  have R: "is_reqs t j = Some r \<longleftrightarrow> j = i \<and> r = ?q \<or> is_reqs s j = Some r" "is_cache t = is_cache s" "is_fresh t = is_fresh s" for j r
    using arrive by auto
  have no: "\<not> holds_slot n ?q" for n by (simp add: holds_slot_def)
  have "slots_owned t" using assms(1) unfolding idem_wf_def slots_owned_def R by blast
  moreover have "owners_cached t" using assms(1) unfolding idem_wf_def owners_cached_def R by (metis idem_req.select_convs(4) phase.distinct(3))
  moreover have "slots_fresh t" using assms(1) no unfolding idem_wf_def slots_fresh_def R by blast
  ultimately show ?thesis using assms(1) arrive(3) unfolding idem_wf_def R by auto
next
  case (resolve i q)
  obtain c res where r: "idem_resolve (is_fresh s) (iq_key q) (iq_hash q) (iq_now q) (is_cache s) = (c, res)" by fastforce
  have ok: "cache_ok (is_cache s)" using assms(1) by (simp add: idem_wf_def)
  have nh: "\<not> holds_slot n q" for n using resolve by (simp add: holds_slot_def)
  show ?thesis unfolding resolve(1) resolve_req_def r prod.case
    by (rule idem_wf_update [OF assms(1) resolve(2) refl resolve_cases(1,2) [OF ok r]])
      (use resolve_cases(3) [OF ok r] nh in \<open>auto simp: after_resolve_def runs_handler_def holds_slot_def
        split: idem_resolution.splits idem_decision.splits\<close>)
next
  case (wake i q n)
  then show ?thesis using idem_wf_phase [OF assms(1)] by (simp add: holds_slot_def)
next
  case (respond i q n rs)
  let ?c = "idem_complete cap (iq_key q) (iq_hash q) (iq_now q) rs (is_cache s)"
  have ok: "cache_ok (is_cache s)" using assms(1) by (simp add: idem_wf_def)
  have g: "hm_get (is_cache s) (iq_key q) = Some (InFlight n (iq_hash q))"
    using assms(1) respond unfolding idem_wf_def owners_cached_def by metis
  note cc = complete_cases [OF ok prod.collapse [symmetric, of ?c] g]
  have "t = set_phase i q (Leaving n) (s\<lparr>is_cache := fst ?c, is_fresh := is_fresh s, is_runs := is_runs s\<rparr>)"
    using respond by simp
  then show ?thesis
    by (rule idem_wf_update [OF assms(1) respond(2) _ cc(1,2)]) (use cc(3) g respond in \<open>auto simp: holds_slot_def\<close>)
next
  case (abort i q n)
  then show ?thesis using idem_wf_phase [OF assms(1)] by (auto simp: holds_slot_def)
next
  case (leave i q n)
  let ?c = "idem_drop (iq_key q) n (is_cache s)"
  have ok: "cache_ok (is_cache s)" using assms(1) by (simp add: idem_wf_def)
  have c: "cache_ok ?c" "framed (iq_key q) 0 (is_cache s) ?c"
    using ok cache_ok_remove by (auto simp: idem_drop_def split: option.splits idem_slot.splits)
  have "t = set_phase i q Done (s\<lparr>is_cache := ?c, is_fresh := is_fresh s, is_runs := is_runs s\<rparr>)" using leave by simp
  then show ?thesis
    by (rule idem_wf_update [OF assms(1) leave(2) _ c])
      (use leave in \<open>auto simp: holds_slot_def idem_drop_def split: option.splits idem_slot.splits if_splits\<close>)
next
  case (cancel i q)
  then show ?thesis using idem_wf_phase [OF assms(1)] by (auto simp: holds_slot_def)
qed

interpretation idem: invariant_system idem_initial "idem_step cap arrivals" "idem_wf arrivals" for cap arrivals
proof
  show "idem_initial s \<Longrightarrow> idem_wf arrivals s" for s
    by (simp add: idem_initial_def idem_wf_def cache_ok_def slots_owned_def owners_cached_def slots_fresh_def)
qed (rule idem_step_wf)

text \<open>
  C18: over any interleaving of requests, at most one request per key is executing under the cache, every
  in-flight slot belongs to a request that will still release it, and the cache never exceeds its cap.
\<close>
theorem single_flight:
  assumes "idem_initial s0" "(idem_step cap UNIV)\<^sup>*\<^sup>* s0 s"
  shows "(\<forall>i j q r m n. is_reqs s i = Some q \<longrightarrow> is_reqs s j = Some r \<longrightarrow> iq_phase q = Owning m \<longrightarrow> iq_phase r = Owning n \<longrightarrow>
      iq_key q = iq_key r \<longrightarrow> i = j)
    \<and> (\<forall>k n h. hm_get (is_cache s) k = Some (InFlight n h) \<longrightarrow>
        (\<exists>i q. is_reqs s i = Some q \<and> iq_key q = k \<and> (iq_phase q = Owning n \<or> iq_phase q = Leaving n)))
    \<and> length (is_cache s) \<le> IDEMPOTENCY_MAX_ENTRIES"
proof -
  have wf: "idem_wf UNIV s" by (rule idem.reachable_inv [OF assms])
  have "i = j" if a: "is_reqs s i = Some q" "is_reqs s j = Some r" "iq_phase q = Owning m" "iq_phase r = Owning n" "iq_key q = iq_key r"
    for i j q r m n
  proof -
    have "m = n" using wf a unfolding idem_wf_def owners_cached_def by (metis idem_slot.inject(2) option.inject)
    then have "holds_slot n q" "holds_slot n r" using a by (simp_all add: holds_slot_def)
    then show ?thesis using wf a(1,2) unfolding idem_wf_def slots_fresh_def by metis
  qed
  then show ?thesis using wf unfolding idem_wf_def slots_owned_def cache_ok_def holds_slot_def by blast
qed

section \<open>Completed requests are replayed\<close>

definition completed :: "string \<Rightarrow> idem_entry \<Rightarrow> nat \<Rightarrow> idem_sys \<Rightarrow> bool" where
  "completed k e n s \<longleftrightarrow> idem_wf {..<ie_created_at e + IDEMPOTENCY_TTL_SECS} s
     \<and> hm_get (is_cache s) k = Some (Complete e) \<and> count_list (is_runs s) k = n"

lemma framed_unexpired:
  "framed k' now c c' \<Longrightarrow> k \<noteq> k' \<Longrightarrow> hm_get c k = Some (Complete e) \<Longrightarrow> now < ie_created_at e + IDEMPOTENCY_TTL_SECS \<Longrightarrow>
    hm_get c' k = Some (Complete e)"
  unfolding framed_def unexpired_def by fastforce

lemma completed_step:
  assumes s: "completed k e n s" and st: "idem_step cap {..<ie_created_at e + IDEMPOTENCY_TTL_SECS} s t"
  shows "completed k e n t"
proof -
  have wf: "idem_wf {..<ie_created_at e + IDEMPOTENCY_TTL_SECS} s" and g: "hm_get (is_cache s) k = Some (Complete e)"
    and cnt: "count_list (is_runs s) k = n" using s by (simp_all add: completed_def)
  have early: "is_reqs s i = Some q \<Longrightarrow> iq_now q < ie_created_at e + IDEMPOTENCY_TTL_SECS" for i q
    using wf by (auto simp: idem_wf_def)
  have ok: "cache_ok (is_cache s)" using wf by (simp add: idem_wf_def)
  from st have "hm_get (is_cache t) k = Some (Complete e) \<and> count_list (is_runs t) k = n"
  proof cases
    case (resolve i q)
    obtain c res where r: "idem_resolve (is_fresh s) (iq_key q) (iq_hash q) (iq_now q) (is_cache s) = (c, res)" by fastforce
    have t: "is_cache t = c" "is_runs t = (if runs_handler res then iq_key q # is_runs s else is_runs s)"
      using resolve r by (simp_all add: resolve_req_def set_phase_def)
    note rc = resolve_cases [OF ok r]
    show ?thesis
    proof (cases "iq_key q = k")
      case True
      then show ?thesis using rc(3) g early [OF resolve(2)] cnt by (auto simp: t unexpired_def)
    next
      case False
      then show ?thesis using framed_unexpired [OF rc(2) _ g early [OF resolve(2)]] cnt by (simp add: t)
    qed
  next
    case (respond i q m rs)
    let ?c = "idem_complete cap (iq_key q) (iq_hash q) (iq_now q) rs (is_cache s)"
    have o: "hm_get (is_cache s) (iq_key q) = Some (InFlight m (iq_hash q))"
      using wf respond unfolding idem_wf_def owners_cached_def by metis
    then have "k \<noteq> iq_key q" using g by auto
    then show ?thesis
      using framed_unexpired [OF complete_cases(2) [OF ok prod.collapse [symmetric, of ?c] o] _ g early [OF respond(2)]] respond cnt
      by (simp add: set_phase_def)
  next
    case (leave i q m)
    then show ?thesis using g cnt by (auto simp: set_phase_def idem_drop_def split: option.splits idem_slot.splits)
  qed (use g cnt in \<open>simp_all add: set_phase_def\<close>)
  then show ?thesis using idem_step_wf [OF wf st] by (simp add: completed_def)
qed

interpretation completed: invariant_system "completed k e n" "idem_step cap {..<ie_created_at e + IDEMPOTENCY_TTL_SECS}" "completed k e n"
  for k e n cap
  by unfold_locales (auto intro: completed_step)

text \<open>
  C19: once a response is cached, no interleaving of requests that arrived before its expiry executes the
  handler for that key again: the answer stays cached, a request with the same body gets it and one with
  another body is refused.
\<close>
theorem completed_is_replayed:
  assumes "idem_initial s0" "(idem_step cap {..<ie_created_at e + IDEMPOTENCY_TTL_SECS})\<^sup>*\<^sup>* s0 s"
    and "hm_get (is_cache s) k = Some (Complete e)"
    and "(idem_step cap {..<ie_created_at e + IDEMPOTENCY_TTL_SECS})\<^sup>*\<^sup>* s t"
    and "now < ie_created_at e + IDEMPOTENCY_TTL_SECS"
  shows "count_list (is_runs t) k = count_list (is_runs s) k
    \<and> idem_resolve f k h now (is_cache t)
        = (is_cache t, if h = ie_request_hash e then Replay (cached_idem_response e) else Conflict ReusedBody)"
proof -
  have "completed k e (count_list (is_runs s) k) s"
    using idem.reachable_inv [OF assms(1,2)] assms(3) by (simp add: completed_def)
  then have "completed k e (count_list (is_runs s) k) t" by (rule completed.steps_inv [OF assms(4)])
  then show ?thesis using assms(5) by (simp add: completed_def idem_resolve_def)
qed

text \<open>
  What is replayed is what the owner sent: the same status, body and content type, with no other header
  than its location headers. In particular no cookie is replayed.
\<close>
theorem replay_roundtrip:
  assumes "hm_wf c" "hm_get c k = Some (InFlight n h)" "length c < IDEMPOTENCY_MAX_ENTRIES"
    and "is_success (rs_status rs)" "starts_with ''application/json'' (content_type rs)"
    and "\<not> rs_broken rs" "length (rs_body rs) \<le> cap" "t1 < t0 + IDEMPOTENCY_TTL_SECS"
  shows "\<exists>rs'. snd (idem_complete cap k h t0 rs c) = Ok rs
    \<and> snd (idem_resolve f k h t1 (idem_drop k n (fst (idem_complete cap k h t0 rs c)))) = Replay rs'
    \<and> rs_status rs' = rs_status rs \<and> rs_body rs' = rs_body rs \<and> content_type rs' = content_type rs
    \<and> (\<forall>(x, v)\<in>set (tl (rs_headers rs')). (x, v) \<in> set (rs_headers rs) \<and> (x = ''location'' \<or> x = ''content-location''))"
proof -
  let ?e = "idem_entry_of h t0 rs"
  have st: "100 \<le> rs_status rs" "rs_status rs \<le> 999" using assms(4) by (simp_all add: is_success_def)
  have vis: "list_all visible_ascii (content_type rs)" by (simp add: content_type_def split: option.splits)
  have cp: "idem_complete cap k h t0 rs c = (hm_insert k (Complete ?e) c, Ok rs)"
    using assms by (simp add: idem_complete_def idem_insert_capped_def)
  have rv: "snd (idem_resolve f k h t1 (idem_drop k n (hm_insert k (Complete ?e) c))) = Replay (cached_idem_response ?e)"
    using assms(8) by (simp add: idem_drop_def idem_resolve_def idem_entry_of_def)
  have ct: "content_type (cached_idem_response ?e) = content_type rs"
    using vis unfolding content_type_def [of "cached_idem_response ?e"] by (simp add: cached_idem_response_def idem_entry_of_def)
  show ?thesis
    by (rule exI [of _ "cached_idem_response ?e"])
      (use cp rv ct st in \<open>auto simp: cached_idem_response_def idem_entry_of_def is_replayable_header_def\<close>)
qed

text \<open>
  The age of a cached answer counts from the arrival of the request that produced it. A follower that
  arrived at least the whole lifetime after the owner waits for it all the same, but then finds the answer
  expired the moment it is stored, and executes the handler again.
\<close>
theorem late_follower_runs_again:
  assumes "hm_wf c" "hm_get c k = Some (InFlight n h)" "length c < IDEMPOTENCY_MAX_ENTRIES"
    and "t0 + IDEMPOTENCY_TTL_SECS \<le> t1"
    and "is_success (rs_status rs)" "starts_with ''application/json'' (content_type rs)"
    and "\<not> rs_broken rs" "length (rs_body rs) \<le> cap"
  shows "snd (idem_resolve f k h t1 c) = Decide (Wait n)
    \<and> (let c1 = idem_drop k n (fst (idem_complete cap k h t0 rs c)) in
       snd (idem_resolve f k h t1 c1) = Decide Retry
       \<and> snd (idem_resolve f k h t1 (fst (idem_resolve f k h t1 c1))) = Decide (Own f))"
proof -
  let ?e = "idem_entry_of h t0 rs" and ?c1 = "hm_insert k (Complete (idem_entry_of h t0 rs)) c"
  have cp: "idem_drop k n (fst (idem_complete cap k h t0 rs c)) = ?c1"
    using assms by (simp add: idem_complete_def idem_insert_capped_def idem_drop_def)
  have len: "length (hm_remove k ?c1) < IDEMPOTENCY_MAX_ENTRIES"
    using assms(3) le_less_trans [OF length_filter_le [of "\<lambda>e. fst e \<noteq> k" c]] by (simp add: hm_remove_def hm_insert_def)
  have r: "idem_resolve f k h t1 ?c1 = (hm_remove k ?c1, Decide Retry)"
    using assms(4) by (simp add: idem_resolve_def idem_entry_of_def)
  have "snd (idem_resolve f k h t1 (hm_remove k ?c1)) = Decide (Own f)"
    using len by (simp add: idem_resolve_def idem_insert_capped_def)
  then show ?thesis using assms(2) by (simp add: cp r Let_def idem_resolve_def [of f k h t1 c])
qed

text \<open>Keys of different users or methods never meet.\<close>

lemma split_at_sep:
  "x \<notin> set a \<Longrightarrow> x \<notin> set a' \<Longrightarrow> a @ x # b = a' @ x # b' \<Longrightarrow> a = a' \<and> b = b'"
proof (induction a arbitrary: a')
  case Nil then show ?case by (cases a') auto
next
  case (Cons y a) then show ?case by (cases a') auto
qed

lemma cache_key_separates:
  assumes "CHR '':'' \<notin> set m" "CHR '':'' \<notin> set m'" "idem_cache_key u m p k = idem_cache_key u' m' p' k'"
  shows "u = u' \<and> m = m'"
proof -
  have d: "CHR '':'' \<notin> set (show_int i)" for i
  proof
    assume "CHR '':'' \<in> set (show_int i)"
    from show_int_chars [OF this] show False by (simp add: ascii_simps)
  qed
  from assms(3) have "show_int u = show_int u' \<and> m @ CHR '':'' # (p @ '':'' @ k) = m' @ CHR '':'' # (p' @ '':'' @ k')"
    using split_at_sep [OF d d, of u _ u'] unfolding idem_cache_key_def by simp
  then show ?thesis using show_int_inj split_at_sep [OF assms(1,2)] by blast
qed


section \<open>Witnesses\<close>

definition wrs :: response where
  "wrs = \<lparr>rs_status = 201, rs_headers = [(''content-type'', ''application/json''), (''set-cookie'', ''x'')], rs_body = ''ok'', rs_broken = False\<rparr>"

definition widem0 :: idem_sys where
  "widem0 = \<lparr>is_cache = [], is_fresh = 0, is_reqs = Map.empty, is_runs = []\<rparr>"

definition wq :: "phase \<Rightarrow> idem_req" where
  "wq p = \<lparr>iq_key = ''k'', iq_hash = ''h'', iq_now = 0, iq_phase = p\<rparr>"

text \<open>A request arrives, takes the key and answers.\<close>

definition widem1 :: idem_sys where
  "widem1 = widem0\<lparr>is_reqs := [0 \<mapsto> wq (Owning 0)], is_cache := [(''k'', InFlight 0 ''h'')], is_fresh := 1, is_runs := [''k'']\<rparr>"

definition widem2 :: idem_sys where
  "widem2 = set_phase 0 (wq (Owning 0)) (Leaving 0)
     (widem1\<lparr>is_cache := fst (idem_complete 10 ''k'' ''h'' 0 wrs [(''k'', InFlight 0 ''h'')])\<rparr>)"

lemma wrun1: "0 \<in> arrivals \<Longrightarrow> (idem_step 10 arrivals)\<^sup>*\<^sup>* widem0 widem1"
proof -
  assume a: "0 \<in> arrivals"
  let ?s = "widem0\<lparr>is_reqs := (is_reqs widem0)(0 \<mapsto> \<lparr>iq_key = ''k'', iq_hash = ''h'', iq_now = 0, iq_phase = Resolving\<rparr>)\<rparr>"
  have "idem_step 10 arrivals widem0 ?s" by (rule idem_step.arrive) (simp_all add: widem0_def a)
  moreover have "idem_step 10 arrivals ?s (resolve_req 0 (wq Resolving) ?s)" by (rule idem_step.resolve) (simp_all add: wq_def)
  moreover have "resolve_req 0 (wq Resolving) ?s = widem1"
    by (simp add: resolve_req_def wq_def widem0_def widem1_def idem_resolve_def idem_insert_capped_def IDEMPOTENCY_MAX_ENTRIES_def
        hm_insert_def hm_remove_def after_resolve_def runs_handler_def set_phase_def)
  ultimately show ?thesis by (metis rtranclp.rtrancl_into_rtrancl rtranclp.rtrancl_refl)
qed

lemma wrun2: "0 \<in> arrivals \<Longrightarrow> (idem_step 10 arrivals)\<^sup>*\<^sup>* widem0 widem2"
proof -
  assume a: "0 \<in> arrivals"
  have "idem_step 10 arrivals widem1 (set_phase 0 (wq (Owning 0)) (Leaving 0)
    (widem1\<lparr>is_cache := fst (idem_complete 10 (iq_key (wq (Owning 0))) (iq_hash (wq (Owning 0))) (iq_now (wq (Owning 0))) wrs (is_cache widem1))\<rparr>))"
    by (rule idem_step.respond) (simp_all add: widem1_def wq_def)
  then have "idem_step 10 arrivals widem1 widem2" by (simp add: widem2_def wq_def widem1_def)
  with wrun1 [OF a] show ?thesis by simp
qed

lemma wrs_ok: "is_success (rs_status wrs)" "starts_with ''application/json'' (content_type wrs)" "\<not> rs_broken wrs" "length (rs_body wrs) \<le> 10"
  by (simp_all add: wrs_def is_success_def content_type_def visible_ascii_def starts_with_def)

theorem single_flight_witness:
  "length (is_cache widem1) \<le> IDEMPOTENCY_MAX_ENTRIES
   \<and> (\<exists>i q. is_reqs widem1 i = Some q \<and> iq_key q = ''k'' \<and> (iq_phase q = Owning 0 \<or> iq_phase q = Leaving 0))"
proof -
  have i: "idem_initial widem0" by (simp add: idem_initial_def widem0_def)
  have g: "hm_get (is_cache widem1) ''k'' = Some (InFlight 0 ''h'')" by (simp add: widem1_def hm_get_def)
  from single_flight [OF i wrun1] g show ?thesis by blast
qed

theorem completed_is_replayed_witness:
  "snd (idem_resolve 1 ''k'' ''h'' 599 (is_cache widem2)) = Replay (cached_idem_response (idem_entry_of ''h'' 0 wrs))"
proof -
  let ?e = "idem_entry_of ''h'' 0 wrs"
  have i: "idem_initial widem0" by (simp add: idem_initial_def widem0_def)
  have e: "ie_created_at ?e + IDEMPOTENCY_TTL_SECS = 600" "ie_request_hash ?e = ''h''"
    by (simp_all add: idem_entry_of_def IDEMPOTENCY_TTL_SECS_def)
  have c: "is_cache widem2 = hm_insert ''k'' (Complete ?e) [(''k'', InFlight 0 ''h'')]"
    using wrs_ok by (simp add: widem2_def set_phase_def idem_complete_def idem_insert_capped_def IDEMPOTENCY_MAX_ENTRIES_def)
  have g: "hm_get (is_cache widem2) ''k'' = Some (Complete ?e)" by (simp add: c)
  from completed_is_replayed [where e = ?e and f = 1 and h = "''h''" and now = 599, OF i wrun2 g rtranclp.rtrancl_refl]
  show ?thesis by (simp add: e)
qed

theorem replay_roundtrip_witness:
  "\<exists>rs'. snd (idem_resolve 1 ''k'' ''h'' 599 (idem_drop ''k'' 0 (fst (idem_complete 10 ''k'' ''h'' 0 wrs [(''k'', InFlight 0 ''h'')])))) = Replay rs'
     \<and> rs_status rs' = 201 \<and> rs_body rs' = ''ok''"
proof -
  have "hm_wf [(''k'', InFlight 0 ''h'')]" "hm_get [(''k'', InFlight 0 ''h'')] ''k'' = Some (InFlight 0 ''h'')"
    "length [(''k'', InFlight 0 ''h'')] < IDEMPOTENCY_MAX_ENTRIES" "(599::int) < 0 + IDEMPOTENCY_TTL_SECS"
    by (simp_all add: hm_wf_def hm_get_def IDEMPOTENCY_MAX_ENTRIES_def IDEMPOTENCY_TTL_SECS_def)
  from replay_roundtrip [OF this(1-3) wrs_ok this(4), of 1] show ?thesis by (auto simp: wrs_def)
qed

theorem late_follower_runs_again_witness:
  "snd (idem_resolve 1 ''k'' ''h'' 600 (idem_drop ''k'' 0 (fst (idem_complete 10 ''k'' ''h'' 0 wrs [(''k'', InFlight 0 ''h'')])))) = Decide Retry"
proof -
  have "hm_wf [(''k'', InFlight 0 ''h'')]" "hm_get [(''k'', InFlight 0 ''h'')] ''k'' = Some (InFlight 0 ''h'')"
    "length [(''k'', InFlight 0 ''h'')] < IDEMPOTENCY_MAX_ENTRIES" "0 + IDEMPOTENCY_TTL_SECS \<le> 600"
    by (simp_all add: hm_wf_def hm_get_def IDEMPOTENCY_MAX_ENTRIES_def IDEMPOTENCY_TTL_SECS_def)
  from late_follower_runs_again [OF this wrs_ok, of 1] show ?thesis by (simp add: Let_def)
qed

end
