(* ===== verification/Webhooks.thy ===== *)
theory Webhooks
  imports Store Egress NodeProtocol
begin

text \<open>
  The webhook bus (\<open>src/src/services/webhooks.rs\<close>), first part: subscriptions, their secrets at rest and
  the ring of recent events the schedule gates poll. AES-GCM, SHA-256, HMAC, base64 and JSON are parameters.
\<close>

section \<open>Event names\<close>

definition EVENTS :: "string list" where
  "EVENTS = [''server.start'', ''server.stop'', ''server.crash'', ''server.install'', ''backup.complete'',
     ''backup.failed'', ''schedule.run'', ''panel.alert'', ''site.updated'']"

definition TEST_EVENT :: string where "TEST_EVENT = ''test.ping''"

definition event_matches :: "string \<Rightarrow> string \<Rightarrow> bool" where
  "event_matches pattern event \<longleftrightarrow> pattern = ''*'' \<or> pattern = event
     \<or> ends_with ''.*'' pattern \<and> starts_with (take (length pattern - 1) pattern) event"

datatype hook_error =
    UnknownEvent string | BadTarget egress_error | WebhookNotFound | WeakSecret | QueueFull nat
  | MissingPrefix | NotBase64 | Truncated nat | Undecryptable | SecretNotUtf8 | HookConstraint

fun validate_events :: "string list \<Rightarrow> (hook_error, unit) result" where
  "validate_events [] = Ok ()"
| "validate_events (e # es) =
     (if e \<in> set EVENTS \<or> e = ''*''
         \<or> list_ex (\<lambda>name. ends_with ''.*'' e \<and> starts_with (take (length e - 1) e) name) EVENTS
      then validate_events es else Err (UnknownEvent e))"

section \<open>Rows\<close>

record webhook_row =
  wr_id :: int
  wr_uuid :: string
  wr_name :: string
  wr_url :: string
  wr_secret :: string
  wr_events :: string
  wr_server_id :: "int option"
  wr_enabled :: bool
  wr_allow_http :: bool
  wr_failure_count :: int
  wr_last_status :: string
  wr_created_at :: instant
  wr_updated_at :: instant

record webhook =
  wh_id :: int
  wh_uuid :: string
  wh_name :: string
  wh_url :: string
  wh_secret :: string
  wh_events :: "string list"
  wh_server_id :: "int option"
  wh_enabled :: bool
  wh_allow_http :: bool
  wh_failure_count :: int
  wh_last_status :: string
  wh_created_at :: instant
  wh_updated_at :: instant

datatype delivery_status = Pending | Delivered | Failed

record delivery =
  dv_id :: int
  dv_webhook :: int
  dv_event :: string
  dv_payload :: string
  dv_attempt :: int
  dv_status :: delivery_status
  dv_response_code :: "int option"
  dv_error :: string
  dv_next_attempt_at :: "int option"
  dv_created_at :: instant
  dv_delivered_at :: "instant option"

record hook_db =
  hk_hooks :: "webhook_row list"
  hk_deliveries :: "delivery list"
  hk_hook_seq :: int
  hk_delivery_seq :: int

text \<open>\<open>Utc::now().timestamp()\<close> of an instant.\<close>

definition timestamp :: "instant \<Rightarrow> int" where "timestamp t = t div 10 ^ 9"

definition on_hook :: "int \<Rightarrow> (webhook_row \<Rightarrow> webhook_row) \<Rightarrow> hook_db \<Rightarrow> hook_db" where
  "on_hook i f d = d\<lparr>hk_hooks := update_rows (\<lambda>w. wr_id w = i) f (hk_hooks d)\<rparr>"

definition on_delivery :: "int \<Rightarrow> (delivery \<Rightarrow> delivery) \<Rightarrow> hook_db \<Rightarrow> hook_db" where
  "on_delivery i f d = d\<lparr>hk_deliveries := update_rows (\<lambda>v. dv_id v = i) f (hk_deliveries d)\<rparr>"

section \<open>Secrets at rest\<close>

definition SECRET_PREFIX :: string where "SECRET_PREFIX = ''v1:''"
definition SECRET_NONCE_LEN :: nat where "SECRET_NONCE_LEN = 12"
definition MIN_SECRET_CHARS :: nat where "MIN_SECRET_CHARS = 16"

record hook_env =
  he_sha256 :: "string \<Rightarrow> string"
  he_seal :: "string \<Rightarrow> string \<Rightarrow> string \<Rightarrow> string"
  he_open :: "string \<Rightarrow> string \<Rightarrow> string \<Rightarrow> string option"
  he_b64 :: "string \<Rightarrow> string"
  he_unb64 :: "string \<Rightarrow> string option"
  he_hmac_hex :: "string \<Rightarrow> string \<Rightarrow> string"
  he_print :: "string list \<Rightarrow> string"
  he_parse :: "string \<Rightarrow> string list option"
  he_url :: "string \<Rightarrow> url option"
  he_server_exists :: "int \<Rightarrow> bool"
  he_err_text :: "egress_error \<Rightarrow> string"

definition master_key :: "string \<Rightarrow> string option" where
  "master_key configured = (if configured = [] then None else Some configured)"

definition derive_secret_key :: "hook_env \<Rightarrow> string \<Rightarrow> string" where
  "derive_secret_key env master = he_sha256 env master"

text \<open>The nonce comes from the operating system's generator.\<close>

definition encrypt_secret :: "hook_env \<Rightarrow> string \<Rightarrow> string \<Rightarrow> string \<Rightarrow> string" where
  "encrypt_secret env nonce master plaintext =
     SECRET_PREFIX @ he_b64 env (nonce @ he_seal env (derive_secret_key env master) nonce plaintext)"

definition decrypt_secret :: "hook_env \<Rightarrow> string \<Rightarrow> string \<Rightarrow> (hook_error, string) result" where
  "decrypt_secret env master stored =
     (case strip_prefix SECRET_PREFIX stored of
        None \<Rightarrow> Err MissingPrefix
      | Some body \<Rightarrow>
          (case he_unb64 env body of
             None \<Rightarrow> Err NotBase64
           | Some blob \<Rightarrow>
               if length blob < SECRET_NONCE_LEN + 16 then Err (Truncated (length blob))
               else (case he_open env (derive_secret_key env master) (take SECRET_NONCE_LEN blob) (drop SECRET_NONCE_LEN blob) of
                       None \<Rightarrow> Err Undecryptable
                     | Some pt \<Rightarrow> if utf8_valid pt then Ok pt else Err SecretNotUtf8)))"

definition secret_for_row ::
  "hook_env \<Rightarrow> string \<Rightarrow> instant \<Rightarrow> hook_db \<Rightarrow> int \<Rightarrow> string \<Rightarrow> string option \<Rightarrow> hook_db \<times> (hook_error, string) result" where
  "secret_for_row env nonce now d i raw key =
     (case key of
        None \<Rightarrow> (d, Ok raw)
      | Some k \<Rightarrow>
          if starts_with SECRET_PREFIX raw then (d, decrypt_secret env k raw)
          else (on_hook i (\<lambda>w. w\<lparr>wr_secret := encrypt_secret env nonce k raw, wr_updated_at := now\<rparr>) d, Ok raw))"

text \<open>A row whose event list does not parse is loaded as subscribed to everything.\<close>

definition row_events :: "hook_env \<Rightarrow> webhook_row \<Rightarrow> string list" where
  "row_events env w = (case he_parse env (wr_events w) of Some es \<Rightarrow> es | None \<Rightarrow> [''*''])"

definition raw_to_webhook ::
  "hook_env \<Rightarrow> string \<Rightarrow> instant \<Rightarrow> string option \<Rightarrow> webhook_row \<Rightarrow> hook_db \<Rightarrow> hook_db \<times> (hook_error, webhook) result" where
  "raw_to_webhook env nonce now key w d =
     (case secret_for_row env nonce now d (wr_id w) (wr_secret w) key of
        (d1, Err e) \<Rightarrow> (d1, Err e)
      | (d1, Ok secret) \<Rightarrow>
          (d1, Ok \<lparr>wh_id = wr_id w, wh_uuid = wr_uuid w, wh_name = wr_name w, wh_url = wr_url w, wh_secret = secret,
             wh_events = row_events env w, wh_server_id = wr_server_id w, wh_enabled = wr_enabled w,
             wh_allow_http = wr_allow_http w, wh_failure_count = wr_failure_count w, wh_last_status = wr_last_status w,
             wh_created_at = wr_created_at w, wh_updated_at = wr_updated_at w\<rparr>))"

definition webhook_sign :: "hook_env \<Rightarrow> string \<Rightarrow> string \<Rightarrow> int \<Rightarrow> string" where
  "webhook_sign env secret body ts = he_hmac_hex env secret (show_int ts @ ''.'' @ body)"

section \<open>Subscriptions\<close>

definition find_hook :: "hook_db \<Rightarrow> int \<Rightarrow> webhook_row option" where
  "find_hook d i = find (\<lambda>w. wr_id w = i) (hk_hooks d)"

definition webhook_get ::
  "hook_env \<Rightarrow> string \<Rightarrow> instant \<Rightarrow> string option \<Rightarrow> int \<Rightarrow> hook_db \<Rightarrow> hook_db \<times> (hook_error, webhook) result" where
  "webhook_get env nonce now key i d =
     (case find_hook d i of None \<Rightarrow> (d, Err WebhookNotFound) | Some w \<Rightarrow> raw_to_webhook env nonce now key w d)"

fun load_hooks ::
  "hook_env \<Rightarrow> (int \<Rightarrow> string) \<Rightarrow> instant \<Rightarrow> string option \<Rightarrow> webhook_row list \<Rightarrow> hook_db \<Rightarrow> hook_db \<times> (hook_error, webhook list) result" where
  "load_hooks env nonces now key [] d = (d, Ok [])"
| "load_hooks env nonces now key (w # ws) d =
     (case raw_to_webhook env (nonces (wr_id w)) now key w d of
        (d1, Err e) \<Rightarrow> (d1, Err e)
      | (d1, Ok wh) \<Rightarrow>
          (case load_hooks env nonces now key ws d1 of
             (d2, Err e) \<Rightarrow> (d2, Err e)
           | (d2, Ok whs) \<Rightarrow> (d2, Ok (wh # whs))))"

definition webhook_list ::
  "hook_env \<Rightarrow> (int \<Rightarrow> string) \<Rightarrow> instant \<Rightarrow> string option \<Rightarrow> hook_db \<Rightarrow> hook_db \<times> (hook_error, webhook list) result" where
  "webhook_list env nonces now key d = load_hooks env nonces now key (sort_key wr_name (hk_hooks d)) d"

definition server_ref_ok :: "hook_env \<Rightarrow> int option \<Rightarrow> bool" where
  "server_ref_ok env s = (case s of None \<Rightarrow> True | Some i \<Rightarrow> he_server_exists env i)"

definition store_secret :: "hook_env \<Rightarrow> string \<Rightarrow> string option \<Rightarrow> string \<Rightarrow> string" where
  "store_secret env nonce key secret = (case key of Some k \<Rightarrow> encrypt_secret env nonce k secret | None \<Rightarrow> secret)"

definition new_hook ::
  "hook_env \<Rightarrow> string \<Rightarrow> instant \<Rightarrow> string option \<Rightarrow> string \<Rightarrow> string \<Rightarrow> string \<Rightarrow> string \<Rightarrow> string list \<Rightarrow> int option \<Rightarrow> bool \<Rightarrow> int \<Rightarrow> webhook_row" where
  "new_hook env nonce now key uuid token name url events server_id allow_http i =
     \<lparr>wr_id = i, wr_uuid = uuid, wr_name = name, wr_url = url, wr_secret = store_secret env nonce key token,
      wr_events = he_print env events, wr_server_id = server_id, wr_enabled = True, wr_allow_http = allow_http,
      wr_failure_count = 0, wr_last_status = [], wr_created_at = now, wr_updated_at = now\<rparr>"

text \<open>\<open>uuid\<close> and \<open>token\<close> are the random identifier and the random 32-character secret of the call.\<close>

definition webhook_create ::
  "hook_env \<Rightarrow> string \<Rightarrow> instant \<Rightarrow> string option \<Rightarrow> string \<Rightarrow> string \<Rightarrow> string \<Rightarrow> string \<Rightarrow> string list \<Rightarrow> int option \<Rightarrow> bool
    \<Rightarrow> hook_db \<Rightarrow> hook_db \<times> (hook_error, webhook) result" where
  "webhook_create env nonce now key uuid token name url events server_id allow_http d =
     (case validate_events events of
        Err e \<Rightarrow> (d, Err e)
      | Ok _ \<Rightarrow>
          (case validate_target_url_opts (he_url env) url allow_http of
             Err e \<Rightarrow> (d, Err (BadTarget e))
           | Ok _ \<Rightarrow>
               if \<not> server_ref_ok env server_id \<or> exists_row (\<lambda>w. wr_uuid w = uuid) (hk_hooks d) then (d, Err HookConstraint)
               else
                 let i = hk_hook_seq d + 1;
                     w = new_hook env nonce now key uuid token name url events server_id allow_http i
                 in webhook_get env nonce now key i (d\<lparr>hk_hooks := hk_hooks d @ [w], hk_hook_seq := i\<rparr>)))"

record webhook_patch =
  wp_name :: "string option"
  wp_url :: "string option"
  wp_events :: "string list option"
  wp_secret :: "string option"
  wp_server_id :: "int option option"
  wp_enabled :: "bool option"
  wp_allow_http :: "bool option"

definition or_else :: "'a option \<Rightarrow> 'a \<Rightarrow> 'a" where
  "or_else m x = (case m of Some y \<Rightarrow> y | None \<Rightarrow> x)"

definition patch_checks :: "hook_env \<Rightarrow> webhook_patch \<Rightarrow> webhook \<Rightarrow> (hook_error, unit) result" where
  "patch_checks env p wh =
     rbind (case wp_events p of Some es \<Rightarrow> validate_events es | None \<Rightarrow> Ok ()) (\<lambda>_.
     if (case wp_secret p of Some s \<Rightarrow> length s < MIN_SECRET_CHARS | None \<Rightarrow> False) then Err WeakSecret
     else if wp_url p \<noteq> None \<or> wp_allow_http p \<noteq> None then
       (case validate_target_url_opts (he_url env) (or_else (wp_url p) (wh_url wh)) (or_else (wp_allow_http p) (wh_allow_http wh)) of
          Err e \<Rightarrow> Err (BadTarget e) | Ok _ \<Rightarrow> Ok ())
     else Ok ())"

definition apply_patch :: "hook_env \<Rightarrow> string \<Rightarrow> instant \<Rightarrow> string option \<Rightarrow> webhook_patch \<Rightarrow> webhook \<Rightarrow> webhook_row \<Rightarrow> webhook_row" where
  "apply_patch env nonce now key p wh w = w\<lparr>
     wr_name := or_else (wp_name p) (wh_name wh), wr_url := or_else (wp_url p) (wh_url wh),
     wr_events := he_print env (or_else (wp_events p) (wh_events wh)),
     wr_secret := store_secret env nonce key (or_else (wp_secret p) (wh_secret wh)),
     wr_server_id := or_else (wp_server_id p) (wh_server_id wh), wr_enabled := or_else (wp_enabled p) (wh_enabled wh),
     wr_allow_http := or_else (wp_allow_http p) (wh_allow_http wh), wr_updated_at := now\<rparr>"

text \<open>\<open>nonce\<close> serves the migration of a legacy row, \<open>nonce2\<close> the write and \<open>nonce3\<close> the final load.\<close>

definition webhook_update ::
  "hook_env \<Rightarrow> string \<Rightarrow> string \<Rightarrow> string \<Rightarrow> instant \<Rightarrow> string option \<Rightarrow> int \<Rightarrow> webhook_patch
    \<Rightarrow> hook_db \<Rightarrow> hook_db \<times> (hook_error, webhook) result" where
  "webhook_update env nonce nonce2 nonce3 now key i p d =
     (case webhook_get env nonce now key i d of
        (d1, Err e) \<Rightarrow> (d1, Err e)
      | (d1, Ok wh) \<Rightarrow>
          (case patch_checks env p wh of
             Err e \<Rightarrow> (d1, Err e)
           | Ok _ \<Rightarrow>
               if \<not> server_ref_ok env (or_else (wp_server_id p) (wh_server_id wh)) then (d1, Err HookConstraint)
               else webhook_get env nonce3 now key i (on_hook i (apply_patch env nonce2 now key p wh) d1)))"

text \<open>Deleting a subscription deletes its deliveries (foreign key with cascade).\<close>

definition webhook_delete :: "int \<Rightarrow> hook_db \<Rightarrow> (hook_error, hook_db) result" where
  "webhook_delete i d =
     (if \<not> exists_row (\<lambda>w. wr_id w = i) (hk_hooks d) then Err WebhookNotFound
      else Ok (d\<lparr>hk_hooks := filter (\<lambda>w. wr_id w \<noteq> i) (hk_hooks d),
                 hk_deliveries := filter (\<lambda>v. dv_webhook v \<noteq> i) (hk_deliveries d)\<rparr>))"

definition webhook_set_enabled ::
  "hook_env \<Rightarrow> string \<Rightarrow> instant \<Rightarrow> string option \<Rightarrow> int \<Rightarrow> bool \<Rightarrow> hook_db \<Rightarrow> hook_db \<times> (hook_error, webhook) result" where
  "webhook_set_enabled env nonce now key i enabled d =
     webhook_get env nonce now key i (on_hook i (\<lambda>w. w\<lparr>wr_enabled := enabled, wr_updated_at := now\<rparr>) d)"

section \<open>Recent events\<close>

definition EVENT_REGISTRY_CAP :: nat where "EVENT_REGISTRY_CAP = 10000"
definition EVENT_REGISTRY_TTL :: int where "EVENT_REGISTRY_TTL = 600 * 10 ^ 9"

record registry_entry =
  re_event :: string
  re_server_id :: "int option"
  re_at :: instant

text \<open>Oldest first; a front entry stamped in the future stops the pruning loop.\<close>

fun prune_front :: "instant \<Rightarrow> registry_entry list \<Rightarrow> registry_entry list" where
  "prune_front now [] = []"
| "prune_front now (e # ring) =
     (if re_at e \<le> now then if now - re_at e < EVENT_REGISTRY_TTL then e # ring else prune_front now ring
      else e # ring)"

definition hook_record_event :: "string \<Rightarrow> int option \<Rightarrow> instant \<Rightarrow> registry_entry list \<Rightarrow> registry_entry list" where
  "hook_record_event event server_id now ring =
     (let ring1 = prune_front now ring;
          ring2 = (if length ring1 = EVENT_REGISTRY_CAP then tl ring1 else ring1)
      in ring2 @ [\<lparr>re_event = event, re_server_id = server_id, re_at = now\<rparr>])"

fun scan_ring :: "string \<Rightarrow> int option \<Rightarrow> instant \<Rightarrow> instant \<Rightarrow> registry_entry list \<Rightarrow> bool" where
  "scan_ring event server_id since now [] = False"
| "scan_ring event server_id since now (e # es) =
     (if now < re_at e then scan_ring event server_id since now es
      else if EVENT_REGISTRY_TTL \<le> now - re_at e then False
      else if re_at e < since \<or> re_event e \<noteq> event then scan_ring event server_id since now es
      else if server_id = None \<or> re_server_id e = server_id \<or> re_server_id e = None then True
      else scan_ring event server_id since now es)"

definition recent_event_since :: "registry_entry list \<Rightarrow> string \<Rightarrow> int option \<Rightarrow> instant \<Rightarrow> instant \<Rightarrow> bool" where
  "recent_event_since ring event server_id since now = scan_ring event server_id since now (rev ring)"

definition recent_event :: "registry_entry list \<Rightarrow> string \<Rightarrow> int option \<Rightarrow> instant \<Rightarrow> bool" where
  "recent_event ring event server_id now = recent_event_since ring event server_id 0 now"

section \<open>Subscriptions name known events\<close>

text \<open>A subscription list is accepted exactly when each of its patterns fires for some event the panel emits.\<close>
theorem validate_events_iff:
  "validate_events es = Ok () \<longleftrightarrow> list_all (\<lambda>p. list_ex (event_matches p) EVENTS) es"
proof (induction es)
  case (Cons e es)
  have "list_ex (event_matches e) EVENTS \<longleftrightarrow> e \<in> set EVENTS \<or> e = ''*''
      \<or> list_ex (\<lambda>name. ends_with ''.*'' e \<and> starts_with (take (length e - 1) e) name) EVENTS"
    by (auto simp: list_ex_iff event_matches_def EVENTS_def)
  then show ?case using Cons by simp
qed simp

section \<open>The ring of recent events\<close>

definition ring_of :: "registry_entry list \<Rightarrow> registry_entry list" where
  "ring_of hist = foldl (\<lambda>ring e. hook_record_event (re_event e) (re_server_id e) (re_at e) ring) [] hist"

definition expired_at :: "instant \<Rightarrow> registry_entry \<Rightarrow> bool" where
  "expired_at t e \<longleftrightarrow> EVENT_REGISTRY_TTL \<le> t - re_at e"

lemma ring_of_snoc: "ring_of (hist @ [e]) = hook_record_event (re_event e) (re_server_id e) (re_at e) (ring_of hist)"
  by (simp add: ring_of_def)

lemma prune_front_split: "\<exists>p. ring = p @ prune_front now ring \<and> (\<forall>e\<in>set p. expired_at now e)"
proof (induction ring)
  case (Cons e ring)
  then obtain p where p: "ring = p @ prune_front now ring" "\<forall>e\<in>set p. expired_at now e" by blast
  show ?case
  proof (cases "re_at e \<le> now \<and> \<not> now - re_at e < EVENT_REGISTRY_TTL")
    case True
    then have "e # ring = (e # p) @ prune_front now (e # ring)" "\<forall>x\<in>set (e # p). expired_at now x"
      using p by (auto simp: expired_at_def)
    then show ?thesis by blast
  next
    case False
    then have "e # ring = [] @ prune_front now (e # ring)" by auto
    then show ?thesis by (metis empty_iff empty_set)
  qed
qed simp

text \<open>What the ring has lost is expired, or older than a full ring of newer events.\<close>

lemma ring_of_suffix:
  assumes "sorted (map re_at hist)" "\<forall>e\<in>set hist. re_at e \<le> t"
  shows "\<exists>old. hist = old @ ring_of hist \<and> length (ring_of hist) \<le> EVENT_REGISTRY_CAP
    \<and> ((\<forall>e\<in>set old. expired_at t e) \<or> length (ring_of hist) = EVENT_REGISTRY_CAP)"
  using assms
proof (induction hist arbitrary: t rule: rev_induct)
  case Nil
  then show ?case by (simp add: ring_of_def)
next
  case (snoc x hist)
  let ?R = "ring_of hist" and ?P = "prune_front (re_at x) (ring_of hist)"
  have le: "\<forall>e\<in>set hist. re_at e \<le> re_at x" and srt: "sorted (map re_at hist)" and tx: "re_at x \<le> t"
    using snoc.prems by (auto simp: sorted_append)
  obtain old where old: "hist = old @ ?R" "length ?R \<le> EVENT_REGISTRY_CAP"
      "(\<forall>e\<in>set old. expired_at (re_at x) e) \<or> length ?R = EVENT_REGISTRY_CAP"
    using snoc.IH [OF srt le] by blast
  obtain p where p: "?R = p @ ?P" "\<forall>e\<in>set p. expired_at (re_at x) e" using prune_front_split by blast
  have later: "expired_at (re_at x) e \<Longrightarrow> expired_at t e" for e using tx by (simp add: expired_at_def)
  have x: "\<lparr>re_event = re_event x, re_server_id = re_server_id x, re_at = re_at x\<rparr> = x" by simp
  have ring: "ring_of (hist @ [x]) = (if length ?P = EVENT_REGISTRY_CAP then tl ?P else ?P) @ [x]"
    by (simp add: ring_of_snoc hook_record_event_def Let_def)
  have cap: "0 < EVENT_REGISTRY_CAP" by (simp add: EVENT_REGISTRY_CAP_def)
  show ?case
  proof (cases "length ?P = EVENT_REGISTRY_CAP")
    case True
    then obtain y ys where y: "?P = y # ys" using cap by (cases ?P) auto
    have R: "ring_of (hist @ [x]) = ys @ [x]" using ring True y by simp
    have "hist = old @ p @ y # ys" using old(1) p(1) y by metis
    then have "hist @ [x] = (old @ p @ [y]) @ ring_of (hist @ [x])" unfolding R by simp
    moreover have "length (ring_of (hist @ [x])) = EVENT_REGISTRY_CAP" using True y by (simp add: R)
    ultimately show ?thesis by (metis order_refl)
  next
    case False
    then have R: "ring_of (hist @ [x]) = ?P @ [x]" using ring by simp
    have "length ?P \<le> length ?R" by (subst p(1)) simp
    then have len: "length (ring_of (hist @ [x])) \<le> EVENT_REGISTRY_CAP" using False old(2) by (simp add: R)
    have "\<forall>e\<in>set old. expired_at (re_at x) e"
    proof (cases p)
      case Nil
      then show ?thesis using p(1) False old(3) by simp
    next
      case (Cons y ys)
      have "sorted (map re_at (old @ y # ys @ ?P))" using srt old(1) p(1) Cons by (metis append_Cons append.assoc)
      then have "\<forall>e\<in>set old. re_at e \<le> re_at y" by (auto simp: sorted_append)
      moreover have "expired_at (re_at x) y" using p(2) Cons by simp
      ultimately show ?thesis by (fastforce simp: expired_at_def)
    qed
    then have "\<forall>e\<in>set (old @ p). expired_at t e" using p(2) later by auto
    moreover have "hist @ [x] = (old @ p) @ ring_of (hist @ [x])" using old(1) p(1) by (simp add: R)
    ultimately show ?thesis using len by blast
  qed
qed

definition visible_event :: "string \<Rightarrow> int option \<Rightarrow> instant \<Rightarrow> instant \<Rightarrow> registry_entry \<Rightarrow> bool" where
  "visible_event event server_id since now e \<longleftrightarrow> re_at e \<le> now \<and> \<not> expired_at now e \<and> since \<le> re_at e \<and> re_event e = event
     \<and> (server_id = None \<or> re_server_id e = server_id \<or> re_server_id e = None)"

lemma scan_ring_iff:
  "sorted (map re_at (rev es)) \<Longrightarrow> scan_ring event sid since now es \<longleftrightarrow> (\<exists>e\<in>set es. visible_event event sid since now e)"
proof (induction es)
  case (Cons e es)
  then have le: "\<forall>x\<in>set es. re_at x \<le> re_at e" and srt: "sorted (map re_at (rev es))" by (auto simp: sorted_append)
  have "expired_at now e \<Longrightarrow> \<forall>x\<in>set es. expired_at now x" using le by (fastforce simp: expired_at_def)
  then show ?case using Cons.IH [OF srt] by (auto simp: visible_event_def expired_at_def)
qed simp

text \<open>
  The bounded ring answers as the unbounded history would: as long as at most a ring's worth of events
  was emitted in the last ten minutes, a query finds an event exactly when one was emitted in the queried
  interval, for that server or for all, within the retention time.
\<close>
theorem ring_refines_history:
  assumes "sorted (map re_at hist)" "\<forall>e\<in>set hist. re_at e \<le> now"
    and "length (filter (\<lambda>e. \<not> expired_at now e) hist) \<le> EVENT_REGISTRY_CAP"
  shows "recent_event_since (ring_of hist) event sid since now \<longleftrightarrow> (\<exists>e\<in>set hist. visible_event event sid since now e)"
proof -
  obtain old where old: "hist = old @ ring_of hist"
      "(\<forall>e\<in>set old. expired_at now e) \<or> length (ring_of hist) = EVENT_REGISTRY_CAP"
    using ring_of_suffix [OF assms(1,2)] by blast
  have srt: "sorted (map re_at (ring_of hist))" using assms(1) old(1) by (metis map_append sorted_append)
  have "\<forall>e\<in>set old. expired_at now e"
  proof (rule ccontr)
    assume "\<not> ?thesis"
    then obtain e where e: "e \<in> set old" "\<not> expired_at now e" by blast
    then have full: "length (ring_of hist) = EVENT_REGISTRY_CAP" using old(2) by blast
    have "\<forall>x\<in>set (ring_of hist). re_at e \<le> re_at x" using e assms(1) old(1) by (metis (no_types, lifting) image_eqI list.set_map map_append sorted_append)
    then have "\<forall>x\<in>set (ring_of hist). \<not> expired_at now x" using e(2) by (fastforce simp: expired_at_def)
    then have "length (filter (\<lambda>e. \<not> expired_at now e) hist) = length (filter (\<lambda>e. \<not> expired_at now e) old) + EVENT_REGISTRY_CAP"
      using full by (subst old(1)) (simp add: filter_id_conv)
    moreover have "0 < length (filter (\<lambda>e. \<not> expired_at now e) old)" using e by (auto simp: filter_empty_conv)
    ultimately show False using assms(3) by simp
  qed
  then have "(\<exists>e\<in>set hist. visible_event event sid since now e) \<longleftrightarrow> (\<exists>e\<in>set (ring_of hist). visible_event event sid since now e)"
    by (subst old(1)) (auto simp: visible_event_def)
  then show ?thesis using scan_ring_iff [of "rev (ring_of hist)"] srt by (simp add: recent_event_since_def)
qed

section \<open>Secrets\<close>

text \<open>
  What is used of the ciphers: base64 and AES-GCM round-trip, a sealed text is at least its tag long, and
  opening under another key fails.
\<close>

definition cipher_ok :: "hook_env \<Rightarrow> bool" where
  "cipher_ok env \<longleftrightarrow> (\<forall>b. he_unb64 env (he_b64 env b) = Some b)
     \<and> (\<forall>k n p. he_open env k n (he_seal env k n p) = Some p \<and> 16 \<le> length (he_seal env k n p))
     \<and> (\<forall>k k' n p. k' \<noteq> k \<longrightarrow> he_open env k' n (he_seal env k n p) = None)"

lemma decrypt_encrypt:
  assumes "cipher_ok env" "length nonce = SECRET_NONCE_LEN" "utf8_valid pt"
  shows "decrypt_secret env master (encrypt_secret env nonce master pt) = Ok pt"
    and "he_sha256 env master' \<noteq> he_sha256 env master \<Longrightarrow> decrypt_secret env master' (encrypt_secret env nonce master pt) = Err Undecryptable"
  using assms by (simp_all add: decrypt_secret_def encrypt_secret_def cipher_ok_def derive_secret_key_def SECRET_NONCE_LEN_def not_less)

lemma encrypt_prefix [simp]: "starts_with SECRET_PREFIX (encrypt_secret env nonce k pt)"
  by (simp add: encrypt_secret_def)

lemma find_hook_append:
  assumes "\<forall>x\<in>set ws. wr_id x \<noteq> wr_id w"
  shows "find (\<lambda>x. wr_id x = wr_id w) (ws @ [w]) = Some w"
  using assms by (induction ws) auto

lemma find_on_hook:
  "(\<And>w. wr_id (f w) = wr_id w) \<Longrightarrow> find_hook (on_hook i f d) j = map_option (\<lambda>w. if wr_id w = i then f w else w) (find_hook d j)"
  using find_update_rows_key [of wr_id f j "\<lambda>w. wr_id w = i" "hk_hooks d"] by (simp add: find_hook_def on_hook_def)

text \<open>The stored form of a secret resolves to the secret.\<close>

lemma stored_secret_resolves:
  assumes "cipher_ok env" "length nonce = SECRET_NONCE_LEN" "utf8_valid pt" "wr_secret w = store_secret env nonce key pt"
  shows "\<exists>wh. raw_to_webhook env nonce' now key w d = (d, Ok wh) \<and> wh_secret wh = pt \<and> wh_events wh = row_events env w \<and> wh_url wh = wr_url w"
  using assms decrypt_encrypt(1) [OF assms(1-3)]
  by (cases key) (auto simp: raw_to_webhook_def secret_for_row_def store_secret_def)

text \<open>
  With a master key configured, creating a subscription stores its secret sealed, and loading it gives
  back the secret, the events and the address it was created with; under another master key loading fails
  instead of yielding another secret.
\<close>
theorem secret_roundtrip:
  assumes c: "cipher_ok env" "length nonce = SECRET_NONCE_LEN" "utf8_valid token" "he_parse env (he_print env events) = Some events"
    and fresh: "\<forall>w\<in>set (hk_hooks d). wr_id w \<le> hk_hook_seq d"
    and ok: "webhook_create env nonce now (Some k) uuid token name url events server_id allow_http d = (d', Ok wh)"
  shows "wh_secret wh = token
    \<and> (\<exists>w. find_hook d' (wh_id wh) = Some w \<and> wr_secret w = encrypt_secret env nonce k token)
    \<and> (\<exists>wh'. webhook_get env nonce' now' (Some k) (wh_id wh) d' = (d', Ok wh')
         \<and> wh_secret wh' = token \<and> wh_events wh' = events \<and> wh_url wh' = url)
    \<and> (he_sha256 env k' \<noteq> he_sha256 env k \<longrightarrow> webhook_get env nonce' now' (Some k') (wh_id wh) d' = (d', Err Undecryptable))"
proof -
  define w where "w = new_hook env nonce now (Some k) uuid token name url events server_id allow_http (hk_hook_seq d + 1)"
  let ?d = "d\<lparr>hk_hooks := hk_hooks d @ [w], hk_hook_seq := hk_hook_seq d + 1\<rparr>"
  have ws: "wr_secret w = store_secret env nonce (Some k) token" "wr_events w = he_print env events" "wr_url w = url" "wr_id w = hk_hook_seq d + 1"
    by (simp_all add: w_def new_hook_def)
  have "\<forall>x\<in>set (hk_hooks d). wr_id x \<noteq> wr_id w" using fresh ws(4) by auto
  then have f: "find_hook ?d (hk_hook_seq d + 1) = Some w" using find_hook_append ws(4) by (fastforce simp: find_hook_def)
  have cr: "raw_to_webhook env nonce now (Some k) w ?d = (d', Ok wh)"
    using ok f by (simp add: webhook_create_def w_def webhook_get_def Let_def split: sum.splits if_splits)
  obtain wh1 where wh1: "raw_to_webhook env nonce now (Some k) w ?d = (?d, Ok wh1)" "wh_secret wh1 = token"
    using stored_secret_resolves [OF c(1-3) ws(1)] by blast
  have d': "d' = ?d" "wh = wh1" using cr wh1(1) by simp_all
  have i: "wh_id wh = hk_hook_seq d + 1"
    using cr ws(4) by (auto simp: raw_to_webhook_def split: sum.splits prod.splits)
  obtain wh2 where wh2: "raw_to_webhook env nonce' now' (Some k) w ?d = (?d, Ok wh2)" "wh_secret wh2 = token"
      "wh_events wh2 = row_events env w" "wh_url wh2 = wr_url w"
    using stored_secret_resolves [OF c(1-3) ws(1)] by blast
  have bad: "raw_to_webhook env nonce' now' (Some k') w ?d = (?d, Err Undecryptable)" if "he_sha256 env k' \<noteq> he_sha256 env k"
    using decrypt_encrypt(2) [OF c(1-3) that] ws(1) by (simp add: raw_to_webhook_def secret_for_row_def store_secret_def)
  show ?thesis
    using f i d' wh1(2) wh2 bad ws c(4) by (auto simp: webhook_get_def row_events_def store_secret_def)
qed

text \<open>
  When the master key is removed from the configuration the sealed text itself is taken for the secret:
  loading succeeds, and deliveries are signed with a key the receiver does not have.
\<close>
theorem lost_master_key_unnoticed:
  assumes "find_hook d i = Some w" "wr_secret w = encrypt_secret env nonce k token"
  shows "\<exists>wh. webhook_get env nonce' now (master_key []) i d = (d, Ok wh) \<and> wh_secret wh = encrypt_secret env nonce k token
    \<and> webhook_sign env (wh_secret wh) body ts = he_hmac_hex env (encrypt_secret env nonce k token) (show_int ts @ ''.'' @ body)"
  using assms by (simp add: webhook_get_def master_key_def raw_to_webhook_def secret_for_row_def webhook_sign_def)

text \<open>A row whose event list does not parse fires for nothing, until an unrelated update rewrites it as subscribed to everything.\<close>

lemma corrupt_events_widen:
  assumes "find_hook d i = Some w" "he_parse env (wr_events w) = None"
    and "webhook_update env n1 n2 n3 now None i \<lparr>wp_name = Some nm, wp_url = None, wp_events = None, wp_secret = None, wp_server_id = None,
           wp_enabled = None, wp_allow_http = None\<rparr> d = (d', Ok wh)"
  shows "\<exists>w'. find_hook d' i = Some w' \<and> wr_events w' = he_print env [''*'']"
proof -
  have i: "wr_id w = i" using assms(1) find_Some_set by (fastforce simp: find_hook_def)
  obtain wh0 where g: "webhook_get env n1 now None i d = (d, Ok wh0)" "wh_events wh0 = [''*'']"
    using assms(1,2) by (simp add: webhook_get_def raw_to_webhook_def secret_for_row_def row_events_def)
  from assms(3) g show ?thesis
    using assms(1) i
    by (auto simp: webhook_update_def patch_checks_def apply_patch_def webhook_get_def find_on_hook raw_to_webhook_def secret_for_row_def or_else_def
        split: if_splits)
qed

section \<open>Witnesses\<close>

text \<open>A cipher for the witnesses: the key, self-delimited, in front of the text.\<close>

fun whead :: "string \<Rightarrow> string" where
  "whead [] = ''b''"
| "whead (c # k) = CHR ''a'' # c # whead k"

lemma whead_prefix_free: "whead k' @ x = whead k @ p \<Longrightarrow> k' = k"
proof (induction k arbitrary: k')
  case Nil then show ?case by (cases k') auto
next
  case (Cons c k) then show ?case by (cases k') auto
qed

definition whookenv :: hook_env where
  "whookenv = \<lparr>he_sha256 = id, he_seal = (\<lambda>k n p. replicate 16 CHR ''t'' @ whead k @ p),
     he_open = (\<lambda>k n c. strip_prefix (replicate 16 CHR ''t'' @ whead k) c), he_b64 = id, he_unb64 = Some,
     he_hmac_hex = (\<lambda>k m. m), he_print = plain_json_print, he_parse = plain_json_parse,
     he_url = (\<lambda>u. Some \<lparr>url_text = u, url_scheme = ''https'', url_username = [], url_password = None, url_fragment = None,
       url_host = Some (Domain u), url_host_str = Some u, url_port = Some 443\<rparr>),
     he_server_exists = (\<lambda>_. True), he_err_text = (\<lambda>_. ''error'')\<rparr>"

lemma whookenv_ok: "cipher_ok whookenv"
proof -
  have "strip_prefix (replicate 16 CHR ''t'' @ whead k') (replicate 16 CHR ''t'' @ whead k @ p) = None" if "k' \<noteq> k" for k k' p
  proof (cases "strip_prefix (replicate 16 CHR ''t'' @ whead k') (replicate 16 CHR ''t'' @ whead k @ p)")
    case (Some r)
    then have "whead k @ p = whead k' @ r" unfolding strip_prefix_Some by simp
    then show ?thesis using whead_prefix_free that by metis
  qed
  moreover have "strip_prefix (replicate 16 CHR ''t'' @ whead k) (replicate 16 CHR ''t'' @ whead k @ p) = Some p" for k p
    by (simp add: strip_prefix_Some)
  ultimately show ?thesis unfolding cipher_ok_def by (simp add: whookenv_def)
qed

definition whookdb :: hook_db where
  "whookdb = \<lparr>hk_hooks = [], hk_deliveries = [], hk_hook_seq = 0, hk_delivery_seq = 0\<rparr>"

theorem secret_roundtrip_witness:
  "\<exists>d wh wh'. webhook_create whookenv ''0123456789ab'' 5 (Some ''key'') ''uuid'' ''token'' ''n'' ''h'' [''server.*''] None False whookdb = (d, Ok wh)
     \<and> webhook_get whookenv [] 6 (Some ''key'') (wh_id wh) d = (d, Ok wh') \<and> wh_secret wh' = ''token''
     \<and> webhook_get whookenv [] 6 (Some ''other'') (wh_id wh) d = (d, Err Undecryptable)"
proof -
  let ?r = "webhook_create whookenv ''0123456789ab'' 5 (Some ''key'') ''uuid'' ''token'' ''n'' ''h'' [''server.*''] None False whookdb"
  have n: "length ''0123456789ab'' = SECRET_NONCE_LEN" by (simp add: SECRET_NONCE_LEN_def)
  have u: "utf8_valid ''token''" by code_simp
  have p: "he_parse whookenv (he_print whookenv [''server.*'']) = Some [''server.*'']" by code_simp
  have fr: "\<forall>w\<in>set (hk_hooks whookdb). wr_id w \<le> hk_hook_seq whookdb" by (simp add: whookdb_def)
  have v: "validate_events [''server.*''] = Ok ()" by code_simp
  have t: "\<exists>u. validate_target_url_opts (he_url whookenv) ''h'' False = Ok u"
    by (simp add: validate_target_url_opts_def whookenv_def)
  define w where "w = new_hook whookenv ''0123456789ab'' 5 (Some ''key'') ''uuid'' ''token'' ''n'' ''h'' [''server.*''] None False 1"
  have w: "wr_secret w = store_secret whookenv ''0123456789ab'' (Some ''key'') ''token''" "wr_id w = 1" by (simp_all add: w_def new_hook_def)
  obtain tu where tu: "validate_target_url_opts (he_url whookenv) ''h'' False = Ok tu" using t by blast
  have e: "?r = raw_to_webhook whookenv ''0123456789ab'' 5 (Some ''key'') w \<lparr>hk_hooks = [w], hk_deliveries = [], hk_hook_seq = 1, hk_delivery_seq = 0\<rparr>"
    using w(2) by (simp add: webhook_create_def v tu server_ref_ok_def exists_row_def whookdb_def Let_def webhook_get_def find_hook_def
        w_def [symmetric] del: validate_events.simps)
  obtain d wh where r: "?r = (d, Ok wh)" using stored_secret_resolves [OF whookenv_ok n u w(1)] e by metis
  have "id ''other'' \<noteq> id ''key''" by simp
  then have ne: "he_sha256 whookenv ''other'' \<noteq> he_sha256 whookenv ''key''" by (simp add: whookenv_def)
  from secret_roundtrip [OF whookenv_ok n u p fr r, of "[]" 6 "''other''"] ne r show ?thesis by blast
qed

theorem lost_master_key_unnoticed_witness:
  "\<exists>wh. webhook_get whookenv [] 6 (master_key []) 1 \<lparr>hk_hooks = [\<lparr>wr_id = 1, wr_uuid = [], wr_name = [], wr_url = [],
      wr_secret = encrypt_secret whookenv ''0123456789ab'' ''key'' ''token'', wr_events = [], wr_server_id = None, wr_enabled = True,
      wr_allow_http = False, wr_failure_count = 0, wr_last_status = [], wr_created_at = 0, wr_updated_at = 0\<rparr>],
      hk_deliveries = [], hk_hook_seq = 1, hk_delivery_seq = 0\<rparr>
    = (\<lparr>hk_hooks = [\<lparr>wr_id = 1, wr_uuid = [], wr_name = [], wr_url = [],
      wr_secret = encrypt_secret whookenv ''0123456789ab'' ''key'' ''token'', wr_events = [], wr_server_id = None, wr_enabled = True,
      wr_allow_http = False, wr_failure_count = 0, wr_last_status = [], wr_created_at = 0, wr_updated_at = 0\<rparr>],
      hk_deliveries = [], hk_hook_seq = 1, hk_delivery_seq = 0\<rparr>, Ok wh)
    \<and> wh_secret wh = encrypt_secret whookenv ''0123456789ab'' ''key'' ''token''"
proof -
  let ?w = "\<lparr>wr_id = 1, wr_uuid = [], wr_name = [], wr_url = [],
      wr_secret = encrypt_secret whookenv ''0123456789ab'' ''key'' ''token'', wr_events = [], wr_server_id = None, wr_enabled = True,
      wr_allow_http = False, wr_failure_count = 0, wr_last_status = [], wr_created_at = 0, wr_updated_at = 0\<rparr>"
  have f: "find_hook \<lparr>hk_hooks = [?w], hk_deliveries = [], hk_hook_seq = 1, hk_delivery_seq = 0\<rparr> 1 = Some ?w" by (simp add: find_hook_def)
  have "wr_secret ?w = encrypt_secret whookenv ''0123456789ab'' ''key'' ''token''" by simp
  from lost_master_key_unnoticed [OF f this, of "[]" 6 "[]" 0] show ?thesis by blast
qed

theorem ring_refines_history_witness:
  "recent_event_since (ring_of [\<lparr>re_event = ''server.stop'', re_server_id = Some 3, re_at = 5\<rparr>]) ''server.stop'' (Some 3) 4 7"
proof -
  let ?h = "[\<lparr>re_event = ''server.stop'', re_server_id = Some 3, re_at = 5\<rparr>]"
  have "sorted (map re_at ?h)" "\<forall>e\<in>set ?h. re_at e \<le> 7" "length (filter (\<lambda>e. \<not> expired_at 7 e) ?h) \<le> EVENT_REGISTRY_CAP"
    by (simp_all add: EVENT_REGISTRY_CAP_def)
  from ring_refines_history [OF this, of "''server.stop''" "Some 3" 4] show ?thesis
    by (simp add: visible_event_def expired_at_def EVENT_REGISTRY_TTL_def)
qed

end
