(* ===== verification/Deliveries.thy ===== *)
theory Deliveries
  imports Webhooks
begin

text \<open>
  The webhook bus (\<open>src/src/services/webhooks.rs\<close>), second part: the delivery queue with its pending cap,
  leases, retries and circuit breaker, and the pruning of its history. The receiving servers' answers and
  the order in which concurrent posts finish are arbitrary.
\<close>

section \<open>Enqueueing\<close>

definition MAX_PENDING_PER_WEBHOOK :: nat where "MAX_PENDING_PER_WEBHOOK = 500"
definition MAX_PAYLOAD_BYTES :: nat where "MAX_PAYLOAD_BYTES = 64 * 1024"

definition pending_count :: "hook_db \<Rightarrow> int \<Rightarrow> nat" where
  "pending_count d wid = count_rows (\<lambda>v. dv_webhook v = wid \<and> dv_status v = Pending) (hk_deliveries d)"

definition new_delivery :: "int \<Rightarrow> string \<Rightarrow> string \<Rightarrow> instant \<Rightarrow> int \<Rightarrow> delivery" where
  "new_delivery wid event payload now i =
     \<lparr>dv_id = i, dv_webhook = wid, dv_event = event, dv_payload = payload, dv_attempt = 0, dv_status = Pending,
      dv_response_code = None, dv_error = [], dv_next_attempt_at = Some (timestamp now), dv_created_at = now, dv_delivered_at = None\<rparr>"

definition insert_delivery :: "int \<Rightarrow> string \<Rightarrow> string \<Rightarrow> instant \<Rightarrow> hook_db \<Rightarrow> hook_db" where
  "insert_delivery wid event payload now d =
     d\<lparr>hk_deliveries := hk_deliveries d @ [new_delivery wid event payload now (hk_delivery_seq d + 1)],
       hk_delivery_seq := hk_delivery_seq d + 1\<rparr>"

definition subscribed :: "hook_env \<Rightarrow> string \<Rightarrow> int option \<Rightarrow> webhook_row \<Rightarrow> bool" where
  "subscribed env event server_id w \<longleftrightarrow>
     (wr_server_id w = None \<or> wr_server_id w = server_id)
     \<and> list_ex (\<lambda>p. event_matches p event) (case he_parse env (wr_events w) of Some ps \<Rightarrow> ps | None \<Rightarrow> [])"

fun enqueue_all :: "hook_env \<Rightarrow> string \<Rightarrow> int option \<Rightarrow> string \<Rightarrow> instant \<Rightarrow> webhook_row list \<Rightarrow> hook_db \<Rightarrow> hook_db \<times> nat" where
  "enqueue_all env event server_id payload now [] d = (d, 0)"
| "enqueue_all env event server_id payload now (w # ws) d =
     (if \<not> subscribed env event server_id w \<or> MAX_PENDING_PER_WEBHOOK \<le> pending_count d (wr_id w)
      then enqueue_all env event server_id payload now ws d
      else let (d', n) = enqueue_all env event server_id payload now ws (insert_delivery (wr_id w) event payload now d)
           in (d', n + 1))"

definition webhook_emit ::
  "hook_env \<Rightarrow> string \<Rightarrow> int option \<Rightarrow> string \<Rightarrow> instant \<Rightarrow> instant \<Rightarrow> registry_entry list \<Rightarrow> hook_db
    \<Rightarrow> registry_entry list \<times> hook_db \<times> nat" where
  "webhook_emit env event server_id payload now now2 ring d =
     (hook_record_event event server_id now ring,
      if MAX_PAYLOAD_BYTES < length payload then (d, 0)
      else enqueue_all env event server_id payload now2 (filter wr_enabled (hk_hooks d)) d)"


section \<open>Dispatching\<close>

definition MAX_ATTEMPTS :: int where "MAX_ATTEMPTS = 5"
definition BACKOFF_BASE_S :: int where "BACKOFF_BASE_S = 30"
definition HTTP_TIMEOUT :: int where "HTTP_TIMEOUT = 10"
definition CLAIM_LEASE_MARGIN_S :: int where "CLAIM_LEASE_MARGIN_S = 60"
definition CONNECT_MARGIN_S :: int where "CONNECT_MARGIN_S = 5"
definition BREAKER_THRESHOLD :: int where "BREAKER_THRESHOLD = 20"

definition delivery_due :: "int \<Rightarrow> delivery \<Rightarrow> bool" where
  "delivery_due now v \<longleftrightarrow> dv_status v = Pending \<and> (case dv_next_attempt_at v of None \<Rightarrow> True | Some t \<Rightarrow> t \<le> now)"

definition due_rows :: "int \<Rightarrow> nat \<Rightarrow> hook_db \<Rightarrow> delivery list" where
  "due_rows now limit d = take limit (sort_key dv_id (filter (delivery_due now) (hk_deliveries d)))"

definition lease_until :: "int \<Rightarrow> nat \<Rightarrow> int" where
  "lease_until now limit = now + CLAIM_LEASE_MARGIN_S + int limit * (HTTP_TIMEOUT + CONNECT_MARGIN_S)"

text \<open>One conditional update: the due rows are returned and leased.\<close>

definition claim_due :: "int \<Rightarrow> nat \<Rightarrow> hook_db \<Rightarrow> hook_db \<times> delivery list" where
  "claim_due now limit d =
     (let rows = due_rows now limit d
      in (d\<lparr>hk_deliveries := update_rows (\<lambda>v. dv_id v \<in> dv_id ` set rows)
              (\<lambda>v. v\<lparr>dv_next_attempt_at := Some (lease_until now limit)\<rparr>) (hk_deliveries d)\<rparr>, rows))"

type_synonym endpoints = "(int, string \<times> string option \<times> bool) hmap"

fun snapshot_endpoints ::
  "hook_env \<Rightarrow> (int \<Rightarrow> string) \<Rightarrow> instant \<Rightarrow> string option \<Rightarrow> webhook_row list \<Rightarrow> hook_db \<times> endpoints \<Rightarrow> hook_db \<times> endpoints" where
  "snapshot_endpoints env nonces now key [] acc = acc"
| "snapshot_endpoints env nonces now key (w # ws) (d, m) =
     (case secret_for_row env (nonces (wr_id w)) now d (wr_id w) (wr_secret w) key of
        (d1, r) \<Rightarrow> snapshot_endpoints env nonces now key ws
          (d1, hm_insert (wr_id w) (wr_url w, (case r of Ok secret \<Rightarrow> Some secret | Err _ \<Rightarrow> None), wr_allow_http w) m))"

datatype endpoint_slot = Ready "(ip \<times> nat) list" url string | Unavailable string | Deleted

definition secret_lost :: string where
  "secret_lost = ''webhook secret cannot be decrypted with the configured webhook_master_key''"

text \<open>Endpoints are resolved once per batch; a batch sees one answer of the resolver per host.\<close>

definition endpoint_of :: "hook_env \<Rightarrow> resolver \<Rightarrow> endpoints \<Rightarrow> int \<Rightarrow> endpoint_slot" where
  "endpoint_of env lookup m wid =
     (case hm_get m wid of
        Some (url, Some secret, allow_http) \<Rightarrow>
          (case client_for_target_opts (he_url env) lookup url allow_http of
             Ok (addrs, target) \<Rightarrow> Ready addrs target secret
           | Err e \<Rightarrow> Unavailable (he_err_text env e))
      | Some (_, None, _) \<Rightarrow> Unavailable secret_lost
      | None \<Rightarrow> Deleted)"

record hook_request =
  hr_addrs :: "(ip \<times> nat) list"
  hr_target :: url
  hr_event :: string
  hr_delivery :: string
  hr_timestamp :: string
  hr_signature :: string
  hr_body :: string

datatype delivery_outcome = Accepted int | Rejected "int option" string

definition hook_request_for :: "hook_env \<Rightarrow> int \<Rightarrow> delivery \<Rightarrow> (ip \<times> nat) list \<Rightarrow> url \<Rightarrow> string \<Rightarrow> hook_request" where
  "hook_request_for env ts v addrs target secret =
     \<lparr>hr_addrs = addrs, hr_target = target, hr_event = dv_event v, hr_delivery = show_int (dv_id v),
      hr_timestamp = show_int ts, hr_signature = ''sha256='' @ webhook_sign env secret (dv_payload v) ts, hr_body = dv_payload v\<rparr>"

text \<open>\<open>post\<close> is the other side: a status code, or the text of a connection error.\<close>

definition deliver :: "hook_env \<Rightarrow> (hook_request \<Rightarrow> (string, int) result) \<Rightarrow> int \<Rightarrow> delivery \<Rightarrow> endpoint_slot \<Rightarrow> delivery_outcome" where
  "deliver env post ts v slot =
     (case slot of
        Ready addrs target secret \<Rightarrow>
          (case post (hook_request_for env ts v addrs target secret) of
             Ok status \<Rightarrow> if 200 \<le> status \<and> status < 300 then Accepted status else Rejected (Some status) (''HTTP '' @ show_int status)
           | Err e \<Rightarrow> Rejected None e)
      | Unavailable e \<Rightarrow> Rejected None e
      | Deleted \<Rightarrow> Rejected None ''webhook deleted or disabled'')"

definition backoff_s :: "int \<Rightarrow> int" where
  "backoff_s attempt = BACKOFF_BASE_S * 2 ^ nat (min attempt (MAX_ATTEMPTS - 1))"

definition trip_breaker :: "string \<Rightarrow> instant \<Rightarrow> webhook_row \<Rightarrow> webhook_row" where
  "trip_breaker err now w = (if wr_enabled w \<and> BREAKER_THRESHOLD \<le> wr_failure_count w
     then w\<lparr>wr_enabled := False, wr_last_status := err, wr_updated_at := now\<rparr> else w)"

definition count_failure :: "string \<Rightarrow> webhook_row \<Rightarrow> webhook_row" where
  "count_failure err w = w\<lparr>wr_failure_count := wr_failure_count w + 1, wr_last_status := err\<rparr>"

definition trips :: "int \<Rightarrow> hook_db \<Rightarrow> bool" where
  "trips wid d \<longleftrightarrow> exists_row (\<lambda>w. wr_id w = wid \<and> wr_enabled w \<and> BREAKER_THRESHOLD \<le> wr_failure_count w) (hk_hooks d)"

definition finish_delivery :: "instant \<Rightarrow> int \<Rightarrow> delivery_outcome \<Rightarrow> delivery \<Rightarrow> delivery" where
  "finish_delivery now attempt out v =
     (case out of
        Accepted status \<Rightarrow> v\<lparr>dv_status := Delivered, dv_response_code := Some status, dv_error := [], dv_delivered_at := Some now\<rparr>
      | Rejected status err \<Rightarrow>
          if MAX_ATTEMPTS \<le> attempt + 1 then
            v\<lparr>dv_status := Failed, dv_attempt := attempt + 1, dv_response_code := status, dv_error := err, dv_delivered_at := Some now\<rparr>
          else
            v\<lparr>dv_status := Pending, dv_attempt := attempt + 1, dv_response_code := status, dv_error := err,
              dv_next_attempt_at := Some (timestamp now + backoff_s attempt)\<rparr>)"

text \<open>The result of one delivery; the flag says that the breaker has just disabled the subscription.\<close>

definition record_result :: "instant \<Rightarrow> int \<Rightarrow> int \<Rightarrow> int \<Rightarrow> delivery_outcome \<Rightarrow> hook_db \<Rightarrow> hook_db \<times> bool" where
  "record_result now did wid attempt out d =
     (let d1 = on_delivery did (finish_delivery now attempt out) d in
      case out of
        Accepted status \<Rightarrow> (on_hook wid (\<lambda>w. w\<lparr>wr_last_status := show_int status, wr_failure_count := 0\<rparr>) d1, False)
      | Rejected None err \<Rightarrow>
          (let d2 = on_hook wid (count_failure err) d1 in (on_hook wid (trip_breaker err now) d2, trips wid d2))
      | Rejected (Some _) err \<Rightarrow> (on_hook wid (\<lambda>w. w\<lparr>wr_last_status := err\<rparr>) d1, False))"

fun record_results :: "instant \<Rightarrow> (delivery \<times> delivery_outcome) list \<Rightarrow> hook_db \<Rightarrow> hook_db \<times> int list" where
  "record_results now [] d = (d, [])"
| "record_results now ((v, out) # rest) d =
     (let (d1, disabled) = record_result now (dv_id v) (dv_webhook v) (dv_attempt v) out d;
          (d2, ns) = record_results now rest d1
      in (d2, if disabled then dv_webhook v # ns else ns))"

text \<open>
  One sweep; \<open>completion\<close> is the order in which the concurrent posts finish. The result has the processed
  count and the subscriptions the administrator is told about.
\<close>

definition dispatch_due ::
  "hook_env \<Rightarrow> (int \<Rightarrow> string) \<Rightarrow> string option \<Rightarrow> resolver \<Rightarrow> (hook_request \<Rightarrow> (string, int) result)
    \<Rightarrow> ((delivery \<times> delivery_outcome) list \<Rightarrow> (delivery \<times> delivery_outcome) list)
    \<Rightarrow> instant \<Rightarrow> instant \<Rightarrow> nat \<Rightarrow> hook_db \<Rightarrow> hook_db \<times> nat \<times> int list" where
  "dispatch_due env nonces key lookup post completion now now2 limit d =
     (let (d1, claimed) = claim_due (timestamp now) limit d in
      if claimed = [] then (d1, 0, [])
      else
        let (d2, m) = snapshot_endpoints env nonces now key (filter wr_enabled (hk_hooks d1)) (d1, []);
            outs = completion (map (\<lambda>v. (v, deliver env post (timestamp now2) v (endpoint_of env lookup m (dv_webhook v)))) claimed);
            (d3, ns) = record_results now2 outs d2
        in (d3, length outs, ns))"

section \<open>History\<close>

definition prunable :: "instant \<Rightarrow> delivery \<Rightarrow> bool" where
  "prunable ts v \<longleftrightarrow> dv_status v \<noteq> Pending \<and> (case dv_delivered_at v of Some t \<Rightarrow> t < ts | None \<Rightarrow> False)"

text \<open>Batches of 5000 until a batch is empty.\<close>

definition prune_batch :: "instant \<Rightarrow> delivery list \<Rightarrow> delivery \<Rightarrow> bool" where
  "prune_batch ts rows v \<longleftrightarrow> prunable ts v \<and> dv_id v \<in> dv_id ` set (take 5000 (filter (prunable ts) rows))"

function prune_deliveries :: "instant \<Rightarrow> nat \<Rightarrow> hook_db \<Rightarrow> hook_db \<times> nat" where
  "prune_deliveries ts sofar d =
     (let n = count_rows (prune_batch ts (hk_deliveries d)) (hk_deliveries d) in
      if n = 0 then (d, sofar)
      else prune_deliveries ts (sofar + n)
             (d\<lparr>hk_deliveries := filter (\<lambda>v. \<not> prune_batch ts (hk_deliveries d) v) (hk_deliveries d)\<rparr>))"
  by pat_completeness auto
termination
proof (relation "measure (\<lambda>(ts, sofar, d). length (hk_deliveries d))", goal_cases)
  case (2 ts sofar d n)
  then obtain v where "v \<in> set (hk_deliveries d)" "prune_batch ts (hk_deliveries d) v"
    by (auto simp: count_rows_def filter_empty_conv)
  then show ?case using length_filter_less [of v "hk_deliveries d" "\<lambda>v. \<not> prune_batch ts (hk_deliveries d) v"] by simp
qed simp

declare prune_deliveries.simps [simp del]

definition list_deliveries :: "int \<Rightarrow> int \<Rightarrow> hook_db \<Rightarrow> delivery list" where
  "list_deliveries wid limit d =
     take (nat (clamp_to 1 200 limit)) (rev (sort_key dv_id (filter (\<lambda>v. dv_webhook v = wid) (hk_deliveries d))))"

section \<open>Emission\<close>

lemma pending_insert:
  "pending_count (insert_delivery wid event payload now d) x = pending_count d x + (if x = wid then 1 else 0)"
  by (simp add: pending_count_def insert_delivery_def count_rows_def new_delivery_def)

lemma enumerate_shift:
  "map (\<lambda>(i, x). f (c + (2 + int i)) x) (enumerate n xs) = map (\<lambda>(i, x). f (c + (1 + int i)) x) (enumerate (Suc n) xs)"
proof (induction xs arbitrary: n)
  case (Cons x xs)
  have "f (c + (2 + int n)) x = f (c + (1 + int (Suc n))) x" by (simp add: algebra_simps)
  then show ?case using Cons.IH [of "Suc n"] by (simp only: enumerate_simps list.map prod.case)
qed simp

lemma enqueue_all_spec:
  assumes "distinct (map wr_id ws)"
  shows "enqueue_all env event sid payload now ws d =
    (let ts = filter (\<lambda>w. subscribed env event sid w \<and> pending_count d (wr_id w) < MAX_PENDING_PER_WEBHOOK) ws in
     (d\<lparr>hk_deliveries := hk_deliveries d @ map (\<lambda>(i, w). new_delivery (wr_id w) event payload now (hk_delivery_seq d + 1 + int i)) (enumerate 0 ts),
        hk_delivery_seq := hk_delivery_seq d + int (length ts)\<rparr>, length ts))"
  using assms
proof (induction ws arbitrary: d)
  case (Cons w ws)
  let ?P = "\<lambda>d w. subscribed env event sid w \<and> pending_count d (wr_id w) < MAX_PENDING_PER_WEBHOOK"
  show ?case
  proof (cases "?P d w")
    case True
    let ?d = "insert_delivery (wr_id w) event payload now d"
    have "\<forall>x\<in>set ws. wr_id x \<noteq> wr_id w" using Cons.prems by (auto simp: image_iff)
    then have ts: "filter (?P ?d) ws = filter (?P d) ws" by (auto simp: pending_insert intro: filter_cong)
    note sh = enumerate_shift [of "\<lambda>i x. new_delivery (wr_id x) event payload now i" "hk_delivery_seq d" 0 "filter (?P d) ws"]
    show ?thesis using True Cons.IH [of ?d] Cons.prems ts sh
      by (simp add: Let_def not_le insert_delivery_def add.assoc)
  next
    case False
    then show ?thesis using Cons.IH [of d] Cons.prems by (auto simp: Let_def not_le)
  qed
qed simp

text \<open>
  An event of deliverable size adds exactly one pending delivery, due now, for every enabled subscription
  that matches the event and the server and is not backlogged, in table order and with consecutive fresh ids;
  an oversized event adds none. Either way it is remembered for the schedule gates.
\<close>
theorem emit_exact:
  assumes "distinct (map wr_id (hk_hooks d))"
  shows "webhook_emit env event sid payload now now2 ring d =
    (hook_record_event event sid now ring,
     if MAX_PAYLOAD_BYTES < length payload then (d, 0)
     else let ts = filter (\<lambda>w. wr_enabled w \<and> subscribed env event sid w \<and> pending_count d (wr_id w) < MAX_PENDING_PER_WEBHOOK) (hk_hooks d) in
       (d\<lparr>hk_deliveries := hk_deliveries d @ map (\<lambda>(i, w). new_delivery (wr_id w) event payload now2 (hk_delivery_seq d + 1 + int i)) (enumerate 0 ts),
          hk_delivery_seq := hk_delivery_seq d + int (length ts)\<rparr>, length ts))"
proof -
  have "distinct (map wr_id (filter wr_enabled (hk_hooks d)))" using assms by (simp add: distinct_map_filter)
  from enqueue_all_spec [OF this] show ?thesis by (simp add: webhook_emit_def Let_def conj_commute)
qed

section \<open>Retries\<close>

lemma backoff_values: "backoff_s 0 = 30" "backoff_s 1 = 60" "backoff_s 2 = 120" "backoff_s 3 = 240"
  by (simp_all add: backoff_s_def BACKOFF_BASE_S_def MAX_ATTEMPTS_def)

text \<open>A delivery that fails at the given times, claimed each time it falls due.\<close>

fun fail_run :: "(instant \<times> int option \<times> string) list \<Rightarrow> delivery \<Rightarrow> delivery" where
  "fail_run [] v = v"
| "fail_run ((t, status, err) # rest) v =
     (if delivery_due (timestamp t) v then fail_run rest (finish_delivery t (dv_attempt v) (Rejected status err) v) else fail_run rest v)"

lemma due_after_failure:
  "dv_attempt v = a \<Longrightarrow> a + 1 < MAX_ATTEMPTS \<Longrightarrow>
    delivery_due x (finish_delivery t a (Rejected status err) v) \<longleftrightarrow> timestamp t + backoff_s a \<le> x"
  by (simp add: finish_delivery_def delivery_due_def)

text \<open>
  A delivery that keeps failing is tried five times and no more. After the first four failures it falls
  due again 30, 60, 120 and 240 seconds later and not a second earlier; the fifth failure is final.
\<close>
theorem failing_delivery_gives_up:
  assumes "dv_status v = Pending" "dv_attempt v = 0" "dv_next_attempt_at v = Some n0"
    and "n0 \<le> timestamp t1" "timestamp t1 + 30 \<le> timestamp t2" "timestamp t2 + 60 \<le> timestamp t3"
      "timestamp t3 + 120 \<le> timestamp t4" "timestamp t4 + 240 \<le> timestamp t5"
  shows "(\<forall>x. delivery_due x (fail_run [(t1, e1)] v) \<longleftrightarrow> timestamp t1 + 30 \<le> x)
    \<and> (\<forall>x. delivery_due x (fail_run [(t1, e1), (t2, e2)] v) \<longleftrightarrow> timestamp t2 + 60 \<le> x)
    \<and> (\<forall>x. delivery_due x (fail_run [(t1, e1), (t2, e2), (t3, e3)] v) \<longleftrightarrow> timestamp t3 + 120 \<le> x)
    \<and> (\<forall>x. delivery_due x (fail_run [(t1, e1), (t2, e2), (t3, e3), (t4, e4)] v) \<longleftrightarrow> timestamp t4 + 240 \<le> x)
    \<and> dv_status (fail_run ([(t1, e1), (t2, e2), (t3, e3), (t4, e4), (t5, e5)] @ later) v) = Failed
    \<and> dv_attempt (fail_run ([(t1, e1), (t2, e2), (t3, e3), (t4, e4), (t5, e5)] @ later) v) = 5"
proof -
  have step: "fail_run ((t, e) # rest) v = fail_run rest (finish_delivery t (dv_attempt v) (Rejected (fst e) (snd e)) v)"
    if "delivery_due (timestamp t) v" for t e rest v using that by (cases e) simp
  have att: "dv_attempt (finish_delivery t a (Rejected s m) u) = a + 1" for t a s m u by (simp add: finish_delivery_def)
  have due: "a < 4 \<Longrightarrow> delivery_due x (finish_delivery t a (Rejected s m) u) \<longleftrightarrow> timestamp t + backoff_s a \<le> x" for a x t s m u
    by (simp add: finish_delivery_def delivery_due_def MAX_ATTEMPTS_def)
  have fin: "dv_status (finish_delivery t 4 (Rejected s m) u) = Failed" for t s m u by (simp add: finish_delivery_def MAX_ATTEMPTS_def)
  have final: "dv_status u = Failed \<Longrightarrow> fail_run xs u = u" for xs u by (induction xs) (auto simp: delivery_due_def)
  have d0: "delivery_due (timestamp t1) v" using assms by (simp add: delivery_due_def)
  show ?thesis using assms d0 by (simp add: step att due backoff_values fin final)
qed

section \<open>The circuit breaker\<close>

definition hook_effect :: "instant \<Rightarrow> delivery_outcome \<Rightarrow> webhook_row \<Rightarrow> webhook_row" where
  "hook_effect now out w = (case out of
     Accepted status \<Rightarrow> w\<lparr>wr_last_status := show_int status, wr_failure_count := 0\<rparr>
   | Rejected None err \<Rightarrow> trip_breaker err now (count_failure err w)
   | Rejected (Some _) err \<Rightarrow> w\<lparr>wr_last_status := err\<rparr>)"

lemma hook_effect_id [simp]: "wr_id (hook_effect now out w) = wr_id w" "wr_id (count_failure err w) = wr_id w"
    "wr_id (trip_breaker err now w) = wr_id w"
  by (auto simp: hook_effect_def trip_breaker_def count_failure_def split: delivery_outcome.splits option.splits)

lemma find_hook_on_delivery [simp]: "find_hook (on_delivery i f d) j = find_hook d j" "hk_hooks (on_delivery i f d) = hk_hooks d"
  by (simp_all add: find_hook_def on_delivery_def)

lemma find_hook_id: "find_hook d i = Some w \<Longrightarrow> wr_id w = i"
  using find_Some_set by (fastforce simp: find_hook_def)

lemma record_result_hook:
  "find_hook (fst (record_result now did wid a out d)) wid = map_option (hook_effect now out) (find_hook d wid)"
proof -
  have [simp]: "(if wr_id w = wid then f w else w) = f w" if "find_hook d wid = Some w" for f w using find_hook_id [OF that] by simp
  show ?thesis
    by (cases "find_hook d wid"; cases out)
      (auto simp: record_result_def Let_def find_on_hook hook_effect_def dest: find_hook_id split: option.splits)
qed

text \<open>Connection failures since the last accepted delivery, and whether they ever reached the threshold.\<close>

fun conn_failures :: "int \<Rightarrow> delivery_outcome list \<Rightarrow> int" where
  "conn_failures n [] = n"
| "conn_failures n (Accepted _ # os) = conn_failures 0 os"
| "conn_failures n (Rejected None _ # os) = conn_failures (n + 1) os"
| "conn_failures n (Rejected (Some _) _ # os) = conn_failures n os"

definition record_run :: "int \<Rightarrow> (instant \<times> int \<times> int \<times> delivery_outcome) list \<Rightarrow> hook_db \<Rightarrow> hook_db" where
  "record_run wid rs d = foldl (\<lambda>d (now, did, a, out). fst (record_result now did wid a out d)) d rs"

lemma record_run_snoc: "record_run wid (rs @ [(now, did, a, out)]) d = fst (record_result now did wid a out (record_run wid rs d))"
  by (simp add: record_run_def)

lemma conn_failures_snoc: "conn_failures n (os @ [x]) = (case x of Accepted _ \<Rightarrow> 0 | Rejected None _ \<Rightarrow> conn_failures n os + 1
    | Rejected (Some _) _ \<Rightarrow> conn_failures n os)"
  by (induction n os rule: conn_failures.induct) (auto split: delivery_outcome.splits option.splits)

text \<open>
  Starting from a fresh enabled subscription, it stays enabled exactly while no twenty connection
  failures came without an accepted delivery in between; answers with an error status neither count nor
  reset.
\<close>
theorem breaker_exact:
  assumes "find_hook d wid = Some w" "wr_enabled w" "wr_failure_count w = 0"
  shows "\<exists>w'. find_hook (record_run wid rs d) wid = Some w'
    \<and> wr_failure_count w' = conn_failures 0 (map (snd \<circ> snd \<circ> snd) rs)
    \<and> (wr_enabled w' \<longleftrightarrow> (\<forall>k\<le>length rs. conn_failures 0 (map (snd \<circ> snd \<circ> snd) (take k rs)) < BREAKER_THRESHOLD))"
proof (induction rs rule: rev_induct)
  case Nil
  then show ?case using assms by (simp add: record_run_def BREAKER_THRESHOLD_def)
next
  case (snoc r rs)
  let ?o = "\<lambda>rs. map (snd \<circ> snd \<circ> snd) rs" and ?t = "\<lambda>rs. \<forall>k\<le>length rs. conn_failures 0 (map (snd \<circ> snd \<circ> snd) (take k rs)) < BREAKER_THRESHOLD"
  obtain now did a out where r: "r = (now, did, a, out)" by (cases r) auto
  obtain w' where w': "find_hook (record_run wid rs d) wid = Some w'" "wr_failure_count w' = conn_failures 0 (?o rs)"
      "wr_enabled w' \<longleftrightarrow> ?t rs" using snoc.IH by blast
  have t: "?t (rs @ [r]) \<longleftrightarrow> ?t rs \<and> conn_failures 0 (?o (rs @ [r])) < BREAKER_THRESHOLD"
    by (auto simp: le_Suc_eq)
  have last: "?t rs \<Longrightarrow> conn_failures 0 (?o rs) < BREAKER_THRESHOLD" by (metis order_refl take_all)
  have e: "find_hook (record_run wid (rs @ [r]) d) wid = Some (hook_effect now out w')"
    using w'(1) by (simp add: r record_run_snoc record_result_hook)
  have "wr_failure_count (hook_effect now out w') = conn_failures 0 (?o (rs @ [r]))"
    using w'(2) by (simp add: r hook_effect_def conn_failures_snoc count_failure_def trip_breaker_def split: delivery_outcome.splits option.splits)
  moreover have "wr_enabled (hook_effect now out w') \<longleftrightarrow> ?t (rs @ [r])"
    unfolding t using w'(2,3) last
    by (auto simp: r hook_effect_def conn_failures_snoc count_failure_def trip_breaker_def BREAKER_THRESHOLD_def
        split: delivery_outcome.splits option.splits)
  ultimately show ?case using e by blast
qed

text \<open>
  The failure count survives disabling and re-enabling, and grows with every queued delivery of a disabled
  subscription. So after the breaker has tripped and an administrator has enabled the subscription again, a
  single connection failure disables it at once.
\<close>
theorem reenabled_hook_trips_at_once:
  assumes "find_hook d wid = Some w" "BREAKER_THRESHOLD \<le> wr_failure_count w + 1"
    and "hm_get m wid = None"
    and "webhook_set_enabled env nonce now None wid True d = (d1, Ok wh)"
    and "record_result now2 did wid a (Rejected None err) d1 = (d2, disabled)"
  shows "disabled \<and> (\<exists>w'. find_hook d2 wid = Some w' \<and> \<not> wr_enabled w')
    \<and> deliver env post ts v (endpoint_of env lookup m wid) = Rejected None ''webhook deleted or disabled''"
proof -
  let ?w = "w\<lparr>wr_enabled := True, wr_updated_at := now\<rparr>"
  have i: "wr_id w = wid" by (rule find_hook_id [OF assms(1)])
  have d1: "d1 = on_hook wid (\<lambda>w. w\<lparr>wr_enabled := True, wr_updated_at := now\<rparr>) d"
    using assms(1,4) i by (auto simp: webhook_set_enabled_def webhook_get_def find_on_hook raw_to_webhook_def secret_for_row_def)
  have f1: "find_hook d1 wid = Some ?w" using assms(1) i by (simp add: d1 find_on_hook)
  have f2: "find_hook d2 wid = Some (hook_effect now2 (Rejected None err) ?w)"
    using record_result_hook [of now2 did wid a "Rejected None err" d1] assms(5) f1 by simp
  have "\<not> wr_enabled (hook_effect now2 (Rejected None err) ?w)"
    using assms(2) by (simp add: hook_effect_def trip_breaker_def count_failure_def)
  moreover have "disabled"
  proof -
    let ?d = "on_hook wid (count_failure err) (on_delivery did (finish_delivery now2 a (Rejected None err)) d1)"
    have "find_hook ?d wid = Some (count_failure err ?w)" using f1 i by (simp add: find_on_hook)
    then have "count_failure err ?w \<in> set (hk_hooks ?d)" using find_Some_set by (fastforce simp: find_hook_def)
    moreover have "wr_id (count_failure err ?w) = wid" "wr_enabled (count_failure err ?w)"
      "BREAKER_THRESHOLD \<le> wr_failure_count (count_failure err ?w)" using assms(2) i by (simp_all add: count_failure_def)
    ultimately have "trips wid ?d" unfolding trips_def exists_row_iff by blast
    then show ?thesis using assms(5) by (simp add: record_result_def Let_def)
  qed
  ultimately show ?thesis using f2 assms(3) by (simp add: endpoint_of_def deliver_def)
qed

section \<open>The queue under interleaved operations\<close>






































lemma finish_ids [simp]: "dv_id (finish_delivery now a out r) = dv_id r" "dv_webhook (finish_delivery now a out r) = dv_webhook r"
  by (auto simp: finish_delivery_def split: delivery_outcome.splits)










section \<open>Pruning\<close>

lemma count_rows_split: "(\<And>v. B v \<Longrightarrow> P v) \<Longrightarrow> count_rows B xs + count_rows P (filter (\<lambda>v. \<not> B v) xs) = count_rows P xs"
  unfolding count_rows_def by (induction xs) auto

text \<open>
  Pruning in batches ends, and deletes exactly the finished deliveries older than the cut-off, keeping
  everything pending or younger; the count it returns is the number of rows it deleted.
\<close>
theorem prune_exact:
  "prune_deliveries ts n d =
     (d\<lparr>hk_deliveries := filter (\<lambda>v. \<not> prunable ts v) (hk_deliveries d)\<rparr>, n + count_rows (prunable ts) (hk_deliveries d))"
proof (induction ts n d rule: prune_deliveries.induct)
  case (1 ts n d)
  let ?B = "prune_batch ts (hk_deliveries d)"
  let ?d = "d\<lparr>hk_deliveries := filter (\<lambda>v. \<not> ?B v) (hk_deliveries d)\<rparr>"
  have sub: "?B v \<Longrightarrow> prunable ts v" for v by (simp add: prune_batch_def)
  show ?case
  proof (cases "count_rows ?B (hk_deliveries d) = 0")
    case True
    have e: "prune_deliveries ts n d = (d, n)" using True by (subst prune_deliveries.simps) simp
    have "\<not> prunable ts v" if mem: "v \<in> set (hk_deliveries d)" for v
    proof
      assume p: "prunable ts v"
      then obtain x xs where x: "filter (prunable ts) (hk_deliveries d) = x # xs" 
        using mem by (cases "filter (prunable ts) (hk_deliveries d)") (auto simp: filter_empty_conv)
      have "x \<in> set (filter (prunable ts) (hk_deliveries d))" by (simp only: x list.set_intros)
      then have "x \<in> set (hk_deliveries d)" "prunable ts x" by simp_all
      moreover have "dv_id x \<in> dv_id ` set (take 5000 (filter (prunable ts) (hk_deliveries d)))" by (simp add: x)
      ultimately show False using True by (auto simp: count_rows_def filter_empty_conv prune_batch_def)
    qed
    then have "filter (\<lambda>v. \<not> prunable ts v) (hk_deliveries d) = hk_deliveries d" "filter (prunable ts) (hk_deliveries d) = []"
      by (simp_all add: filter_True filter_False)
    then show ?thesis by (simp add: e count_rows_def)
  next
    case False
    have e: "prune_deliveries ts n d = prune_deliveries ts (n + count_rows ?B (hk_deliveries d)) ?d"
      using False by (subst prune_deliveries.simps) (simp only: Let_def if_False)
    have c: "count_rows ?B (hk_deliveries d) + count_rows (prunable ts) (filter (\<lambda>v. \<not> ?B v) (hk_deliveries d))
        = count_rows (prunable ts) (hk_deliveries d)"
      using sub by (rule count_rows_split)
    have f: "filter (\<lambda>v. \<not> prunable ts v) (filter (\<lambda>v. \<not> ?B v) (hk_deliveries d)) = filter (\<lambda>v. \<not> prunable ts v) (hk_deliveries d)"
      using sub by (auto intro: filter_cong)
    show ?thesis unfolding e 1 [OF refl False] using c f by simp
  qed
qed

section \<open>Witnesses\<close>

definition wrow :: webhook_row where
  "wrow = \<lparr>wr_id = 1, wr_uuid = [], wr_name = [], wr_url = ''h'', wr_secret = ''s'', wr_events = plain_json_print [''server.*''],
     wr_server_id = None, wr_enabled = True, wr_allow_http = False, wr_failure_count = 0, wr_last_status = [], wr_created_at = 0, wr_updated_at = 0\<rparr>"

definition wqueue :: hook_db where
  "wqueue = \<lparr>hk_hooks = [wrow], hk_deliveries = [], hk_hook_seq = 1, hk_delivery_seq = 0\<rparr>"


theorem emit_exact_witness:
  "snd (snd (webhook_emit whookenv ''server.stop'' (Some 4) ''{}'' 0 0 [] wqueue)) = 1"
proof -
  have p: "plain_json_parse (plain_json_print [''server.*'']) = Some [''server.*'']" by code_simp
  have m: "event_matches ''server.*'' ''server.stop''" by code_simp
  have sub: "subscribed whookenv ''server.stop'' (Some 4) wrow" using m by (simp add: subscribed_def wrow_def whookenv_def p)
  have w: "hk_hooks wqueue = [wrow]" "wr_enabled wrow" "pending_count wqueue (wr_id wrow) < MAX_PENDING_PER_WEBHOOK"
    by (simp_all add: wqueue_def wrow_def pending_count_def count_rows_def MAX_PENDING_PER_WEBHOOK_def)
  have "distinct (map wr_id (hk_hooks wqueue))" by (simp add: w)
  from emit_exact [OF this, of whookenv "''server.stop''" "Some 4" "''{}''" 0 0 "[]"] show ?thesis
    using sub w by (simp add: MAX_PAYLOAD_BYTES_def Let_def)
qed

theorem failing_delivery_gives_up_witness:
  "dv_status (fail_run [(0, None, []), (30 * 10 ^ 9, None, []), (90 * 10 ^ 9, None, []), (210 * 10 ^ 9, None, []), (450 * 10 ^ 9, None, [])]
     (new_delivery 1 ''e'' ''{}'' 0 1)) = Failed"
proof -
  have v: "dv_status (new_delivery 1 ''e'' ''{}'' 0 1) = Pending" "dv_attempt (new_delivery 1 ''e'' ''{}'' 0 1) = 0"
    "dv_next_attempt_at (new_delivery 1 ''e'' ''{}'' 0 1) = Some 0" by (simp_all add: new_delivery_def timestamp_def)
  have t: "0 \<le> timestamp 0" "timestamp 0 + 30 \<le> timestamp (30 * 10 ^ 9)" "timestamp (30 * 10 ^ 9) + 60 \<le> timestamp (90 * 10 ^ 9)"
    "timestamp (90 * 10 ^ 9) + 120 \<le> timestamp (210 * 10 ^ 9)" "timestamp (210 * 10 ^ 9) + 240 \<le> timestamp (450 * 10 ^ 9)"
    by (simp_all add: timestamp_def)
  from failing_delivery_gives_up [OF v t, of "(None, [])" "(None, [])" "(None, [])" "(None, [])" "(None, [])" "[]"]
  show ?thesis unfolding append_Nil2 by blast
qed

theorem breaker_exact_witness:
  "\<exists>w'. find_hook (record_run 1 (replicate 20 (0, 0, 0, Rejected None [])) wqueue) 1 = Some w' \<and> \<not> wr_enabled w'"
proof -
  have w: "find_hook wqueue 1 = Some wrow" "wr_enabled wrow" "wr_failure_count wrow = 0" by (simp_all add: wqueue_def wrow_def find_hook_def)
  have n: "conn_failures k (replicate m (Rejected None [])) = k + int m" for k m by (induction m arbitrary: k) simp_all
  from breaker_exact [OF w, of "replicate 20 (0, 0, 0, Rejected None [])"]
  obtain w' where w': "find_hook (record_run 1 (replicate 20 (0, 0, 0, Rejected None [])) wqueue) 1 = Some w'"
      "wr_enabled w' \<longrightarrow> conn_failures 0 (map (snd \<circ> snd \<circ> snd) (take 20 (replicate 20 (0 :: int, 0 :: int, 0 :: int, Rejected None [])))) < BREAKER_THRESHOLD"
    by (metis length_replicate order_refl)
  then show ?thesis using n [of 0 20] by (auto simp: BREAKER_THRESHOLD_def map_replicate simp del: replicate.simps)
qed

theorem reenabled_hook_trips_at_once_witness:
  "\<exists>d1 wh d2. webhook_set_enabled whookenv [] 0 None 1 True (wqueue\<lparr>hk_hooks := [wrow\<lparr>wr_enabled := False, wr_failure_count := 20\<rparr>]\<rparr>) = (d1, Ok wh)
     \<and> record_result 0 0 1 0 (Rejected None []) d1 = (d2, True)"
proof -
  let ?d = "wqueue\<lparr>hk_hooks := [wrow\<lparr>wr_enabled := False, wr_failure_count := 20\<rparr>]\<rparr>"
  have f: "find_hook ?d 1 = Some (wrow\<lparr>wr_enabled := False, wr_failure_count := 20\<rparr>)" by (simp add: find_hook_def wrow_def)
  have c: "BREAKER_THRESHOLD \<le> wr_failure_count (wrow\<lparr>wr_enabled := False, wr_failure_count := 20\<rparr>) + 1" by (simp add: BREAKER_THRESHOLD_def)
  obtain d1 wh where e: "webhook_set_enabled whookenv [] 0 None 1 True ?d = (d1, Ok wh)"
    using f by (simp add: webhook_set_enabled_def webhook_get_def find_on_hook raw_to_webhook_def secret_for_row_def)
  obtain d2 b where r: "record_result 0 0 1 0 (Rejected None []) d1 = (d2, b)" by fastforce
  have "hm_get [] 1 = None" by simp
  from reenabled_hook_trips_at_once [OF f c this e r] e r show ?thesis by auto
qed




end
