(* ===== verification/Console.thy ===== *)
theory Console
  imports Store NodeProtocol
begin

text \<open>
  The console (\<open>src/src/services/console.rs\<close>): the per-server ring of numbered lines with its trailing
  partial line, live events, the snapshot a reconnecting client resumes from, and the log writer with
  its sanitizer and rotation. Text is UTF-8; file-system errors are not modelled.
\<close>

section \<open>Lines\<close>

datatype line_kind = Runtime | Install

definition event_name :: "line_kind \<Rightarrow> string" where
  "event_name k = (case k of Runtime \<Rightarrow> ''console'' | Install \<Rightarrow> ''install'')"

record console_entry =
  ce_text :: string
  ce_kind :: line_kind

record line_buf =
  lb_next_seq :: nat
  lb_last_ok :: nat
  lb_lines :: "(nat \<times> console_entry) list"
  lb_partial :: bool
  lb_partial_kind :: "line_kind option"
  lb_partial_truncated :: bool

definition line_buf_default :: line_buf where
  "line_buf_default = \<lparr>lb_next_seq = 1, lb_last_ok = 0, lb_lines = [], lb_partial = False, lb_partial_kind = None,
     lb_partial_truncated = False\<rparr>"

definition BUFFER_CAP :: nat where "BUFFER_CAP = 500"
definition PARTIAL_CAP :: nat where "PARTIAL_CAP = 64 * 1024"
definition PARTIAL_TRUNC_MARKER :: string where
  "PARTIAL_TRUNC_MARKER = [CHR 0xE2, CHR 0x80, CHR 0xA6] @ ''[truncated]''"

definition is_char_boundary :: "string \<Rightarrow> nat \<Rightarrow> bool" where
  "is_char_boundary s i \<longleftrightarrow> i = 0 \<or> i = length s \<or> i < length s \<and> \<not> cont (s ! i)"

fun floor_char_boundary :: "string \<Rightarrow> nat \<Rightarrow> nat" where
  "floor_char_boundary s 0 = 0"
| "floor_char_boundary s (Suc n) = (if is_char_boundary s (Suc n) then Suc n else floor_char_boundary s n)"

definition merge_partial :: "console_entry \<Rightarrow> bool \<Rightarrow> string \<Rightarrow> console_entry \<times> bool" where
  "merge_partial entry truncated add =
     (if truncated then (entry, True)
      else let room = PARTIAL_CAP - length (ce_text entry) in
        if room < length add then
          (entry\<lparr>ce_text := ce_text entry @ take (floor_char_boundary add room) add @ PARTIAL_TRUNC_MARKER\<rparr>, True)
        else (entry\<lparr>ce_text := ce_text entry @ add\<rparr>, False))"

definition last_seq :: "line_buf \<Rightarrow> nat option" where
  "last_seq b = (if lb_lines b = [] then None else Some (fst (last (lb_lines b))))"

text \<open>The pending partial line: continued by the same stream, sealed by the other one.\<close>

definition take_partial :: "line_kind \<Rightarrow> string \<Rightarrow> nat \<Rightarrow> line_buf \<Rightarrow> line_buf \<times> nat" where
  "take_partial kind part0 complete_count b =
     (if \<not> lb_partial b then (b, 0)
      else if lb_partial_kind b = Some kind then
        (let (lines, now_truncated) =
           (if lb_lines b = [] then ([], lb_partial_truncated b)
            else case merge_partial (snd (last (lb_lines b))) (lb_partial_truncated b) part0 of
                   (e, t) \<Rightarrow> (butlast (lb_lines b) @ [(fst (last (lb_lines b)), e)], t))
         in (b\<lparr>lb_lines := lines, lb_partial_truncated := (now_truncated \<or> lb_partial_truncated b),
               lb_last_ok := (if 1 \<le> complete_count then (case last_seq b of Some q \<Rightarrow> q | None \<Rightarrow> lb_last_ok b) else lb_last_ok b),
               lb_partial := False\<rparr>, 1))
      else (b\<lparr>lb_last_ok := (case last_seq b of Some q \<Rightarrow> q | None \<Rightarrow> lb_last_ok b), lb_partial := False\<rparr>, 0))"

definition push_line :: "console_entry \<Rightarrow> line_buf \<Rightarrow> line_buf" where
  "push_line e b = b\<lparr>lb_lines := lb_lines b @ [(lb_next_seq b, e)], lb_next_seq := lb_next_seq b + 1\<rparr>"

fun push_lines :: "line_kind \<Rightarrow> string list \<Rightarrow> line_buf \<Rightarrow> line_buf" where
  "push_lines kind [] b = b"
| "push_lines kind (part # parts) b =
     (if part = [] then push_lines kind parts b
      else push_lines kind parts ((push_line \<lparr>ce_text = part, ce_kind = kind\<rparr> b)\<lparr>lb_last_ok := lb_next_seq b\<rparr>))"

definition push_tail :: "line_kind \<Rightarrow> string \<Rightarrow> bool \<Rightarrow> line_buf \<Rightarrow> line_buf" where
  "push_tail kind tail already_merged b =
     (let b1 = (if \<not> already_merged \<and> tail \<noteq> [] then
                  case merge_partial \<lparr>ce_text = [], ce_kind = kind\<rparr> False tail of
                    (e, t) \<Rightarrow> (push_line e b)\<lparr>lb_partial_truncated := t\<rparr>
                else b)
      in b1\<lparr>lb_partial := True, lb_partial_kind := Some kind\<rparr>)"

text \<open>The body of \<open>append\<close> between the two evictions.\<close>

definition append_lines :: "string \<Rightarrow> line_kind \<Rightarrow> line_buf \<Rightarrow> line_buf" where
  "append_lines txt kind b =
     (let parts = split_on newline txt;
          complete_count = length parts - 1;
          (b1, start) = take_partial kind (hd parts) complete_count b;
          b2 = push_lines kind (drop start (take complete_count parts)) b1
      in if \<not> ends_with [newline] txt
         then push_tail kind (last parts) (start = 1 \<and> complete_count = 0) b2 else b2)"

definition evict :: "nat \<Rightarrow> line_buf \<Rightarrow> line_buf" where
  "evict keep b = b\<lparr>lb_lines := drop (length (lb_lines b) - keep) (lb_lines b)\<rparr>"

definition buf_append :: "string \<Rightarrow> line_kind \<Rightarrow> line_buf \<Rightarrow> line_buf" where
  "buf_append txt kind b =
     (if txt = [] then b else evict BUFFER_CAP (append_lines txt kind (evict (BUFFER_CAP - 1) b)))"

text \<open>The line texts handed to the watchers: the complete lines this chunk pushed, of runtime output only.\<close>

definition completed_lines :: "string \<Rightarrow> line_kind \<Rightarrow> line_buf \<Rightarrow> string list" where
  "completed_lines txt kind b =
     (let parts = split_on newline txt;
          complete_count = length parts - 1;
          start = snd (take_partial kind (hd parts) complete_count (evict (BUFFER_CAP - 1) b))
      in if kind = Runtime then filter (\<lambda>p. p \<noteq> []) (drop start (take complete_count parts)) else [])"

type_synonym console_event = "nat \<times> string \<times> string \<times> bool \<times> line_kind"

definition live_event :: "string \<Rightarrow> line_kind \<Rightarrow> line_buf \<Rightarrow> console_event" where
  "live_event txt kind b =
     ((case last_seq b of Some q \<Rightarrow> q | None \<Rightarrow> lb_last_ok b),
      (if PARTIAL_CAP < length txt then ce_text (fst (merge_partial \<lparr>ce_text = [], ce_kind = kind\<rparr> False txt)) else txt),
      (if lb_lines b = [] then [] else ce_text (snd (last (lb_lines b)))),
      lb_partial b, kind)"

section \<open>The hub\<close>

definition MAX_SUBSCRIBERS_PER_SERVER :: nat where "MAX_SUBSCRIBERS_PER_SERVER = 8"
definition LOG_QUEUE_CAP :: nat where "LOG_QUEUE_CAP = 1024"
definition LOG_ROTATE_BYTES :: nat where "LOG_ROTATE_BYTES = 64 * 1024 * 1024"

datatype log_cmd = LogWrite int string | LogClear int | LogDrop int

text \<open>\<open>hb_subs\<close> counts the receivers of each server's channel; \<open>hb_engine\<close> says that the watcher engine is wired.\<close>

record console_hub =
  hb_buffers :: "(int, line_buf) hmap"
  hb_subs :: "(int, nat) hmap"
  hb_log_enabled :: bool
  hb_log_queue :: "log_cmd list"
  hb_writer_alive :: bool
  hb_engine :: bool

definition buffer_of :: "console_hub \<Rightarrow> int \<Rightarrow> line_buf" where
  "buffer_of h sid = (case hm_get (hb_buffers h) sid of Some b \<Rightarrow> b | None \<Rightarrow> line_buf_default)"

definition try_log :: "log_cmd \<Rightarrow> console_hub \<Rightarrow> console_hub" where
  "try_log c h = (if hb_writer_alive h \<and> length (hb_log_queue h) < LOG_QUEUE_CAP
     then h\<lparr>hb_log_queue := hb_log_queue h @ [c]\<rparr> else h)"

text \<open>\<open>send\<close> blocks while the queue is full, so a command sent this way is never lost to a live writer.\<close>

definition send_log :: "log_cmd \<Rightarrow> console_hub \<Rightarrow> console_hub" where
  "send_log c h = (if hb_writer_alive h then h\<lparr>hb_log_queue := hb_log_queue h @ [c]\<rparr> else h)"

text \<open>The results: the hub, the event for the subscribers and the lines for the watcher engine.\<close>

definition hub_append :: "int \<Rightarrow> string \<Rightarrow> line_kind \<Rightarrow> console_hub \<Rightarrow> console_hub \<times> console_event option \<times> string list" where
  "hub_append sid txt kind h =
     (if txt = [] then (h, None, [])
      else
        let b = buffer_of h sid;
            b' = buf_append txt kind b;
            h1 = h\<lparr>hb_buffers := hm_insert sid b' (hb_buffers h)\<rparr>;
            h2 = (if hb_log_enabled h then try_log (LogWrite sid txt) h1 else h1)
        in (h2, (if hm_get (hb_subs h) sid = None then None else Some (live_event txt kind b')),
            (if hb_engine h then completed_lines txt kind b else [])))"

definition snapshot :: "console_hub \<Rightarrow> int \<Rightarrow> nat \<Rightarrow> (nat \<times> console_entry) list \<times> bool \<times> bool \<times> nat" where
  "snapshot h sid after_seq =
     (case hm_get (hb_buffers h) sid of
        None \<Rightarrow> ([], False, False, 0)
      | Some b \<Rightarrow>
          let truncated = (case lb_lines b of [] \<Rightarrow> False | (first, _) # _ \<Rightarrow> min (after_seq + 1) (2 ^ 64 - 1) < first);
              lines = (if truncated then lb_lines b else dropWhile (\<lambda>(s, _). s \<le> after_seq) (lb_lines b))
          in (lines, truncated, lb_partial b, lb_last_ok b))"

definition history :: "console_hub \<Rightarrow> int \<Rightarrow> nat \<Rightarrow> (nat \<times> console_entry) list \<times> bool" where
  "history h sid after_seq = (let (lines, truncated, _, _) = snapshot h sid after_seq in (lines, truncated))"

definition buf_clear :: "line_buf \<Rightarrow> line_buf" where
  "buf_clear b = b\<lparr>lb_lines := [], lb_partial := False, lb_partial_kind := None, lb_partial_truncated := False, lb_last_ok := 0\<rparr>"

definition hub_clear :: "int \<Rightarrow> console_hub \<Rightarrow> console_hub \<times> console_event option" where
  "hub_clear sid h =
     (let h1 = (case hm_get (hb_buffers h) sid of
                  Some b \<Rightarrow> h\<lparr>hb_buffers := hm_insert sid (buf_clear b) (hb_buffers h)\<rparr> | None \<Rightarrow> h)
      in (send_log (LogClear sid) h1, if hm_get (hb_subs h) sid = None then None else Some (0, [], [], False, Runtime)))"

definition subscribe :: "int \<Rightarrow> console_hub \<Rightarrow> console_hub \<times> bool" where
  "subscribe sid h =
     (let n = (case hm_get (hb_subs h) sid of Some n \<Rightarrow> n | None \<Rightarrow> 0)
      in if MAX_SUBSCRIBERS_PER_SERVER \<le> n then (h\<lparr>hb_subs := hm_insert sid n (hb_subs h)\<rparr>, False)
         else (h\<lparr>hb_subs := hm_insert sid (n + 1) (hb_subs h)\<rparr>, True))"

definition clear_subs :: "int \<Rightarrow> console_hub \<Rightarrow> console_hub" where
  "clear_subs sid h = h\<lparr>hb_subs := hm_remove sid (hb_subs h)\<rparr>"

definition drop_server :: "int \<Rightarrow> console_hub \<Rightarrow> console_hub" where
  "drop_server sid h = send_log (LogDrop sid)
     (h\<lparr>hb_buffers := hm_remove sid (hb_buffers h), hb_subs := hm_remove sid (hb_subs h)\<rparr>)"

section \<open>The log writer\<close>

definition ESC :: nat where "ESC = 0x1b"

fun skip_osc :: "string \<Rightarrow> string" where
  "skip_osc [] = []"
| "skip_osc (c # s) =
     (if code c = 0x07 then c # s
      else if code c = ESC then (case s of d # s' \<Rightarrow> if code d = 0x5c then s' else s | [] \<Rightarrow> [])
      else skip_osc s)"

text \<open>What is left after the introducer \<open>ESC\<close> of a control sequence has been read.\<close>

definition skip_escape :: "string \<Rightarrow> string" where
  "skip_escape s =
     (case s of
        [] \<Rightarrow> []
      | c # r \<Rightarrow>
          if code c = 0x5b then
            drop 1 (dropWhile (\<lambda>x. 0x20 \<le> code x \<and> code x \<le> 0x2f) (dropWhile (\<lambda>x. 0x30 \<le> code x \<and> code x \<le> 0x3f) r))
          else if code c \<in> {0x5d, 0x50, 0x5e, 0x5f} then skip_osc r
          else if 0x28 \<le> code c \<and> code c \<le> 0x2b then drop 1 r
          else r)"

lemma length_skip_osc: "length (skip_osc s) \<le> length s"
proof (induction s)
  case (Cons c s)
  then show ?case by (cases s) simp_all
qed simp

lemma length_skip_escape: "length (skip_escape s) \<le> length s"
proof (cases s)
  case (Cons c r)
  let ?d = "dropWhile (\<lambda>x. 0x20 \<le> code x \<and> code x \<le> 0x2f) (dropWhile (\<lambda>x. 0x30 \<le> code x \<and> code x \<le> 0x3f) r)"
  have "length ?d \<le> length r" by (rule le_trans [OF length_dropWhile_le length_dropWhile_le])
  then show ?thesis using Cons length_skip_osc [of r] by (simp add: skip_escape_def) (intro conjI impI; linarith)
qed (simp add: skip_escape_def)

text \<open>\<open>None\<close> is the panic of slicing \<open>text[i..]\<close> inside a character.\<close>

function sanitize_log_text :: "string \<Rightarrow> string option" where
  "sanitize_log_text [] = Some []"
| "sanitize_log_text (b # s) =
     (if code b = ESC then sanitize_log_text (skip_escape s)
      else if code b < 0x20 \<and> code b \<notin> {0x09, 0x0a, 0x0d} then sanitize_log_text s
      else if code b = 0x7f then sanitize_log_text s
      else if cont b then None
      else map_option (\<lambda>out. take (max 1 (utf8_len (b # s))) (b # s) @ out)
             (sanitize_log_text (drop (max 1 (utf8_len (b # s))) (b # s))))"
  by pat_completeness auto
termination
proof (relation "measure length", goal_cases)
  case (2 b s)
  then show ?case using length_skip_escape [of s] by (simp only: in_measure length_Cons less_Suc_eq_le)
qed simp_all

declare sanitize_log_text.simps(2) [simp del]

record log_files =
  lf_cur :: "string option"
  lf_1 :: "string option"
  lf_2 :: "string option"

definition no_logs :: log_files where
  "no_logs = \<lparr>lf_cur = None, lf_1 = None, lf_2 = None\<rparr>"

definition write_log_chunk :: "string \<Rightarrow> log_files \<Rightarrow> log_files" where
  "write_log_chunk txt f =
     (if txt = [] then f
      else
        let cur = (case lf_cur f of Some t \<Rightarrow> t | None \<Rightarrow> []) in
        if LOG_ROTATE_BYTES < length cur + length txt
        then \<lparr>lf_cur = Some txt, lf_1 = Some cur, lf_2 = lf_1 f\<rparr>
        else f\<lparr>lf_cur := Some (cur @ txt)\<rparr>)"

text \<open>One command of the writer thread; a panic ends the thread.\<close>

definition log_step :: "log_cmd \<Rightarrow> (int, log_files) hmap \<Rightarrow> (int, log_files) hmap option" where
  "log_step c m =
     (let files = (\<lambda>sid. case hm_get m sid of Some f \<Rightarrow> f | None \<Rightarrow> no_logs) in
      case c of
        LogWrite sid txt \<Rightarrow> map_option (\<lambda>clean. hm_insert sid (write_log_chunk clean (files sid)) m) (sanitize_log_text txt)
      | LogClear sid \<Rightarrow> Some (hm_insert sid ((files sid)\<lparr>lf_cur := None\<rparr>) m)
      | LogDrop sid \<Rightarrow> Some (hm_remove sid m))"

definition log_writer_loop :: "console_hub \<times> (int, log_files) hmap \<Rightarrow> console_hub \<times> (int, log_files) hmap" where
  "log_writer_loop = (\<lambda>(h, m).
     if \<not> hb_writer_alive h then (h, m)
     else case hb_log_queue h of
       [] \<Rightarrow> (h, m)
     | c # cs \<Rightarrow>
         (case log_step c m of
            Some m' \<Rightarrow> (h\<lparr>hb_log_queue := cs\<rparr>, m')
          | None \<Rightarrow> (h\<lparr>hb_log_queue := [], hb_writer_alive := False\<rparr>, m)))"

section \<open>What reaches the log\<close>

lemma utf8_char_bytes: "2 \<le> utf8_len (b # s) \<Longrightarrow> c \<in> set (take (utf8_len (b # s)) (b # s)) \<Longrightarrow> 128 \<le> code c"
  by (auto split: if_splits list.splits simp: numeral_eq_Suc)

definition inert :: "char \<Rightarrow> bool" where
  "inert c \<longleftrightarrow> code c \<noteq> ESC \<and> code c \<noteq> 0x7f \<and> (code c < 0x20 \<longrightarrow> code c \<in> {0x09, 0x0a, 0x0d})"

lemma inert_char:
  assumes "code b \<noteq> ESC" "\<not> (code b < 0x20 \<and> code b \<notin> {0x09, 0x0a, 0x0d})" "code b \<noteq> 0x7f"
  shows "\<forall>c\<in>set (take (max 1 (utf8_len (b # s))) (b # s)). inert c"
proof (cases "2 \<le> utf8_len (b # s)")
  case True
  then have "128 \<le> code c" if "c \<in> set (take (max 1 (utf8_len (b # s))) (b # s))" for c
    using utf8_char_bytes [OF True] that by (simp add: max_def)
  then show ?thesis by (force simp: inert_def ESC_def)
next
  case False
  then have "max 1 (utf8_len (b # s)) = 1" by linarith
  then show ?thesis using assms by (auto simp: inert_def)
qed

lemma sanitize_inert: "sanitize_log_text t = Some out \<Longrightarrow> \<forall>c\<in>set out. inert c"
proof (induction t arbitrary: out rule: sanitize_log_text.induct)
  case (2 b s)
  consider (skip) "sanitize_log_text (b # s) = sanitize_log_text (skip_escape s)" "code b = ESC"
    | (drop) "sanitize_log_text (b # s) = sanitize_log_text s" "code b \<noteq> ESC"
        "code b < 0x20 \<and> code b \<notin> {0x09, 0x0a, 0x0d} \<or> \<not> (code b < 0x20 \<and> code b \<notin> {0x09, 0x0a, 0x0d}) \<and> code b = 0x7f"
    | (keep) rest where "code b \<noteq> ESC" "\<not> (code b < 0x20 \<and> code b \<notin> {0x09, 0x0a, 0x0d})" "code b \<noteq> 0x7f" "\<not> cont b"
        "out = take (max 1 (utf8_len (b # s))) (b # s) @ rest"
        "sanitize_log_text (drop (max 1 (utf8_len (b # s))) (b # s)) = Some rest"
    using "2.prems" unfolding sanitize_log_text.simps(2) by (simp only: split: if_split_asm) (auto simp del: utf8_len.simps)
  then show ?case
  proof cases
    case skip then show ?thesis using "2.IH"(1) [OF skip(2)] "2.prems" by metis
  next
    case drop then show ?thesis using 2 by metis
  next
    case keep then show ?thesis using 2(4) inert_char [OF keep(1-3)] by auto
  qed
qed simp

lemma suffix_osc: "suffix (skip_osc s) s"
proof (induction s)
  case (Cons c s)
  have "suffix s (c # s)" by (simp add: suffix_def)
  moreover have "suffix (case s of d # s' \<Rightarrow> if code d = 0x5c then s' else s | [] \<Rightarrow> []) (c # s)"
    by (cases s) (simp_all add: suffix_ConsI)
  ultimately show ?case using Cons by (simp add: suffix_ConsI)
qed simp

lemma suffix_escape: "suffix (skip_escape s) s"
proof (cases s)
  case (Cons c r)
  have "suffix (drop 1 (dropWhile P (dropWhile Q r))) r" for P Q
    by (meson suffix_drop suffix_dropWhile suffix_order.order_trans)
  then show ?thesis using Cons suffix_osc [of r] by (simp add: skip_escape_def suffix_ConsI suffix_drop)
qed (simp add: skip_escape_def)

lemma sanitize_ascii: "\<forall>c\<in>set t. code c < 128 \<Longrightarrow> \<exists>out. sanitize_log_text t = Some out"
proof (induction t rule: sanitize_log_text.induct)
  case (2 b s)
  have u: "max 1 (utf8_len (b # s)) = 1" "\<not> cont b" "\<forall>c\<in>set s. code c < 128" using "2.prems" by simp_all
  have esc: "\<forall>c\<in>set (skip_escape s). code c < 128" using u(3) suffix_escape [of s] by (meson set_mono_suffix subsetD)
  have d: "drop 1 (b # s) = s" by simp
  show ?case
  proof (cases "code b = ESC")
    case True then show ?thesis using "2.IH"(1) esc unfolding sanitize_log_text.simps(2) by presburger
  next
    case False
    have "\<exists>out. sanitize_log_text s = Some out" using 2 False u d by metis
    then show ?thesis using False u(2) unfolding sanitize_log_text.simps(2) u(1) d by auto
  qed
qed simp

text \<open>
  A control character in front of a character of more than one byte: the sanitizer skips one byte of it and
  then slices the text inside it.
\<close>

lemma sanitize_panics:
  assumes "2 \<le> utf8_len s"
  shows "sanitize_log_text (CHR 0x1b # s) = None"
proof -
  obtain a c r where s: "s = a # c # r" "194 \<le> code a" "cont c"
    using assms by (cases s rule: four_cases) (auto split: if_splits)
  have "skip_escape s = c # r" using s(2) by (simp add: skip_escape_def s(1))
  moreover have "sanitize_log_text (c # r) = None" using s(3) by (simp add: sanitize_log_text.simps(2) ESC_def)
  ultimately show ?thesis by (simp add: sanitize_log_text.simps(2) ESC_def)
qed

text \<open>
  What the log writer stores contains no escape character, no other control character than tab, newline
  and carriage return, and no delete character, whatever a server prints; and it stores something for every
  chunk of ASCII.
\<close>
theorem log_text_inert:
  "(sanitize_log_text txt = Some out \<longrightarrow> (\<forall>c\<in>set out. code c \<noteq> 0x1b \<and> code c \<noteq> 0x7f \<and> (code c < 0x20 \<longrightarrow> code c \<in> {0x09, 0x0a, 0x0d})))
   \<and> ((\<forall>c\<in>set txt. code c < 128) \<longrightarrow> (\<exists>out. sanitize_log_text txt = Some out))"
  using sanitize_inert sanitize_ascii by (metis ESC_def inert_def)

theorem log_text_inert_witness:
  "sanitize_log_text (CHR 0x1b # ''[31mred'') = Some ''red'' \<and> (\<forall>c\<in>set ''red''. code c \<noteq> 0x1b)"
proof -
  have s: "sanitize_log_text (CHR 0x1b # ''[31mred'') = Some ''red''" by code_simp
  show ?thesis using log_text_inert [of "CHR 0x1b # ''[31mred''" "''red''"] s by auto
qed

text \<open>The console goes on: chunks are appended and the writer thread, if it still runs, takes a command after each.\<close>

fun log_run :: "(int \<times> string \<times> line_kind) list \<Rightarrow> console_hub \<times> (int, log_files) hmap \<Rightarrow> console_hub \<times> (int, log_files) hmap" where
  "log_run [] s = s"
| "log_run ((sid, txt, kind) # rest) (h, m) = log_run rest (log_writer_loop (fst (hub_append sid txt kind h), m))"

lemma append_alive: "hb_writer_alive (fst (hub_append sid txt kind h)) = hb_writer_alive h"
  by (simp add: hub_append_def Let_def try_log_def)

lemma dead_writer: "\<not> hb_writer_alive h \<Longrightarrow> snd (log_run ops (h, m)) = m"
proof (induction ops arbitrary: h)
  case (Cons x ops)
  obtain sid chunk kind where x: "x = (sid, chunk, kind)" by (cases x) auto
  have "\<not> hb_writer_alive (fst (hub_append sid chunk kind h))" using Cons.prems by (simp add: append_alive)
  then show ?case using Cons.IH by (simp add: x log_writer_loop_def)
qed simp

text \<open>
  One chunk in which an escape character stands before a non-ASCII character ends the log writer thread.
  From then on nothing any server prints is ever written to its log, without an error anywhere.
\<close>
theorem one_escape_stops_all_logs:
  assumes "hb_writer_alive h" "hb_log_queue h = LogWrite sid (CHR 0x1b # s) # cs" "2 \<le> utf8_len s"
  shows "snd (log_run ops (log_writer_loop (h, m))) = m"
proof -
  have "log_writer_loop (h, m) = (h\<lparr>hb_log_queue := [], hb_writer_alive := False\<rparr>, m)"
    using assms by (simp add: log_writer_loop_def log_step_def sanitize_panics)
  then show ?thesis using dead_writer by simp
qed

definition color_hub :: console_hub where
  "color_hub = \<lparr>hb_buffers = [], hb_subs = [], hb_log_enabled = True,
     hb_log_queue = [LogWrite 1 [CHR 0x1b, CHR 0xC3, CHR 0xA9]], hb_writer_alive = True, hb_engine = False\<rparr>"

theorem one_escape_stops_all_logs_witness:
  "snd (log_run [(1, ''a'', Runtime), (2, ''b'', Runtime)] (log_writer_loop (color_hub, []))) = []
   \<and> snd (log_run [(2, ''b'', Runtime)] (color_hub\<lparr>hb_log_queue := []\<rparr>, [])) \<noteq> []"
proof -
  have u: "2 \<le> utf8_len [CHR 0xC3, CHR 0xA9]" by simp
  have "snd (log_run [(2, ''b'', Runtime)] (color_hub\<lparr>hb_log_queue := []\<rparr>, [])) \<noteq> []"
    by (simp add: color_hub_def log_writer_loop_def hub_append_def Let_def try_log_def LOG_QUEUE_CAP_def log_step_def
        sanitize_log_text.simps(2) ESC_def hm_insert_def)
  then show ?thesis
    using one_escape_stops_all_logs [of color_hub 1 "[CHR 0xC3, CHR 0xA9]" "[]" "[(1, ''a'', Runtime), (2, ''b'', Runtime)]" "[]"] u
    by (simp add: color_hub_def)
qed

text \<open>Rotation keeps every log file within the rotation size, as long as no single chunk exceeds it.\<close>

definition logs_bounded :: "log_files \<Rightarrow> bool" where
  "logs_bounded f \<longleftrightarrow> (\<forall>t\<in>{lf_cur f, lf_1 f, lf_2 f}. case t of Some x \<Rightarrow> length x \<le> LOG_ROTATE_BYTES | None \<Rightarrow> True)"

lemma write_log_bounded: "logs_bounded f \<Longrightarrow> length txt \<le> LOG_ROTATE_BYTES \<Longrightarrow> logs_bounded (write_log_chunk txt f)"
  by (auto simp: logs_bounded_def write_log_chunk_def Let_def split: option.splits)

section \<open>The ring against an unbounded console\<close>

datatype console_op = Append string line_kind | Clear

definition ring_op :: "console_op \<Rightarrow> line_buf \<Rightarrow> line_buf" where
  "ring_op c b = (case c of Append t k \<Rightarrow> buf_append t k b | Clear \<Rightarrow> buf_clear b)"

text \<open>The same console without eviction.\<close>

definition full_op :: "console_op \<Rightarrow> line_buf \<Rightarrow> line_buf" where
  "full_op c b = (case c of Append t k \<Rightarrow> if t = [] then b else append_lines t k b | Clear \<Rightarrow> buf_clear b)"

definition ring_run :: "console_op list \<Rightarrow> line_buf" where
  "ring_run ops = foldl (\<lambda>b c. ring_op c b) line_buf_default ops"

definition full_run :: "console_op list \<Rightarrow> line_buf" where
  "full_run ops = foldl (\<lambda>b c. full_op c b) line_buf_default ops"

definition prepend :: "(nat \<times> console_entry) list \<Rightarrow> line_buf \<Rightarrow> line_buf" where
  "prepend p b = b\<lparr>lb_lines := p @ lb_lines b\<rparr>"

lemma prepend_simps [simp]:
  "lb_lines (prepend p b) = p @ lb_lines b" "lb_next_seq (prepend p b) = lb_next_seq b" "lb_partial (prepend p b) = lb_partial b"
  "lb_last_ok (prepend p b) = lb_last_ok b" "lb_partial_kind (prepend p b) = lb_partial_kind b"
  "lb_partial_truncated (prepend p b) = lb_partial_truncated b" "prepend p (prepend q b) = prepend (p @ q) b" "prepend [] b = b"
  by (simp_all add: prepend_def)

lemma push_line_prepend: "push_line e (prepend p b) = prepend p (push_line e b)"
  by (simp add: push_line_def prepend_def)

lemma prepend_last_ok: "(prepend p b)\<lparr>lb_last_ok := n\<rparr> = prepend p (b\<lparr>lb_last_ok := n\<rparr>)"
  by (simp add: prepend_def)

lemma push_lines_prepend: "push_lines kind parts (prepend p b) = prepend p (push_lines kind parts b)"
  by (induction parts arbitrary: b) (simp_all add: push_line_prepend prepend_last_ok)

lemma push_tail_prepend: "push_tail kind x m (prepend p b) = prepend p (push_tail kind x m b)"
  by (cases "merge_partial \<lparr>ce_text = [], ce_kind = kind\<rparr> False x") (simp add: push_tail_def push_line_def prepend_def Let_def)

lemma take_partial_prepend:
  "lb_lines b \<noteq> [] \<Longrightarrow> take_partial kind x n (prepend p b) = (prepend p (fst (take_partial kind x n b)), snd (take_partial kind x n b))"
  by (cases "merge_partial (snd (last (lb_lines b))) (lb_partial_truncated b) x")
    (simp add: take_partial_def last_seq_def prepend_def butlast_append)

lemma append_lines_prepend:
  assumes "lb_lines b \<noteq> []"
  shows "append_lines t kind (prepend p b) = prepend p (append_lines t kind b)"
  by (cases "take_partial kind (hd (split_on newline t)) (length (split_on newline t) - 1) b")
    (simp add: append_lines_def Let_def take_partial_prepend [OF assms] push_lines_prepend push_tail_prepend)

lemma evict_prepend: "\<exists>p. b = prepend p (evict n b) \<and> (p \<noteq> [] \<longrightarrow> length (lb_lines (evict n b)) = n)"
proof -
  have "b = prepend (take (length (lb_lines b) - n) (lb_lines b)) (evict n b)" by (simp add: prepend_def evict_def)
  moreover have "take (length (lb_lines b) - n) (lb_lines b) \<noteq> [] \<longrightarrow> length (lb_lines (evict n b)) = n" by (simp add: evict_def)
  ultimately show ?thesis by blast
qed

lemma length_append_lines: "length (lb_lines b) \<le> length (lb_lines (append_lines t kind b))"
proof -
  have pl: "length (lb_lines b) \<le> length (lb_lines (push_lines kind ps b))" for ps b
    by (induction kind ps b rule: push_lines.induct) (auto simp: push_line_def)
  have pt: "length (lb_lines b) \<le> length (lb_lines (push_tail kind x m b))" for x m b
    by (simp add: push_tail_def push_line_def split: prod.split)
  have tp: "length (lb_lines b) = length (lb_lines (fst (take_partial kind x n b)))" for x n
    by (auto simp: take_partial_def split: prod.split)
  show ?thesis
    using tp pl pt le_trans by (auto simp: append_lines_def Let_def split: prod.split) (metis fst_conv le_trans)+
qed

text \<open>The ring is a suffix of the unbounded console, and only a full ring has lost anything.\<close>

definition ring_suffix :: "line_buf \<Rightarrow> line_buf \<Rightarrow> bool" where
  "ring_suffix r g \<longleftrightarrow> (\<exists>p. g = prepend p r \<and> (p \<noteq> [] \<longrightarrow> BUFFER_CAP - 1 \<le> length (lb_lines r))) \<and> length (lb_lines r) \<le> BUFFER_CAP"

lemma ring_suffix_append:
  assumes "ring_suffix r g" "t \<noteq> []"
  shows "ring_suffix (buf_append t kind r) (append_lines t kind g)"
proof -
  obtain p where p: "g = prepend p r" "p \<noteq> [] \<longrightarrow> BUFFER_CAP - 1 \<le> length (lb_lines r)" using assms(1) by (auto simp: ring_suffix_def)
  let ?r1 = "evict (BUFFER_CAP - 1) r"
  obtain q where q: "r = prepend q ?r1" "q \<noteq> [] \<longrightarrow> length (lb_lines ?r1) = BUFFER_CAP - 1" using evict_prepend by blast
  have pq: "p @ q \<noteq> [] \<longrightarrow> BUFFER_CAP - 1 \<le> length (lb_lines ?r1)"
  proof
    assume "p @ q \<noteq> []"
    show "BUFFER_CAP - 1 \<le> length (lb_lines ?r1)"
    proof (cases "q = []")
      case True
      then have "?r1 = r" using q(1) by simp
      then show ?thesis using p(2) \<open>p @ q \<noteq> []\<close> True by simp
    qed (use q(2) in simp)
  qed
  have g: "g = prepend (p @ q) ?r1" using p(1) q(1) by (metis prepend_simps(7))
  have g2: "append_lines t kind g = prepend (p @ q) (append_lines t kind ?r1)"
  proof (cases "p @ q = []")
    case False
    then have "lb_lines ?r1 \<noteq> []" using pq by (auto simp: BUFFER_CAP_def)
    then show ?thesis using g append_lines_prepend by metis
  qed (use g in simp)
  obtain u where u: "append_lines t kind ?r1 = prepend u (evict BUFFER_CAP (append_lines t kind ?r1))"
      "u \<noteq> [] \<longrightarrow> length (lb_lines (evict BUFFER_CAP (append_lines t kind ?r1))) = BUFFER_CAP" using evict_prepend by blast
  have r': "buf_append t kind r = evict BUFFER_CAP (append_lines t kind ?r1)" using assms(2) by (simp add: buf_append_def)
  have "append_lines t kind g = prepend ((p @ q) @ u) (buf_append t kind r)" unfolding g2 r' using u(1) prepend_simps(7) by metis
  moreover have "(p @ q) @ u \<noteq> [] \<longrightarrow> BUFFER_CAP - 1 \<le> length (lb_lines (buf_append t kind r))"
  proof
    assume ne: "(p @ q) @ u \<noteq> []"
    show "BUFFER_CAP - 1 \<le> length (lb_lines (buf_append t kind r))"
    proof (cases "u = []")
      case True
      then have "evict BUFFER_CAP (append_lines t kind ?r1) = append_lines t kind ?r1" using u(1) by simp
      then show ?thesis using pq ne True length_append_lines [of ?r1 t kind] r' by simp
    qed (use u(2) r' in simp)
  qed
  moreover have "length (lb_lines (buf_append t kind r)) \<le> BUFFER_CAP" by (simp add: r' evict_def)
  ultimately show ?thesis unfolding ring_suffix_def by blast
qed

lemma ring_suffix_same: "length (lb_lines b) \<le> BUFFER_CAP \<Longrightarrow> ring_suffix b b"
  unfolding ring_suffix_def by (metis prepend_simps(8))

lemma ring_refines_full: "ring_suffix (ring_run ops) (full_run ops)"
proof (induction ops rule: rev_induct)
  case Nil
  have "length (lb_lines line_buf_default) \<le> BUFFER_CAP" by (simp add: line_buf_default_def)
  then show ?case unfolding ring_run_def full_run_def by (simp add: ring_suffix_same)
next
  case (snoc c ops)
  have r: "ring_run (ops @ [c]) = ring_op c (ring_run ops)" "full_run (ops @ [c]) = full_op c (full_run ops)"
    by (simp_all add: ring_run_def full_run_def)
  show ?case
  proof (cases c)
    case (Append t k)
    show ?thesis
    proof (cases "t = []")
      case True then show ?thesis using snoc unfolding r by (simp add: Append ring_op_def full_op_def buf_append_def)
    next
      case False then show ?thesis using ring_suffix_append [OF snoc False, of k] unfolding r by (simp add: Append ring_op_def full_op_def)
    qed
  next
    case Clear
    obtain p where "full_run ops = prepend p (ring_run ops)" using snoc by (auto simp: ring_suffix_def)
    then have "buf_clear (full_run ops) = buf_clear (ring_run ops)" by (simp add: buf_clear_def prepend_def)
    moreover have "ring_suffix (buf_clear (ring_run ops)) (buf_clear (ring_run ops))" by (rule ring_suffix_same) (simp add: buf_clear_def)
    ultimately show ?thesis unfolding r by (simp add: Clear ring_op_def full_op_def)
  qed
qed


text \<open>Lines are numbered without gaps up to the next number, and a pending partial is the last line.\<close>

definition full_wf :: "line_buf \<Rightarrow> bool" where
  "full_wf b \<longleftrightarrow> length (lb_lines b) < lb_next_seq b \<and> lb_last_ok b < lb_next_seq b
     \<and> map fst (lb_lines b) = [lb_next_seq b - length (lb_lines b)..<lb_next_seq b]
     \<and> (lb_partial b \<longrightarrow> lb_lines b \<noteq> [] \<and> lb_partial_kind b = Some (ce_kind (snd (last (lb_lines b))))
          \<and> length (ce_text (snd (last (lb_lines b)))) \<le> PARTIAL_CAP + length PARTIAL_TRUNC_MARKER
          \<and> (\<not> lb_partial_truncated b \<longrightarrow> length (ce_text (snd (last (lb_lines b)))) \<le> PARTIAL_CAP))"

lemma floor_le: "floor_char_boundary s n \<le> n"
  by (induction s n rule: floor_char_boundary.induct) auto

lemma merge_partial_bound:
  assumes "merge_partial e t x = (e', t')" "length (ce_text e) \<le> PARTIAL_CAP + length PARTIAL_TRUNC_MARKER"
    "\<not> t \<longrightarrow> length (ce_text e) \<le> PARTIAL_CAP"
  shows "length (ce_text e') \<le> PARTIAL_CAP + length PARTIAL_TRUNC_MARKER \<and> (\<not> t' \<longrightarrow> length (ce_text e') \<le> PARTIAL_CAP)
    \<and> ce_kind e' = ce_kind e \<and> (t \<longrightarrow> t')"
proof -
  have f: "min (length x) (floor_char_boundary x n) \<le> n" for n using floor_le [of x n] by linarith
  show ?thesis using assms f [of "PARTIAL_CAP - length (ce_text e)"] by (auto simp: merge_partial_def Let_def split: if_splits)
qed

lemma push_line_wf:
  assumes "full_wf b" "\<not> lb_partial b"
  shows "full_wf (push_line e b)" "\<not> lb_partial (push_line e b)" "last (lb_lines (push_line e b)) = (lb_next_seq b, e)"
  using assms by (auto simp: full_wf_def push_line_def upt_Suc_append le_diff_conv Suc_diff_le)

lemma push_lines_wf: "full_wf b \<Longrightarrow> \<not> lb_partial b \<Longrightarrow> full_wf (push_lines kind ps b) \<and> \<not> lb_partial (push_lines kind ps b)"
proof (induction kind ps b rule: push_lines.induct)
  case (2 kind part parts b)
  show ?case
  proof (cases "part = []")
    case False
    let ?b = "(push_line \<lparr>ce_text = part, ce_kind = kind\<rparr> b)\<lparr>lb_last_ok := lb_next_seq b\<rparr>"
    have "full_wf ?b" "\<not> lb_partial ?b" using push_line_wf [OF "2.prems"] by (auto simp: full_wf_def push_line_def)
    then show ?thesis using "2.IH"(2) False by simp
  qed (use 2 in simp)
qed simp

lemma last_seq_wf: "full_wf b \<Longrightarrow> last_seq b = Some q \<Longrightarrow> q < lb_next_seq b"
proof -
  assume wf: "full_wf b" "last_seq b = Some q"
  then have "q \<in> set (map fst (lb_lines b))" by (auto simp: last_seq_def split: if_splits)
  then show ?thesis using wf(1) unfolding full_wf_def by auto
qed

lemma take_partial_wf:
  assumes "full_wf b"
  shows "full_wf (fst (take_partial kind x n b)) \<and> \<not> lb_partial (fst (take_partial kind x n b))"
proof -
  have q: "(case last_seq b of Some q \<Rightarrow> q | None \<Rightarrow> lb_last_ok b) < lb_next_seq b"
    using last_seq_wf [OF assms] assms by (auto simp: full_wf_def split: option.split)
  have m: "map fst (butlast ls @ [(fst (last ls), e)]) = map fst ls" if "ls \<noteq> []" for ls :: "(nat \<times> console_entry) list" and e
    using that by (metis append_butlast_last_id fst_conv list.simps(8) list.simps(9) map_append)
  show ?thesis
    using assms q m [of "lb_lines b"]
    by (cases "merge_partial (snd (last (lb_lines b))) (lb_partial_truncated b) x")
      (auto simp: take_partial_def full_wf_def Let_def split: if_splits)
qed

text \<open>The partial that is left pending is the merged line, or the pushed tail.\<close>

lemma take_partial_last:
  assumes "full_wf b" "snd (take_partial kind x n b) = 1"
  shows "let b1 = fst (take_partial kind x n b) in lb_lines b1 \<noteq> [] \<and> ce_kind (snd (last (lb_lines b1))) = kind
    \<and> length (ce_text (snd (last (lb_lines b1)))) \<le> PARTIAL_CAP + length PARTIAL_TRUNC_MARKER
    \<and> (\<not> lb_partial_truncated b1 \<longrightarrow> length (ce_text (snd (last (lb_lines b1)))) \<le> PARTIAL_CAP)"
proof -
  obtain e t where e: "merge_partial (snd (last (lb_lines b))) (lb_partial_truncated b) x = (e, t)" by fastforce
  have p: "lb_partial b" "lb_partial_kind b = Some kind" using assms(2) by (auto simp: take_partial_def split: if_splits)
  then show ?thesis
    using assms(1) merge_partial_bound [OF e] e by (auto simp: take_partial_def full_wf_def Let_def)
qed

lemma push_tail_wf:
  assumes "full_wf b" "\<not> lb_partial b"
    and "m \<or> x = [] \<Longrightarrow> lb_lines b \<noteq> [] \<and> ce_kind (snd (last (lb_lines b))) = kind
      \<and> length (ce_text (snd (last (lb_lines b)))) \<le> PARTIAL_CAP + length PARTIAL_TRUNC_MARKER
      \<and> (\<not> lb_partial_truncated b \<longrightarrow> length (ce_text (snd (last (lb_lines b)))) \<le> PARTIAL_CAP)"
  shows "full_wf (push_tail kind x m b)"
proof -
  obtain e t where e: "merge_partial \<lparr>ce_text = [], ce_kind = kind\<rparr> False x = (e, t)" by fastforce
  have eb: "length (ce_text e) \<le> PARTIAL_CAP + length PARTIAL_TRUNC_MARKER \<and> (\<not> t \<longrightarrow> length (ce_text e) \<le> PARTIAL_CAP) \<and> ce_kind e = kind"
    using merge_partial_bound [OF e] by simp
  show ?thesis
  proof (cases "m \<or> x = []")
    case True then show ?thesis using assms by (auto simp: push_tail_def full_wf_def)
  next
    case False
    then show ?thesis using push_line_wf [OF assms(1,2), of e] eb by (auto simp: push_tail_def e full_wf_def push_line_def)
  qed
qed

lemma last_split: "t \<noteq> [] \<Longrightarrow> \<not> ends_with [newline] t \<Longrightarrow> last (split_on newline t) \<noteq> []"
proof (induction t)
  case (Cons x t)
  show ?case
  proof (cases "t = []")
    case True then show ?thesis using Cons.prems by (auto simp: ends_with_def)
  next
    case False
    have e: "\<not> ends_with [newline] t"
    proof
      assume "ends_with [newline] t"
      then have "drop (length t - 1) t = [newline]" by (simp add: ends_with_def)
      then have "drop (length (x # t) - 1) (x # t) = [newline]" using False by (cases t) auto
      then show False using Cons.prems by (simp add: ends_with_def)
    qed
    obtain p ps where ps: "split_on newline t = p # ps" by (meson neq_Nil_conv split_on_nonempty)
    then show ?thesis using Cons.IH [OF False e] by (auto split: if_splits)
  qed
qed simp

lemma append_lines_wf:
  assumes "full_wf b" "t \<noteq> []"
  shows "full_wf (append_lines t kind b)"
proof -
  let ?ps = "split_on newline t"
  obtain b1 st where tp: "take_partial kind (hd ?ps) (length ?ps - 1) b = (b1, st)" by fastforce
  have w1: "full_wf b1" "\<not> lb_partial b1" using take_partial_wf [OF assms(1), of kind "hd ?ps" "length ?ps - 1"] tp by simp_all
  let ?b2 = "push_lines kind (drop st (take (length ?ps - 1) ?ps)) b1"
  have w2: "full_wf ?b2" "\<not> lb_partial ?b2" using push_lines_wf [OF w1] by simp_all
  have ne: "\<not> ends_with [newline] t \<Longrightarrow> last ?ps \<noteq> []" using last_split assms(2) by blast
  have merged: "?b2 = b1" if "st = 1 \<and> length ?ps - 1 = 0" using that by simp
  have st: "st = 1 \<Longrightarrow> snd (take_partial kind (hd ?ps) (length ?ps - 1) b) = 1" using tp by simp
  have "full_wf (push_tail kind (last ?ps) (st = 1 \<and> length ?ps - 1 = 0) ?b2)" if "\<not> ends_with [newline] t"
  proof (rule push_tail_wf [OF w2])
    assume "(st = 1 \<and> length ?ps - 1 = 0) \<or> last ?ps = []"
    then have m: "st = 1 \<and> length ?ps - 1 = 0" using ne that by blast
    show "lb_lines ?b2 \<noteq> [] \<and> ce_kind (snd (last (lb_lines ?b2))) = kind
      \<and> length (ce_text (snd (last (lb_lines ?b2)))) \<le> PARTIAL_CAP + length PARTIAL_TRUNC_MARKER
      \<and> (\<not> lb_partial_truncated ?b2 \<longrightarrow> length (ce_text (snd (last (lb_lines ?b2)))) \<le> PARTIAL_CAP)"
      unfolding merged [OF m] using take_partial_last [OF assms(1) st] m tp by (simp add: Let_def)
  qed
  then show ?thesis using w2 unfolding append_lines_def Let_def tp prod.case by (simp only: split: if_split) blast
qed

lemma full_run_wf: "full_wf (full_run ops)"
proof (induction ops rule: rev_induct)
  case Nil then show ?case by (simp add: full_run_def line_buf_default_def full_wf_def)
next
  case (snoc c ops)
  then have "full_wf (full_op c (full_run ops))"
    using append_lines_wf by (auto simp: full_op_def buf_clear_def full_wf_def split: console_op.splits)
  then show ?case by (simp add: full_run_def)
qed

section \<open>What a reconnecting client is sent\<close>

lemma dropWhile_sorted:
  "sorted (map fst ls) \<Longrightarrow> dropWhile (\<lambda>(s, _). s \<le> k) ls = filter (\<lambda>(s, _). k < s) ls" for k :: nat
proof (induction ls)
  case (Cons x ls)
  have "filter (\<lambda>(s, _). k < s) ls = ls" if "k < fst x" using Cons.prems that by (intro filter_True) (auto split: prod.split)
  then show ?case using Cons by (cases x) auto
qed simp

lemma full_sorted: "full_wf b \<Longrightarrow> sorted (map fst (lb_lines b))"
  by (simp add: full_wf_def)

lemma full_seq_bound: "full_wf b \<Longrightarrow> (s, e) \<in> set (lb_lines b) \<Longrightarrow> s < lb_next_seq b"
proof -
  assume wf: "full_wf b" "(s, e) \<in> set (lb_lines b)"
  then have "s \<in> set (map fst (lb_lines b))" by force
  then show "s < lb_next_seq b" using wf(1) unfolding full_wf_def by auto
qed

lemma snapshot_cases:
  assumes wf: "full_wf g" and suf: "ring_suffix r g" and big: "lb_next_seq g < 2 ^ 64"
    and get: "hm_get (hb_buffers h) sid = Some r"
    and snap: "snapshot h sid k = (ls, trunc, pend, ok)"
  shows "(\<not> trunc \<longrightarrow> ls = filter (\<lambda>(s, _). k < s) (lb_lines g))
    \<and> (trunc \<longrightarrow> ls = lb_lines r \<and> (\<exists>d. filter (\<lambda>(s, _). k < s) (lb_lines g) = d @ ls \<and> (d \<noteq> [] \<longrightarrow> BUFFER_CAP - 1 \<le> length ls)))"
proof -
  obtain p where p: "g = prepend p r" "p \<noteq> [] \<longrightarrow> BUFFER_CAP - 1 \<le> length (lb_lines r)" using suf by (auto simp: ring_suffix_def)
  have srt: "sorted (map fst (p @ lb_lines r))" using full_sorted [OF wf] p(1) by simp
  have dw: "dropWhile (\<lambda>(s, _). s \<le> k) (lb_lines r) = filter (\<lambda>(s, _). k < s) (lb_lines r)"
    by (rule dropWhile_sorted) (use srt in \<open>simp add: sorted_append\<close>)
  show ?thesis
  proof (cases "lb_lines r")
    case Nil
    then have "p = []" using p(2) by (auto simp: BUFFER_CAP_def)
    then show ?thesis using snap get p(1) Nil by (auto simp: snapshot_def)
  next
    case (Cons x xs)
    obtain a e where x: "x = (a, e)" by (cases x)
    have a: "a < lb_next_seq g" using full_seq_bound [OF wf, of a e] p(1) Cons x by simp
    have mn: "min (k + 1) (2 ^ 64 - 1) < a \<longleftrightarrow> k + 1 < a" using a big by (simp add: min_def)
    have "snapshot h sid k = (if k + 1 < a then (a, e) # xs else filter (\<lambda>(s, _). k < s) ((a, e) # xs), k + 1 < a, lb_partial r, lb_last_ok r)"
      by (simp only: snapshot_def get option.case Let_def Cons x list.case prod.case mn dw [unfolded Cons x])
    then have tr: "trunc \<longleftrightarrow> k + 1 < a" "ls = (if trunc then lb_lines r else filter (\<lambda>(s, _). k < s) (lb_lines r))"
      unfolding Cons x using snap by (auto simp only: prod.inject)
    have lo: "\<forall>y\<in>set p. fst y \<le> a" and hi: "\<forall>y\<in>set (lb_lines r). a \<le> fst y" using srt by (auto simp: Cons x sorted_append)
    have "distinct (map fst (p @ lb_lines r))" using wf p(1) by (simp only: full_wf_def prepend_simps distinct_upt)
    then have lt: "\<forall>y\<in>set p. fst y < a" using lo by (force simp: Cons x)
    have "filter (\<lambda>(s, _). k < s) p = []" if "\<not> trunc" using that lt tr(1) by (force simp: filter_empty_conv)
    moreover have "filter (\<lambda>(s, _). k < s) (lb_lines r) = lb_lines r" if "trunc" using that hi tr(1) by (force simp: filter_id_conv)
    moreover have "filter (\<lambda>(s, _). k < s) p \<noteq> [] \<longrightarrow> BUFFER_CAP - 1 \<le> length (lb_lines r)" using p(2) by auto
    ultimately show ?thesis using tr(2) p(1) by auto
  qed
qed

text \<open>
  C26: the console ring against the console that never forgets. A client that resumes after line \<open>k\<close> and is
  not told that lines are missing gets exactly the lines numbered above \<open>k\<close>. One that is told so gets the whole
  ring: the lines above \<open>k\<close> less some oldest ones, and only if at least 499 are left is any lost.
\<close>
theorem console_snapshot_exact:
  assumes "hm_get (hb_buffers h) sid = Some (ring_run ops)" "lb_next_seq (full_run ops) < 2 ^ 64"
    "snapshot h sid k = (ls, trunc, pend, ok)"
  shows "(\<not> trunc \<longrightarrow> ls = filter (\<lambda>(s, _). k < s) (lb_lines (full_run ops)))
    \<and> (trunc \<longrightarrow> (\<exists>d. filter (\<lambda>(s, _). k < s) (lb_lines (full_run ops)) = d @ ls \<and> (d \<noteq> [] \<longrightarrow> BUFFER_CAP - 1 \<le> length ls)))"
  using snapshot_cases [OF full_run_wf ring_refines_full assms(2,1,3)] by blast

definition small_hub :: "console_op list \<Rightarrow> console_hub" where
  "small_hub ops = \<lparr>hb_buffers = [(1, ring_run ops)], hb_subs = [], hb_log_enabled = True, hb_log_queue = [],
     hb_writer_alive = True, hb_engine = True\<rparr>"

text \<open>Two chunks that split a line, then a resume after the first line.\<close>

definition two_chunks :: "console_op list" where
  "two_chunks = [Append (''up'' @ [newline] @ ''in'') Runtime, Append ''it'' Runtime]"

lemmas two_chunk_defs = two_chunks_def buf_append_def evict_def append_lines_def take_partial_def merge_partial_def push_line_def
  push_tail_def last_seq_def ends_with_def newline_def line_buf_default_def PARTIAL_CAP_def BUFFER_CAP_def

theorem console_snapshot_exact_witness:
  "snapshot (small_hub two_chunks) 1 1 = ([(2, \<lparr>ce_text = ''init'', ce_kind = Runtime\<rparr>)], False, True, 1)
   \<and> filter (\<lambda>(s, _). 1 < s) (lb_lines (full_run two_chunks)) = [(2, \<lparr>ce_text = ''init'', ce_kind = Runtime\<rparr>)]"
proof -
  have s: "snapshot (small_hub two_chunks) 1 1 = ([(2, \<lparr>ce_text = ''init'', ce_kind = Runtime\<rparr>)], False, True, 1)"
    by (simp add: snapshot_def small_hub_def hm_get_def ring_run_def ring_op_def two_chunk_defs)
  have g: "hm_get (hb_buffers (small_hub two_chunks)) 1 = Some (ring_run two_chunks)" by (simp add: small_hub_def hm_get_def)
  have n: "lb_next_seq (full_run two_chunks) < 2 ^ 64" by (simp add: full_run_def full_op_def two_chunk_defs)
  show ?thesis using console_snapshot_exact [OF g n s] s by simp
qed

text \<open>
  C40: the invariant of the ring. It never holds more than 500 lines, they are numbered without gaps up to the
  next number, a pending partial is the last line and of the stream it is recorded for, and no pending line
  grows past its cap and the truncation marker.
\<close>
theorem ring_invariant:
  "length (lb_lines (ring_run ops)) \<le> BUFFER_CAP
   \<and> map fst (lb_lines (ring_run ops)) = [lb_next_seq (ring_run ops) - length (lb_lines (ring_run ops))..<lb_next_seq (ring_run ops)]
   \<and> lb_last_ok (ring_run ops) < lb_next_seq (ring_run ops)
   \<and> (lb_partial (ring_run ops) \<longrightarrow> lb_lines (ring_run ops) \<noteq> []
        \<and> lb_partial_kind (ring_run ops) = Some (ce_kind (snd (last (lb_lines (ring_run ops)))))
        \<and> length (ce_text (snd (last (lb_lines (ring_run ops))))) \<le> PARTIAL_CAP + length PARTIAL_TRUNC_MARKER)"
proof -
  let ?r = "ring_run ops" and ?g = "full_run ops"
  obtain p where p: "?g = prepend p ?r" "p \<noteq> [] \<longrightarrow> BUFFER_CAP - 1 \<le> length (lb_lines ?r)" "length (lb_lines ?r) \<le> BUFFER_CAP"
    using ring_refines_full [of ops] by (auto simp: ring_suffix_def)
  have wf: "full_wf (prepend p ?r)" using full_run_wf [of ops] p(1) by simp
  have m: "map fst p @ map fst (lb_lines ?r) = [lb_next_seq ?r - (length p + length (lb_lines ?r))..<lb_next_seq ?r]"
    "length p + length (lb_lines ?r) < lb_next_seq ?r" using wf by (simp_all add: full_wf_def)
  have "map fst (lb_lines ?r) = drop (length p) (map fst p @ map fst (lb_lines ?r))" by simp
  then have "map fst (lb_lines ?r) = [lb_next_seq ?r - length (lb_lines ?r)..<lb_next_seq ?r]" unfolding m(1) using m(2) by simp
  moreover have "lb_partial ?r \<longrightarrow> lb_lines ?r \<noteq> []" using wf p(2) by (auto simp: full_wf_def BUFFER_CAP_def)
  ultimately show ?thesis using wf p(3) by (auto simp: full_wf_def)
qed

theorem ring_invariant_witness:
  "lb_partial (ring_run two_chunks) \<and> map fst (lb_lines (ring_run two_chunks)) = [1..<3] \<and> lb_lines (ring_run two_chunks) \<noteq> []"
proof -
  have p: "lb_partial (ring_run two_chunks)" "length (lb_lines (ring_run two_chunks)) = 2" "lb_next_seq (ring_run two_chunks) = 3"
    by (simp_all add: ring_run_def ring_op_def two_chunk_defs)
  show ?thesis using ring_invariant [of two_chunks] p by simp
qed

section \<open>Lines against chunks\<close>



lemma split_on_append:
  "split_on c (s @ t) = butlast (split_on c s) @ (last (split_on c s) @ hd (split_on c t)) # tl (split_on c t)"
proof (induction s)
  case Nil then show ?case by (simp add: split_on_nonempty)
next
  case (Cons x s)
  obtain p ps where ps: "split_on c s = p # ps" by (meson neq_Nil_conv split_on_nonempty)
  then show ?case using Cons by (cases ps) auto
qed

lemma split_last_end: "last (split_on newline t) = [] \<longleftrightarrow> t = [] \<or> ends_with [newline] t"
proof (cases t rule: rev_cases)
  case (snoc u x)
  have e: "ends_with [newline] (u @ [x]) \<longleftrightarrow> x = newline" by (auto simp: ends_with_def)
  show ?thesis unfolding snoc e by (auto simp: split_on_append)
qed simp












text \<open>
  The watchers do see the difference. A line that arrives in one chunk is handed to the watcher engine, but a
  line that arrives in two is not: the part that completes a pending line is merged into it and skipped, so no
  watcher ever matches it.
\<close>
theorem split_line_unwatched:
  assumes "hb_engine h" "s \<noteq> []" "t \<noteq> []" "newline \<notin> set s" "newline \<notin> set t" "hm_get (hb_buffers h) sid = None"
  shows "snd (snd (hub_append sid (s @ t @ [newline]) Runtime h)) = [s @ t]
    \<and> snd (snd (hub_append sid s Runtime h)) = []
    \<and> snd (snd (hub_append sid (t @ [newline]) Runtime (fst (hub_append sid s Runtime h)))) = []"
proof -
  have one: "split_on newline u = [u]" if "newline \<notin> set u" for u using that by (induction u) auto
  have two: "split_on newline (u @ [newline]) = [u, []]" if "newline \<notin> set u" for u
    using one [OF that] by (simp add: split_on_append)
  have b: "buffer_of h sid = line_buf_default" using assms(6) by (simp add: buffer_of_def)
  have nl: "newline \<notin> set (s @ t)" using assms by simp
  have e: "\<not> ends_with [newline] s" using split_last_end [of s] one [OF assms(4)] assms(2) by simp
  have whole: "completed_lines ((s @ t) @ [newline]) Runtime line_buf_default = [s @ t]"
    unfolding completed_lines_def two [OF nl] by (simp add: take_partial_def line_buf_default_def evict_def assms(2))
  have first: "completed_lines s Runtime line_buf_default = []" unfolding completed_lines_def one [OF assms(4)] by simp
  let ?b = "buf_append s Runtime line_buf_default"
  have p: "lb_partial ?b \<and> lb_partial_kind ?b = Some Runtime"
    unfolding buf_append_def append_lines_def one [OF assms(4)] using e assms(2)
    by (simp add: push_tail_def evict_def split: prod.split)
  have second: "completed_lines (t @ [newline]) Runtime ?b = []"
    unfolding completed_lines_def two [OF assms(5)] using p by (simp add: take_partial_def evict_def split: prod.split)
  have h1: "buffer_of (fst (hub_append sid s Runtime h)) sid = ?b" "hb_engine (fst (hub_append sid s Runtime h))"
    using assms(1,2) b by (simp_all add: hub_append_def Let_def buffer_of_def try_log_def)
  show ?thesis using whole first second h1 assms(1,2,3) b by (simp add: hub_append_def Let_def)
qed

theorem split_line_unwatched_witness:
  "snd (snd (hub_append 2 (''out of memory'' @ [newline]) Runtime (small_hub []))) = [''out of memory'']
   \<and> snd (snd (hub_append 2 (''of memory'' @ [newline]) Runtime (fst (hub_append 2 ''out '' Runtime (small_hub []))))) = []"
  using split_line_unwatched [of "small_hub []" "''out ''" "''of memory''" 2]
  by (simp add: small_hub_def newline_def hm_get_def)

end
