(* ===== verification/Watchers.thy ===== *)
theory Watchers
  imports Allocations Console
begin

text \<open>
  Console watchers: the engine (\<open>src/src/services/watcher.rs\<close>), the table (\<open>src/src/models.rs\<close>, section Console
  Watcher) and the handlers (\<open>src/src/api/watchers.rs\<close>). The regex compiler is a parameter \<open>rx\<close>: it gives the
  match predicate of a pattern, or \<open>None\<close> where \<open>Regex::new\<close> fails. Clocks are compared in whole seconds. An
  evaluation is one step; the actions it spawns run later, in any order.
\<close>

section \<open>The table\<close>

record console_watcher =
  w_id :: int
  w_server_id :: int
  w_name :: string
  w_pattern :: string
  w_is_regex :: bool
  w_action :: string
  w_action_payload :: string
  w_enabled :: bool
  w_cooldown_secs :: int
  w_last_fired_at :: "stamp option"
  w_trigger_count :: int
  w_created_at :: instant

record wtable =
  wt_rows :: "console_watcher list"
  wt_seq :: int

definition list_watchers :: "wtable \<Rightarrow> int \<Rightarrow> console_watcher list" where
  "list_watchers t sid = sort_key w_id (filter (\<lambda>w. w_server_id w = sid) (wt_rows t))"

definition list_enabled_watchers :: "wtable \<Rightarrow> int \<Rightarrow> console_watcher list" where
  "list_enabled_watchers t sid = sort_key w_id (filter (\<lambda>w. w_server_id w = sid \<and> w_enabled w) (wt_rows t))"

definition get_watcher :: "wtable \<Rightarrow> int \<Rightarrow> console_watcher option" where
  "get_watcher t i = find (\<lambda>w. w_id w = i) (wt_rows t)"

definition create_watcher ::
  "instant \<Rightarrow> int \<Rightarrow> string \<Rightarrow> string \<Rightarrow> bool \<Rightarrow> string \<Rightarrow> string \<Rightarrow> int \<Rightarrow> wtable \<Rightarrow> wtable \<times> int" where
  "create_watcher now sid name pattern is_regex action payload cooldown t =
     (t\<lparr>wt_rows := wt_rows t @ [\<lparr>w_id = wt_seq t + 1, w_server_id = sid, w_name = name, w_pattern = pattern,
          w_is_regex = is_regex, w_action = action, w_action_payload = payload, w_enabled = True, w_cooldown_secs = cooldown,
          w_last_fired_at = None, w_trigger_count = 0, w_created_at = now\<rparr>], wt_seq := wt_seq t + 1\<rparr>, wt_seq t + 1)"

definition update_watcher :: "console_watcher \<Rightarrow> wtable \<Rightarrow> wtable" where
  "update_watcher w t = t\<lparr>wt_rows := update_rows (\<lambda>r. w_id r = w_id w)
     (\<lambda>r. r\<lparr>w_name := w_name w, w_pattern := w_pattern w, w_is_regex := w_is_regex w, w_action := w_action w,
            w_action_payload := w_action_payload w, w_enabled := w_enabled w, w_cooldown_secs := w_cooldown_secs w\<rparr>) (wt_rows t)\<rparr>"

definition delete_watcher :: "int \<Rightarrow> wtable \<Rightarrow> wtable" where
  "delete_watcher i t = t\<lparr>wt_rows := filter (\<lambda>w. w_id w \<noteq> i) (wt_rows t)\<rparr>"

definition record_watcher_fire :: "instant \<Rightarrow> int \<Rightarrow> wtable \<Rightarrow> wtable" where
  "record_watcher_fire now i t = t\<lparr>wt_rows := update_rows (\<lambda>r. w_id r = i)
     (\<lambda>r. r\<lparr>w_last_fired_at := Some (Stamp now), w_trigger_count := w_trigger_count r + 1\<rparr>) (wt_rows t)\<rparr>"

section \<open>The engine\<close>

type_synonym regex_new = "string \<Rightarrow> (string \<Rightarrow> bool) option"

datatype matcher = Literal string | Regex string

definition is_match :: "regex_new \<Rightarrow> matcher \<Rightarrow> string \<Rightarrow> bool" where
  "is_match rx m line = (case m of Literal s \<Rightarrow> contains_sub s line
     | Regex p \<Rightarrow> (case rx p of Some f \<Rightarrow> f line | None \<Rightarrow> False))"

record compiled_watcher =
  cw_id :: int
  cw_matcher :: matcher
  cw_action :: string
  cw_payload :: string
  cw_cooldown_secs :: int
  cw_last_fired :: int

definition try_claim :: "int \<Rightarrow> compiled_watcher \<Rightarrow> compiled_watcher \<times> bool" where
  "try_claim now_secs c =
     (if cw_last_fired c \<noteq> 0 \<and> sat_sub now_secs (cw_last_fired c) < cw_cooldown_secs c then (c, False)
      else (c\<lparr>cw_last_fired := now_secs\<rparr>, True))"

definition timestamp :: "instant \<Rightarrow> int" where
  "timestamp t = t div 10 ^ 9"

definition seed_clock :: "stamp option \<Rightarrow> int" where
  "seed_clock s = (case s of Some (Stamp t) \<Rightarrow> timestamp t | _ \<Rightarrow> 0)"

fun compile_rows :: "regex_new \<Rightarrow> console_watcher list \<Rightarrow> compiled_watcher list" where
  "compile_rows rx [] = []"
| "compile_rows rx (w # ws) =
     (if w_is_regex w \<and> rx (w_pattern w) = None then compile_rows rx ws
      else \<lparr>cw_id = w_id w, cw_matcher = (if w_is_regex w then Regex (w_pattern w) else Literal (w_pattern w)),
             cw_action = w_action w, cw_payload = w_action_payload w, cw_cooldown_secs = max (w_cooldown_secs w) 0,
             cw_last_fired = seed_clock (w_last_fired_at w)\<rparr> # compile_rows rx ws)"

text \<open>A spawned action, as \<open>dispatch\<close> captures it.\<close>

record watcher_job =
  wj_server :: int
  wj_watcher :: int
  wj_action :: string
  wj_payload :: string

record wengine =
  we_table :: wtable
  we_cache :: "(int, nat \<times> compiled_watcher list) hmap"
  we_versions :: "(int, nat) hmap"
  we_jobs :: "watcher_job list"

definition version_of :: "wengine \<Rightarrow> int \<Rightarrow> nat" where
  "version_of g sid = (case hm_get (we_versions g) sid of Some v \<Rightarrow> v | None \<Rightarrow> 0)"

definition invalidate :: "int \<Rightarrow> wengine \<Rightarrow> wengine" where
  "invalidate sid g = g\<lparr>we_versions := hm_insert sid
     (case hm_get (we_versions g) sid of Some v \<Rightarrow> (v + 1) mod 2 ^ 64 | None \<Rightarrow> 1) (we_versions g)\<rparr>"

definition resolve :: "regex_new \<Rightarrow> int \<Rightarrow> wengine \<Rightarrow> wengine \<times> compiled_watcher list option" where
  "resolve rx sid g =
     (let want = version_of g sid;
          fresh = compile_rows rx (list_enabled_watchers (we_table g) sid);
          rebuilt = (g\<lparr>we_cache := hm_insert sid (want, fresh) (we_cache g)\<rparr>, if fresh = [] then None else Some fresh)
      in case hm_get (we_cache g) sid of
           Some (v, ws) \<Rightarrow> if v = want then (g, if ws = [] then None else Some ws) else rebuilt
         | None \<Rightarrow> rebuilt)"

definition eval_one :: "regex_new \<Rightarrow> int \<Rightarrow> string list \<Rightarrow> compiled_watcher \<Rightarrow> compiled_watcher \<times> bool" where
  "eval_one rx now_secs lines c =
     (if \<not> list_ex (is_match rx (cw_matcher c)) lines then (c, False) else try_claim now_secs c)"

definition job_of :: "int \<Rightarrow> compiled_watcher \<Rightarrow> watcher_job" where
  "job_of sid c = \<lparr>wj_server = sid, wj_watcher = cw_id c, wj_action = cw_action c, wj_payload = cw_payload c\<rparr>"

definition evaluate :: "regex_new \<Rightarrow> instant \<Rightarrow> int \<Rightarrow> string list \<Rightarrow> wengine \<Rightarrow> wengine" where
  "evaluate rx now sid lines g =
     (if lines = [] then g
      else case resolve rx sid g of
        (g1, None) \<Rightarrow> g1
      | (g1, Some ws) \<Rightarrow>
          g1\<lparr>we_cache := hm_insert sid (version_of g sid, map (\<lambda>c. fst (eval_one rx (timestamp now) lines c)) ws) (we_cache g1),
             we_jobs := we_jobs g1 @ map (job_of sid) (filter (\<lambda>c. snd (eval_one rx (timestamp now) lines c)) ws)\<rparr>)"

text \<open>What a job does; a missing server or node, or an unknown action, ends it before the fire is recorded.\<close>

datatype watch_effect =
    Notify string string int
  | RemotePower string string power_action
  | LocalRestart int
  | LocalStop int
  | RemoteCommand string string string
  | StdinCommand int string

definition dispatch_effect :: "db \<Rightarrow> (string \<Rightarrow> bool) \<Rightarrow> watcher_job \<Rightarrow> watch_effect option" where
  "dispatch_effect d node_known j =
     (case get_server d (wj_server j) of
        Err _ \<Rightarrow> None
      | Ok srv \<Rightarrow>
          let remote = s_node srv \<noteq> ''local'' in
          if remote \<and> \<not> node_known (s_node srv) then None
          else if wj_action j = ''notify'' then
            Some (Notify (if wj_payload j = ''warn'' \<or> wj_payload j = ''error'' then wj_payload j else ''info'')
                    (s_name srv) (wj_server j))
          else if wj_action j = ''restart'' then
            Some (if remote then RemotePower (s_node srv) (s_uuid srv) PRestart else LocalRestart (wj_server j))
          else if wj_action j = ''stop'' then
            Some (if remote then RemotePower (s_node srv) (s_uuid srv) PStop else LocalStop (wj_server j))
          else if wj_action j = ''command'' then
            Some (if remote then RemoteCommand (s_node srv) (s_uuid srv) (wj_payload j) else StdinCommand (wj_server j) (wj_payload j))
          else None)"

definition run_job :: "instant \<Rightarrow> db \<Rightarrow> (string \<Rightarrow> bool) \<Rightarrow> nat \<Rightarrow> wengine \<Rightarrow> wengine \<times> watch_effect option" where
  "run_job now d node_known k g =
     (if length (we_jobs g) \<le> k then (g, None)
      else
        let j = we_jobs g ! k;
            g1 = g\<lparr>we_jobs := take k (we_jobs g) @ drop (k + 1) (we_jobs g)\<rparr>
        in case dispatch_effect d node_known j of
             None \<Rightarrow> (g1, None)
           | Some x \<Rightarrow> (g1\<lparr>we_table := record_watcher_fire now (wj_watcher j) (we_table g1)\<rparr>, Some x))"

section \<open>The handlers\<close>

definition VALID_ACTIONS :: "string list" where
  "VALID_ACTIONS = [''notify'', ''restart'', ''stop'', ''command'']"
definition NOTIFY_LEVELS :: "string list" where
  "NOTIFY_LEVELS = [''info'', ''warn'', ''error'']"
definition MAX_PATTERN_LEN :: nat where "MAX_PATTERN_LEN = 512"
definition MAX_NAME_LEN :: nat where "MAX_NAME_LEN = 120"

definition normalize_action :: "string \<Rightarrow> string \<Rightarrow> (api_error, string) result" where
  "normalize_action action payload =
     (if action \<notin> set VALID_ACTIONS then Err ApiBadRequest
      else if action = ''notify'' then
        (let level = trim payload in
         if level = [] then Ok ''info'' else if level \<in> set NOTIFY_LEVELS then Ok level else Err ApiBadRequest)
      else if action = ''command'' then
        (if trim payload = [] then Err ApiBadRequest else Ok payload)
      else Ok [])"

definition validate_shape :: "regex_new \<Rightarrow> string \<Rightarrow> string \<Rightarrow> bool \<Rightarrow> (api_error, unit) result" where
  "validate_shape rx name pattern is_regex =
     (if trim name = [] then Err ApiBadRequest
      else if MAX_NAME_LEN < length (trim name) then Err ApiBadRequest
      else if pattern = [] then Err ApiBadRequest
      else if MAX_PATTERN_LEN < length pattern then Err ApiBadRequest
      else if is_regex \<and> rx pattern = None then Err ApiBadRequest
      else Ok ())"

record watcher_req =
  wr_name :: string
  wr_pattern :: string
  wr_is_regex :: bool
  wr_action :: string
  wr_payload :: string
  wr_enabled :: bool
  wr_cooldown :: "int option"

definition api_watchers_list :: "env \<Rightarrow> db \<Rightarrow> user \<Rightarrow> int \<Rightarrow> wengine \<Rightarrow> (api_error, console_watcher list) result" where
  "api_watchers_list e d u sid g =
     rbind (access_ok d u sid) (\<lambda>_.
     rbind (require_capability e d u sid ConsoleRead) (\<lambda>_. Ok (list_watchers (we_table g) sid)))"

definition checked_req :: "regex_new \<Rightarrow> watcher_req \<Rightarrow> (api_error, string \<times> int) result" where
  "checked_req rx q =
     rbind (validate_shape rx (wr_name q) (wr_pattern q) (wr_is_regex q)) (\<lambda>_.
     rbind (normalize_action (wr_action q) (wr_payload q)) (\<lambda>payload.
       let cooldown = (case wr_cooldown q of Some c \<Rightarrow> c | None \<Rightarrow> 0) in
       if cooldown < 0 then Err ApiBadRequest else Ok (payload, cooldown)))"

definition api_watchers_create ::
  "regex_new \<Rightarrow> env \<Rightarrow> db \<Rightarrow> user \<Rightarrow> int \<Rightarrow> watcher_req \<Rightarrow> wengine \<Rightarrow> wengine \<times> (api_error, console_watcher) result" where
  "api_watchers_create rx e d u sid q g =
     (case access_ok d u sid of Err x \<Rightarrow> (g, Err x) | Ok _ \<Rightarrow>
      case require_capability e d u sid ConsoleWrite of Err x \<Rightarrow> (g, Err x) | Ok _ \<Rightarrow>
      case checked_req rx q of Err x \<Rightarrow> (g, Err x) | Ok (payload, cooldown) \<Rightarrow>
      case create_watcher (e_now e) sid (trim (wr_name q)) (wr_pattern q) (wr_is_regex q) (wr_action q) payload cooldown (we_table g) of
        (t, i) \<Rightarrow>
          let g1 = invalidate sid (g\<lparr>we_table := t\<rparr>) in
          (case get_watcher t i of Some w \<Rightarrow> (g1, Ok w) | None \<Rightarrow> (g1, Err ApiInternal)))"

definition owned_watcher :: "wtable \<Rightarrow> int \<Rightarrow> int \<Rightarrow> (api_error, console_watcher) result" where
  "owned_watcher t sid i =
     (case get_watcher t i of None \<Rightarrow> Err ApiNotFound | Some w \<Rightarrow> if w_server_id w \<noteq> sid then Err ApiNotFound else Ok w)"

definition api_watchers_update ::
  "regex_new \<Rightarrow> env \<Rightarrow> db \<Rightarrow> user \<Rightarrow> int \<Rightarrow> int \<Rightarrow> watcher_req \<Rightarrow> wengine \<Rightarrow> wengine \<times> (api_error, console_watcher) result" where
  "api_watchers_update rx e d u sid i q g =
     (case access_ok d u sid of Err x \<Rightarrow> (g, Err x) | Ok _ \<Rightarrow>
      case require_capability e d u sid ConsoleWrite of Err x \<Rightarrow> (g, Err x) | Ok _ \<Rightarrow>
      case checked_req rx q of Err x \<Rightarrow> (g, Err x) | Ok (payload, cooldown) \<Rightarrow>
      case owned_watcher (we_table g) sid i of Err x \<Rightarrow> (g, Err x) | Ok existing \<Rightarrow>
        let w = existing\<lparr>w_id := i, w_server_id := sid, w_name := trim (wr_name q), w_pattern := wr_pattern q,
                  w_is_regex := wr_is_regex q, w_action := wr_action q, w_action_payload := payload,
                  w_enabled := wr_enabled q, w_cooldown_secs := cooldown\<rparr>
        in (invalidate sid (g\<lparr>we_table := update_watcher w (we_table g)\<rparr>), Ok w))"

definition api_watchers_delete :: "env \<Rightarrow> db \<Rightarrow> user \<Rightarrow> int \<Rightarrow> int \<Rightarrow> wengine \<Rightarrow> wengine \<times> (api_error, int) result" where
  "api_watchers_delete e d u sid i g =
     (case access_ok d u sid of Err x \<Rightarrow> (g, Err x) | Ok _ \<Rightarrow>
      case require_capability e d u sid ConsoleWrite of Err x \<Rightarrow> (g, Err x) | Ok _ \<Rightarrow>
      case owned_watcher (we_table g) sid i of Err x \<Rightarrow> (g, Err x) | Ok _ \<Rightarrow>
        (invalidate sid (g\<lparr>we_table := delete_watcher i (we_table g)\<rparr>), Ok i))"

section \<open>Runs\<close>

datatype wstep =
    Lines instant int "string list"
  | Job instant db "string \<Rightarrow> bool" nat
  | CreateW env db user int watcher_req
  | UpdateW env db user int int watcher_req
  | DeleteW env db user int int

definition wstep :: "regex_new \<Rightarrow> wstep \<Rightarrow> wengine \<Rightarrow> wengine" where
  "wstep rx s g = (case s of
     Lines now sid lines \<Rightarrow> evaluate rx now sid lines g
   | Job now d nk k \<Rightarrow> fst (run_job now d nk k g)
   | CreateW e d u sid q \<Rightarrow> fst (api_watchers_create rx e d u sid q g)
   | UpdateW e d u sid i q \<Rightarrow> fst (api_watchers_update rx e d u sid i q g)
   | DeleteW e d u sid i \<Rightarrow> fst (api_watchers_delete e d u sid i g))"

definition wengine0 :: wengine where
  "wengine0 = \<lparr>we_table = \<lparr>wt_rows = [], wt_seq = 0\<rparr>, we_cache = [], we_versions = [], we_jobs = []\<rparr>"

fun wrun :: "regex_new \<Rightarrow> wstep list \<Rightarrow> wengine \<Rightarrow> wengine" where
  "wrun rx [] g = g"
| "wrun rx (s # ss) g = wrun rx ss (wstep rx s g)"

section \<open>The invariant of the engine\<close>

definition row_ok :: "regex_new \<Rightarrow> console_watcher \<Rightarrow> bool" where
  "row_ok rx w \<longleftrightarrow> w_name w \<noteq> [] \<and> length (w_name w) \<le> MAX_NAME_LEN \<and> w_pattern w \<noteq> [] \<and> length (w_pattern w) \<le> MAX_PATTERN_LEN
     \<and> (w_is_regex w \<longrightarrow> rx (w_pattern w) \<noteq> None) \<and> w_action w \<in> set VALID_ACTIONS
     \<and> (w_action w = ''notify'' \<longrightarrow> w_action_payload w \<in> set NOTIFY_LEVELS)
     \<and> (w_action w = ''command'' \<longrightarrow> trim (w_action_payload w) \<noteq> []) \<and> 0 \<le> w_cooldown_secs w"

definition table_wf :: "regex_new \<Rightarrow> wtable \<Rightarrow> bool" where
  "table_wf rx t \<longleftrightarrow> distinct (map w_id (wt_rows t)) \<and> (\<forall>w\<in>set (wt_rows t). w_id w \<le> wt_seq t \<and> row_ok rx w)"

text \<open>A compiled set up to its clocks.\<close>

definition unclocked :: "compiled_watcher list \<Rightarrow> compiled_watcher list" where
  "unclocked ws = map (\<lambda>c. c\<lparr>cw_last_fired := 0\<rparr>) ws"

definition cache_wf :: "regex_new \<Rightarrow> wengine \<Rightarrow> bool" where
  "cache_wf rx g \<longleftrightarrow> (\<forall>sid v ws. hm_get (we_cache g) sid = Some (v, ws) \<longrightarrow> v \<le> version_of g sid
     \<and> (v = version_of g sid \<longrightarrow> unclocked ws = unclocked (compile_rows rx (list_enabled_watchers (we_table g) sid))))"

definition winv :: "regex_new \<Rightarrow> nat \<Rightarrow> wengine \<Rightarrow> bool" where
  "winv rx n g \<longleftrightarrow> table_wf rx (we_table g) \<and> cache_wf rx g \<and> (\<forall>sid. version_of g sid \<le> n)"

lemma version_invalidate:
  "version_of g sid < 2 ^ 64 - 1 \<Longrightarrow> version_of (invalidate sid g) sid' = (if sid' = sid then version_of g sid + 1 else version_of g sid')"
  by (auto simp: version_of_def invalidate_def split: option.splits)

lemma invalidate_keeps [simp]: "we_cache (invalidate sid g) = we_cache g" "we_table (invalidate sid g) = we_table g" "we_jobs (invalidate sid g) = we_jobs g"
  by (simp_all add: invalidate_def)

lemma version_of_table [simp]: "version_of (g\<lparr>we_table := t\<rparr>) sid = version_of g sid" "version_of (g\<lparr>we_cache := c\<rparr>) sid = version_of g sid"
  "version_of (g\<lparr>we_jobs := js\<rparr>) sid = version_of g sid"
  by (simp_all add: version_of_def)

text \<open>A change of a server's rows, then the invalidation.\<close>

definition keeps_others :: "int \<Rightarrow> wtable \<Rightarrow> wtable \<Rightarrow> bool" where
  "keeps_others sid t t' \<longleftrightarrow> (\<forall>r. r \<noteq> sid \<longrightarrow> list_enabled_watchers t' r = list_enabled_watchers t r)"

lemma winv_crud:
  assumes "winv rx n g" "n < 2 ^ 64 - 1" "table_wf rx t" "keeps_others sid (we_table g) t"
  shows "winv rx (n + 1) (invalidate sid (g\<lparr>we_table := t\<rparr>))"
proof -
  let ?g = "invalidate sid (g\<lparr>we_table := t\<rparr>)"
  have v: "version_of ?g r = (if r = sid then version_of g sid + 1 else version_of g r)" for r
  proof -
    have "version_of g sid < 2 ^ 64 - 1" using assms(1,2) le_less_trans unfolding winv_def by blast
    then show ?thesis using version_invalidate [of "g\<lparr>we_table := t\<rparr>" sid r] by simp
  qed
  have "cache_wf rx ?g"
    unfolding cache_wf_def
  proof (intro allI impI)
    fix r q ws assume "hm_get (we_cache ?g) r = Some (q, ws)"
    then have q: "q \<le> version_of g r" "q = version_of g r \<longrightarrow> unclocked ws = unclocked (compile_rows rx (list_enabled_watchers (we_table g) r))"
      using assms(1) by (auto simp: winv_def cache_wf_def)
    show "q \<le> version_of ?g r \<and> (q = version_of ?g r \<longrightarrow> unclocked ws = unclocked (compile_rows rx (list_enabled_watchers (we_table ?g) r)))"
      unfolding v using q assms(4) by (auto simp: keeps_others_def)
  qed
  then show ?thesis using assms(1,3) v by (auto simp: winv_def le_SucI)
qed

lemma normalized_payload:
  "normalize_action a p = Ok x \<Longrightarrow> a \<in> set VALID_ACTIONS \<and> (a = ''notify'' \<longrightarrow> x \<in> set NOTIFY_LEVELS) \<and> (a = ''command'' \<longrightarrow> trim x \<noteq> [])"
  by (auto simp: normalize_action_def Let_def NOTIFY_LEVELS_def split: if_splits)

lemma checked_row:
  assumes "checked_req rx q = Ok (payload, cooldown)"
  shows "row_ok rx (w\<lparr>w_name := trim (wr_name q), w_pattern := wr_pattern q, w_is_regex := wr_is_regex q, w_action := wr_action q,
    w_action_payload := payload, w_cooldown_secs := cooldown\<rparr>)"
proof -
  have v: "validate_shape rx (wr_name q) (wr_pattern q) (wr_is_regex q) = Ok ()"
    and n: "normalize_action (wr_action q) (wr_payload q) = Ok payload" and c: "0 \<le> cooldown"
    using assms by (auto simp: checked_req_def rbind_def Let_def split: sum.splits if_splits)
  then show ?thesis using normalized_payload [OF n] by (auto simp: row_ok_def validate_shape_def split: if_splits)
qed

lemma watcher_create_wf:
  assumes "table_wf rx t" "checked_req rx q = Ok (payload, cooldown)"
    "create_watcher now sid (trim (wr_name q)) (wr_pattern q) (wr_is_regex q) (wr_action q) payload cooldown t = (t', i)"
  shows "table_wf rx t' \<and> keeps_others sid t t'"
proof -
  let ?w = "\<lparr>w_id = wt_seq t + 1, w_server_id = sid, w_name = trim (wr_name q), w_pattern = wr_pattern q,
    w_is_regex = wr_is_regex q, w_action = wr_action q, w_action_payload = payload, w_enabled = True, w_cooldown_secs = cooldown,
    w_last_fired_at = None, w_trigger_count = 0, w_created_at = now\<rparr>"
  have t': "t' = t\<lparr>wt_rows := wt_rows t @ [?w], wt_seq := wt_seq t + 1\<rparr>" using assms(3) by (auto simp: create_watcher_def)
  have ok: "row_ok rx ?w" using checked_row [OF assms(2), of ?w] by simp
  have fresh: "wt_seq t + 1 \<notin> w_id ` set (wt_rows t)" using assms(1) by (force simp: table_wf_def)
  have "table_wf rx t'" using assms(1) ok fresh by (auto simp: table_wf_def t')
  then show ?thesis by (simp add: keeps_others_def list_enabled_watchers_def t')
qed

lemma get_watcher_in: "get_watcher t i = Some w \<Longrightarrow> w \<in> set (wt_rows t) \<and> w_id w = i"
  by (auto simp: get_watcher_def find_Some_iff)

lemma owned_only:
  assumes "table_wf rx t" "owned_watcher t sid i = Ok w" "r \<in> set (wt_rows t)" "w_id r = i"
  shows "w_server_id r = sid"
proof -
  have w: "w \<in> set (wt_rows t)" "w_id w = i" "w_server_id w = sid"
    using assms(2) get_watcher_in by (auto simp: owned_watcher_def split: option.splits if_splits)
  have "r = w" using assms w by (metis distinct_map inj_onD table_wf_def)
  then show ?thesis using w by simp
qed

lemma filter_update_other:
  "\<forall>r\<in>set rs. P r \<longrightarrow> \<not> Q r \<and> \<not> Q (f r) \<Longrightarrow> filter Q (update_rows P f rs) = filter Q rs"
  by (induction rs) (auto simp: update_rows_def)

lemma update_wf:
  assumes "table_wf rx t" "checked_req rx q = Ok (payload, cooldown)" "owned_watcher t sid i = Ok w0"
    "w = w0\<lparr>w_id := i, w_server_id := sid, w_name := trim (wr_name q), w_pattern := wr_pattern q, w_is_regex := wr_is_regex q,
       w_action := wr_action q, w_action_payload := payload, w_enabled := wr_enabled q, w_cooldown_secs := cooldown\<rparr>"
  shows "table_wf rx (update_watcher w t) \<and> keeps_others sid t (update_watcher w t)"
proof
  have ids: "map w_id (wt_rows (update_watcher w t)) = map w_id (wt_rows t)" by (simp add: update_watcher_def update_rows_def)
  have "row_ok rx r" if new: "r \<in> set (wt_rows (update_watcher w t))" for r
  proof -
    obtain r0 where r0: "r0 \<in> set (wt_rows t)" "r = (if w_id r0 = i then r0\<lparr>w_name := trim (wr_name q), w_pattern := wr_pattern q,
        w_is_regex := wr_is_regex q, w_action := wr_action q, w_action_payload := payload, w_enabled := wr_enabled q, w_cooldown_secs := cooldown\<rparr> else r0)"
      using new by (auto simp: update_watcher_def update_rows_def assms(4))
    have "row_ok rx (r0\<lparr>w_name := trim (wr_name q), w_pattern := wr_pattern q,
        w_is_regex := wr_is_regex q, w_action := wr_action q, w_action_payload := payload, w_enabled := wr_enabled q, w_cooldown_secs := cooldown\<rparr>)"
      using checked_row [OF assms(2), of "r0\<lparr>w_enabled := wr_enabled q\<rparr>"] by (simp only: row_ok_def) simp
    then show ?thesis using r0 assms(1) by (simp add: table_wf_def)
  qed
  moreover have "w_id r \<le> wt_seq t" if "r \<in> set (wt_rows (update_watcher w t))" for r
    using that assms(1) by (auto simp: table_wf_def update_watcher_def update_rows_def)
  ultimately show "table_wf rx (update_watcher w t)" using assms(1) ids by (simp add: table_wf_def update_watcher_def)
  show "keeps_others sid t (update_watcher w t)"
    unfolding keeps_others_def list_enabled_watchers_def update_watcher_def
    using owned_only [OF assms(1,3)] by (auto simp: assms(4) intro!: arg_cong [of _ _ "sort_key w_id"] filter_update_other)
qed

lemma delete_wf:
  assumes "table_wf rx t" "owned_watcher t sid i = Ok w0"
  shows "table_wf rx (delete_watcher i t) \<and> keeps_others sid t (delete_watcher i t)"
proof -
  have "filter (\<lambda>w. w_server_id w = r \<and> w_enabled w) (filter (\<lambda>w. w_id w \<noteq> i) (wt_rows t)) = filter (\<lambda>w. w_server_id w = r \<and> w_enabled w) (wt_rows t)"
    if "r \<noteq> sid" for r
    using that owned_only [OF assms] by (auto intro!: filter_cong)
  then show ?thesis using assms(1) by (auto simp: table_wf_def keeps_others_def list_enabled_watchers_def delete_watcher_def distinct_map_filter)
qed

lemma crud_cases:
  assumes "table_wf rx (we_table g)" "s = CreateW e d u sid q \<or> s = UpdateW e d u sid i q \<or> s = DeleteW e d u sid i"
  shows "wstep rx s g = g \<or> (\<exists>t. wstep rx s g = invalidate sid (g\<lparr>we_table := t\<rparr>) \<and> table_wf rx t \<and> keeps_others sid (we_table g) t)"
  using assms(2)
proof (elim disjE)
  assume s: "s = CreateW e d u sid q"
  show ?thesis
    unfolding s wstep_def wstep.case api_watchers_create_def
    using watcher_create_wf [OF assms(1)] by (auto simp: Let_def split: sum.split prod.split option.split)
next
  assume s: "s = UpdateW e d u sid i q"
  show ?thesis
    unfolding s wstep_def wstep.case api_watchers_update_def
    using update_wf [OF assms(1)] by (auto simp: Let_def split: sum.split prod.split)
next
  assume s: "s = DeleteW e d u sid i"
  show ?thesis
    unfolding s wstep_def wstep.case api_watchers_delete_def
    using delete_wf [OF assms(1)] by (auto split: sum.split)
qed

definition stamped :: "instant \<Rightarrow> int \<Rightarrow> console_watcher \<Rightarrow> console_watcher" where
  "stamped now i r = (if w_id r = i then r\<lparr>w_last_fired_at := Some (Stamp now), w_trigger_count := w_trigger_count r + 1\<rparr> else r)"

lemma stamped_simps [simp]:
  "w_id (stamped now i r) = w_id r" "w_server_id (stamped now i r) = w_server_id r" "w_enabled (stamped now i r) = w_enabled r"
  "w_cooldown_secs (stamped now i r) = w_cooldown_secs r" "row_ok rx (stamped now i r) = row_ok rx r"
  by (simp_all add: stamped_def row_ok_def)

lemma record_stamped: "wt_rows (record_watcher_fire now i t) = map (stamped now i) (wt_rows t)" "wt_seq (record_watcher_fire now i t) = wt_seq t"
  by (simp_all add: record_watcher_fire_def update_rows_def stamped_def)

lemma sort_map_keys:
  assumes "\<And>x. f (h x) = f x"
  shows "sort_key f (map h xs) = map h (sort_key f xs)"
proof -
  have "insort_key f (h x) (map h ys) = map h (insort_key f x ys)" for x ys by (induction ys) (simp_all add: assms)
  then show ?thesis by (induction xs) simp_all
qed

lemma list_enabled_record:
  "list_enabled_watchers (record_watcher_fire now i t) sid = map (stamped now i) (list_enabled_watchers t sid)"
  by (simp add: list_enabled_watchers_def record_stamped filter_map comp_def sort_map_keys)

lemma compile_record:
  "unclocked (compile_rows rx (list_enabled_watchers (record_watcher_fire now i t) sid)) = unclocked (compile_rows rx (list_enabled_watchers t sid))"
proof -
  have "unclocked (compile_rows rx (map (stamped now i) ws)) = unclocked (compile_rows rx ws)" for ws
    by (induction ws) (simp_all add: unclocked_def stamped_def)
  then show ?thesis by (simp add: list_enabled_record)
qed

lemma winv_job: "winv rx n g \<Longrightarrow> winv rx n (fst (run_job now d nk k g))"
proof -
  assume w: "winv rx n g"
  have "cache_wf rx (g\<lparr>we_jobs := js, we_table := record_watcher_fire now i (we_table g)\<rparr>)" for i js
    using w by (auto simp: winv_def cache_wf_def compile_record)
  moreover have "cache_wf rx (g\<lparr>we_jobs := js\<rparr>)" for js using w by (auto simp: winv_def cache_wf_def)
  moreover have "table_wf rx (record_watcher_fire now i (we_table g))" for i
    using w by (auto simp: winv_def table_wf_def record_stamped comp_def)
  ultimately show ?thesis using w by (simp add: run_job_def Let_def winv_def split: option.split)
qed

lemma eval_one_unclocked: "(fst (eval_one rx now ls c))\<lparr>cw_last_fired := 0\<rparr> = c\<lparr>cw_last_fired := 0\<rparr>"
  by (simp add: eval_one_def try_claim_def)

text \<open>What an evaluation works on: the cached set when its version is current, the rows compiled afresh otherwise.\<close>

definition live_set :: "regex_new \<Rightarrow> int \<Rightarrow> wengine \<Rightarrow> compiled_watcher list" where
  "live_set rx sid g =
     (case hm_get (we_cache g) sid of
        Some (v, ws) \<Rightarrow> if v = version_of g sid then ws else compile_rows rx (list_enabled_watchers (we_table g) sid)
      | None \<Rightarrow> compile_rows rx (list_enabled_watchers (we_table g) sid))"

lemma evaluate_live:
  assumes "lines \<noteq> []"
  shows "we_table (evaluate rx now sid lines g) = we_table g \<and> we_versions (evaluate rx now sid lines g) = we_versions g
    \<and> (\<forall>r. hm_get (we_cache (evaluate rx now sid lines g)) r =
         (if r = sid then Some (version_of g sid, map (\<lambda>c. fst (eval_one rx (timestamp now) lines c)) (live_set rx sid g)) else hm_get (we_cache g) r))
    \<and> we_jobs (evaluate rx now sid lines g)
         = we_jobs g @ map (job_of sid) (filter (\<lambda>c. snd (eval_one rx (timestamp now) lines c)) (live_set rx sid g))"
proof (cases "hm_get (we_cache g) sid")
  case None
  then show ?thesis using assms by (auto simp: evaluate_def resolve_def live_set_def Let_def)
next
  case (Some p)
  then show ?thesis using assms by (cases p) (auto simp: evaluate_def resolve_def live_set_def Let_def)
qed

lemma live_unclocked: "winv rx n g \<Longrightarrow> unclocked (live_set rx sid g) = unclocked (compile_rows rx (list_enabled_watchers (we_table g) sid))"
  by (auto simp: winv_def cache_wf_def live_set_def split: option.split)

lemma version_evaluate: "version_of (evaluate rx now sid lines g) r = version_of g r"
  using evaluate_live [of lines rx now sid g] by (cases "lines = []") (simp_all add: version_of_def evaluate_def)

lemma winv_evaluate: "winv rx n g \<Longrightarrow> winv rx n (evaluate rx now sid lines g)"
proof (cases "lines = []")
  case False
  assume w: "winv rx n g"
  note e = evaluate_live [OF False, of rx now sid g]
  have u: "unclocked (map (\<lambda>c. fst (eval_one rx (timestamp now) lines c)) ws) = unclocked ws" for ws
    by (simp add: unclocked_def eval_one_unclocked comp_def)
  have "cache_wf rx (evaluate rx now sid lines g)"
    unfolding cache_wf_def version_evaluate using e w u live_unclocked [OF w] by (auto simp: winv_def cache_wf_def)
  then show ?thesis using w e by (simp add: winv_def version_evaluate)
qed (simp add: evaluate_def)

lemma winv_step:
  assumes "winv rx n g" "n < 2 ^ 64 - 1"
  shows "winv rx (n + 1) (wstep rx s g)"
proof -
  have up: "winv rx n h \<Longrightarrow> winv rx (n + 1) h" for h by (auto simp: winv_def le_SucI)
  have crud: "winv rx (n + 1) (wstep rx s g)" if "s = CreateW e d u sid q \<or> s = UpdateW e d u sid i q \<or> s = DeleteW e d u sid i" for e d u sid q i
    using crud_cases [OF _ that] winv_crud [OF assms] up assms(1) by (metis winv_def)
  show ?thesis
  proof (cases s)
    case Lines then show ?thesis using up winv_evaluate assms(1) by (simp add: wstep_def)
  next
    case Job then show ?thesis using up winv_job assms(1) by (simp add: wstep_def)
  qed (use crud in blast)+
qed

lemma winv_run: "winv rx n g \<Longrightarrow> n + length ss < 2 ^ 64 \<Longrightarrow> winv rx (n + length ss) (wrun rx ss g)"
proof (induction ss arbitrary: n g)
  case (Cons s ss)
  then have "winv rx (n + 1) (wstep rx s g)" by (intro winv_step) simp_all
  then show ?case using Cons.IH [of "n + 1"] Cons.prems by simp
qed simp

lemma winv0: "winv rx 0 wengine0"
  by (simp add: winv_def wengine0_def table_wf_def cache_wf_def version_of_def)

section \<open>What fires\<close>

lemma compiled_from:
  "c \<in> set (compile_rows rx ws) \<Longrightarrow> \<exists>w\<in>set ws. cw_id c = w_id w \<and> cw_action c = w_action w \<and> cw_payload c = w_action_payload w
     \<and> cw_cooldown_secs c = max (w_cooldown_secs w) 0 \<and> cw_matcher c = (if w_is_regex w then Regex (w_pattern w) else Literal (w_pattern w))"
  by (induction ws) (auto split: if_splits)

lemma live_from:
  assumes "winv rx n g" "c \<in> set (live_set rx sid g)"
  shows "\<exists>w\<in>set (wt_rows (we_table g)). w_server_id w = sid \<and> w_enabled w \<and> cw_id c = w_id w \<and> cw_action c = w_action w
    \<and> cw_payload c = w_action_payload w \<and> cw_cooldown_secs c = w_cooldown_secs w
    \<and> cw_matcher c = (if w_is_regex w then Regex (w_pattern w) else Literal (w_pattern w))"
proof -
  have "c\<lparr>cw_last_fired := 0\<rparr> \<in> set (unclocked (live_set rx sid g))" using assms(2) by (simp add: unclocked_def)
  then obtain c' where c': "c' \<in> set (compile_rows rx (list_enabled_watchers (we_table g) sid))" "c\<lparr>cw_last_fired := 0\<rparr> = c'\<lparr>cw_last_fired := 0\<rparr>"
    unfolding live_unclocked [OF assms(1)] by (auto simp: unclocked_def)
  have eq: "cw_id c = cw_id c'" "cw_action c = cw_action c'" "cw_payload c = cw_payload c'" "cw_cooldown_secs c = cw_cooldown_secs c'"
    "cw_matcher c = cw_matcher c'"
    using arg_cong [OF c'(2), of cw_id] arg_cong [OF c'(2), of cw_action] arg_cong [OF c'(2), of cw_payload]
      arg_cong [OF c'(2), of cw_cooldown_secs] arg_cong [OF c'(2), of cw_matcher] by simp_all
  obtain w where w: "w \<in> set (list_enabled_watchers (we_table g) sid)" "cw_id c' = w_id w" "cw_action c' = w_action w"
    "cw_payload c' = w_action_payload w" "cw_cooldown_secs c' = max (w_cooldown_secs w) 0"
    "cw_matcher c' = (if w_is_regex w then Regex (w_pattern w) else Literal (w_pattern w))" using compiled_from [OF c'(1)] by blast
  have r: "w \<in> set (wt_rows (we_table g))" "w_server_id w = sid" "w_enabled w" using w(1) by (auto simp: list_enabled_watchers_def)
  then have "0 \<le> w_cooldown_secs w" using assms(1) by (auto simp: winv_def table_wf_def row_ok_def)
  then show ?thesis using eq w r by (intro bexI [of _ w]) simp_all
qed

text \<open>The pattern of a row, compiled afresh.\<close>

definition row_matches :: "regex_new \<Rightarrow> console_watcher \<Rightarrow> string \<Rightarrow> bool" where
  "row_matches rx w line = is_match rx (if w_is_regex w then Regex (w_pattern w) else Literal (w_pattern w)) line"


section \<open>The cooldown\<close>

definition fires :: "regex_new \<Rightarrow> int \<Rightarrow> int \<Rightarrow> instant \<Rightarrow> string list \<Rightarrow> wengine \<Rightarrow> bool" where
  "fires rx sid wid now lines g \<longleftrightarrow>
     (\<exists>j\<in>set (drop (length (we_jobs g)) (we_jobs (evaluate rx now sid lines g))). wj_watcher j = wid)"














text \<open>A server's compiled set after an invalidation is built from the rows.\<close>

lemma live_after_invalidate:
  assumes "winv rx n g" "n < 2 ^ 64 - 1"
  shows "live_set rx sid (invalidate sid g) = compile_rows rx (list_enabled_watchers (we_table g) sid)"
proof -
  have "version_of g sid < 2 ^ 64 - 1" using assms le_less_trans unfolding winv_def by blast
  then have "version_of (invalidate sid g) sid = version_of g sid + 1" using version_invalidate by simp
  moreover have "v \<le> version_of g sid" if "hm_get (we_cache g) sid = Some (v, ws)" for v ws
    using assms(1) that by (simp add: winv_def cache_wf_def)
  ultimately show ?thesis by (auto simp: live_set_def split: option.split)
qed

lemma winv_invalidate: "winv rx n g \<Longrightarrow> n < 2 ^ 64 - 1 \<Longrightarrow> winv rx (n + 1) (invalidate sid g)"
  using winv_crud [of rx n g "we_table g" sid] by (simp add: winv_def keeps_others_def)

lemma compiled_row:
  "w \<in> set ws \<Longrightarrow> \<not> w_is_regex w \<Longrightarrow> \<lparr>cw_id = w_id w, cw_matcher = Literal (w_pattern w), cw_action = w_action w,
     cw_payload = w_action_payload w, cw_cooldown_secs = max (w_cooldown_secs w) 0, cw_last_fired = seed_clock (w_last_fired_at w)\<rparr>
     \<in> set (compile_rows rx ws)"
  by (induction ws) auto

lemma fires_after_invalidate:
  assumes "winv rx n g" "n < 2 ^ 64 - 1" "w \<in> set (wt_rows (we_table g))" "w_server_id w = sid" "w_enabled w" "\<not> w_is_regex w"
    "w_last_fired_at w = None" "contains_sub (w_pattern w) line"
  shows "fires rx sid (w_id w) now [line] (invalidate sid g)"
proof -
  let ?c = "\<lparr>cw_id = w_id w, cw_matcher = Literal (w_pattern w), cw_action = w_action w,
     cw_payload = w_action_payload w, cw_cooldown_secs = max (w_cooldown_secs w) 0, cw_last_fired = seed_clock (w_last_fired_at w)\<rparr>"
  have "w \<in> set (list_enabled_watchers (we_table g) sid)" using assms(3-5) by (simp add: list_enabled_watchers_def)
  then have "?c \<in> set (live_set rx sid (invalidate sid g))" unfolding live_after_invalidate [OF assms(1,2)] using compiled_row assms(6) by blast
  moreover have "snd (eval_one rx (timestamp now) [line] ?c)"
    using assms(7,8) by (simp add: eval_one_def is_match_def try_claim_def seed_clock_def)
  ultimately show ?thesis using evaluate_live [of "[line]" rx now sid "invalidate sid g"] by (force simp: fires_def job_of_def)
qed

text \<open>
  The cooldown does not survive an edit. The clock is rebuilt from the recorded fire, and that is written only
  after the action has run: when any watcher of the server is edited in between, a watcher that has just fired
  fires again at once, however long its cooldown is.
\<close>
theorem edit_rearms_watcher:
  assumes "length ss < 2 ^ 63" "g = wrun rx ss wengine0" "w \<in> set (wt_rows (we_table g))" "w_server_id w = sid" "w_enabled w"
    "\<not> w_is_regex w" "w_last_fired_at w = None" "contains_sub (w_pattern w) line"
  shows "fires rx sid (w_id w) now [line] (invalidate sid g)
    \<and> fires rx sid (w_id w) now [line] (invalidate sid (evaluate rx now sid [line] (invalidate sid g)))"
proof -
  have w: "winv rx (length ss) g" using winv_run [OF winv0, of ss rx] assms(1,2) by simp
  then have w1: "winv rx (length ss + 1) (evaluate rx now sid [line] (invalidate sid g))"
    using winv_invalidate winv_evaluate assms(1) by simp
  have t: "we_table (evaluate rx now sid [line] (invalidate sid g)) = we_table g" using evaluate_live [of "[line]" rx now sid "invalidate sid g"] by simp
  show ?thesis using fires_after_invalidate [OF w _ assms(3-8)] fires_after_invalidate [OF w1 _ _ assms(4-8)] assms(1,3) t by simp
qed

section \<open>The handlers keep to their server\<close>

text \<open>
  A caller without the write capability on a server changes no watcher, and a watcher id that does not belong to
  the server of the request is never touched, with the same answer as for an id that does not exist.
\<close>
theorem watcher_api_confined:
  "(user_has_capability (e_json e) d u sid ConsoleWrite \<noteq> Ok True \<longrightarrow>
      fst (api_watchers_create rx e d u sid q g) = g \<and> fst (api_watchers_update rx e d u sid i q g) = g
      \<and> fst (api_watchers_delete e d u sid i g) = g)
   \<and> ((\<forall>w\<in>set (wt_rows (we_table g)). w_id w = i \<or> w_id w = i' \<longrightarrow> w_server_id w \<noteq> sid) \<longrightarrow>
      api_watchers_update rx e d u sid i q g = api_watchers_update rx e d u sid i' q g \<and> fst (api_watchers_update rx e d u sid i q g) = g
      \<and> snd (api_watchers_delete e d u sid i g) = snd (api_watchers_delete e d u sid i' g) \<and> fst (api_watchers_delete e d u sid i g) = g)"
proof (intro conjI impI)
  assume n: "user_has_capability (e_json e) d u sid ConsoleWrite \<noteq> Ok True"
  obtain x where x: "require_capability e d u sid ConsoleWrite = Err x"
    using n by (cases "user_has_capability (e_json e) d u sid ConsoleWrite") (auto simp: require_capability_def of_model_def)
  show "fst (api_watchers_create rx e d u sid q g) = g" by (simp add: api_watchers_create_def x split: sum.split)
  show "fst (api_watchers_update rx e d u sid i q g) = g" by (simp add: api_watchers_update_def x split: sum.split)
  show "fst (api_watchers_delete e d u sid i g) = g" by (simp add: api_watchers_delete_def x split: sum.split)
next
  assume f: "\<forall>w\<in>set (wt_rows (we_table g)). w_id w = i \<or> w_id w = i' \<longrightarrow> w_server_id w \<noteq> sid"
  have o: "owned_watcher (we_table g) sid k = Err ApiNotFound" if "k = i \<or> k = i'" for k
    using f that get_watcher_in by (auto simp: owned_watcher_def split: option.split)
  show "api_watchers_update rx e d u sid i q g = api_watchers_update rx e d u sid i' q g"
    "fst (api_watchers_update rx e d u sid i q g) = g" by (simp_all add: api_watchers_update_def o split: sum.split prod.split)
  show "snd (api_watchers_delete e d u sid i g) = snd (api_watchers_delete e d u sid i' g)"
    "fst (api_watchers_delete e d u sid i g) = g" by (simp_all add: api_watchers_delete_def o split: sum.split)
qed

section \<open>Witnesses\<close>

definition wroot :: user where
  "wroot = (wuser 1)\<lparr>u_root_admin := True\<rparr>"

definition oom_req :: watcher_req where
  "oom_req = \<lparr>wr_name = ''oom'', wr_pattern = ''memory'', wr_is_regex = False, wr_action = ''restart'', wr_payload = [], wr_enabled = True,
     wr_cooldown = Some 600\<rparr>"

definition oom_row :: console_watcher where
  "oom_row = \<lparr>w_id = 1, w_server_id = 7, w_name = ''oom'', w_pattern = ''memory'', w_is_regex = False, w_action = ''restart'',
     w_action_payload = [], w_enabled = True, w_cooldown_secs = 600, w_last_fired_at = None, w_trigger_count = 0, w_created_at = 5\<rparr>"

definition no_regex :: regex_new where
  "no_regex p = None"

abbreviation oom_engine :: wengine where
  "oom_engine \<equiv> wrun no_regex [CreateW wenv wadb wroot 7 oom_req] wengine0"

lemma oom_engine_is:
  "oom_engine = \<lparr>we_table = \<lparr>wt_rows = [oom_row], wt_seq = 1\<rparr>, we_cache = [], we_versions = [(7, 1)], we_jobs = []\<rparr>"
proof -
  have "trim ''oom'' = ''oom''" by code_simp
  then have r: "checked_req no_regex oom_req = Ok ([], 600)"
    by (simp add: checked_req_def validate_shape_def normalize_action_def oom_req_def VALID_ACTIONS_def MAX_NAME_LEN_def MAX_PATTERN_LEN_def)
  have a: "access_ok wadb wroot 7 = Ok ((wserver 7 1)\<lparr>s_port := Some 2000\<rparr>)"
    by (simp add: access_ok_def of_model_def get_server_def user_has_server_access_def wroot_def alloc_witness)
  have c: "require_capability wenv wadb wroot 7 ConsoleWrite = Ok ()"
    by (simp add: require_capability_def of_model_def user_has_capability_def server_grant_def raw_server_grant_def wroot_def wuser_def
        grant_owner_def grant_contains_def ALL_CAPS_def)
  show ?thesis
    using \<open>trim ''oom'' = ''oom''\<close> unfolding wrun.simps wstep_def wstep.case api_watchers_create_def a c r sum.case prod.case
    by (simp add: create_watcher_def get_watcher_def wengine0_def invalidate_def oom_req_def oom_row_def wenv_def hm_insert_def hm_remove_def)
qed




theorem edit_rearms_watcher_witness:
  "fires no_regex 7 1 9 [''out of memory''] (invalidate 7 (evaluate no_regex 9 7 [''out of memory''] (invalidate 7 oom_engine)))"
proof -
  have r: "oom_row \<in> set (wt_rows (we_table oom_engine))" unfolding oom_engine_is by simp
  show ?thesis
    using edit_rearms_watcher [OF _ refl r, of 7 "''out of memory''" 9] by (simp add: oom_row_def contains_sub_def starts_with_def)
qed

theorem watcher_api_confined_witness:
  "fst (api_watchers_delete wenv wadb wroot 8 1 oom_engine) = oom_engine"
proof -
  have "\<forall>w\<in>set (wt_rows (we_table oom_engine)). w_id w = 1 \<or> w_id w = 2 \<longrightarrow> w_server_id w \<noteq> 8"
    unfolding oom_engine_is by (simp add: oom_row_def)
  then show ?thesis using watcher_api_confined [of wenv wadb wroot 8 no_regex oom_req oom_engine 1 2] by blast
qed

section \<open>From the console to the watchers\<close>

text \<open>The end of \<open>append\<close>: the completed lines of a chunk are evaluated once the ring is released.\<close>

definition console_feed ::
  "regex_new \<Rightarrow> instant \<Rightarrow> int \<Rightarrow> string \<Rightarrow> line_kind \<Rightarrow> console_hub \<times> wengine \<Rightarrow> console_hub \<times> wengine" where
  "console_feed rx now sid chunk kind = (\<lambda>(h, g).
     case hub_append sid chunk kind h of (h', _, lines) \<Rightarrow> (h', if lines = [] then g else evaluate rx now sid lines g))"

lemma fires_nonempty: "fires rx sid wid now lines g \<Longrightarrow> lines \<noteq> []"
  by (auto simp: fires_def evaluate_def)

text \<open>
  What install scripts print never triggers a watcher, and what a server prints triggers a watcher only by a
  line of that chunk: every action that a chunk spawns matches a non-empty line between newlines of the chunk.
\<close>
theorem only_runtime_lines_fire:
  assumes "length ss < 2 ^ 64" "g = wrun rx ss wengine0"
    "we_jobs (snd (console_feed rx now sid chunk kind (h, g))) = we_jobs g @ js" "j \<in> set js"
  shows "kind = Runtime \<and> (\<exists>w\<in>set (wt_rows (we_table g)). w_id w = wj_watcher j \<and> w_server_id w = sid \<and> w_enabled w
    \<and> (\<exists>line\<in>set (butlast (split_on newline chunk)). line \<noteq> [] \<and> row_matches rx w line))"
proof -
  obtain h' ev lines where a: "hub_append sid chunk kind h = (h', ev, lines)" by (metis prod_cases3)
  have ne: "lines \<noteq> []" using assms(3,4) by (auto simp: console_feed_def a)
  have cl: "lines = completed_lines chunk kind (buffer_of h sid)" and k: "kind = Runtime"
    using a ne by (auto simp: hub_append_def Let_def completed_lines_def split: if_splits)
  have sub: "line \<noteq> [] \<and> line \<in> set (butlast (split_on newline chunk))" if "line \<in> set lines" for line
    using that unfolding cl completed_lines_def Let_def k by (auto simp: butlast_conv_take dest: in_set_dropD)
  have w: "winv rx (length ss) g" using winv_run [OF winv0, of ss rx] assms(1,2) by simp
  have "js = map (job_of sid) (filter (\<lambda>c. snd (eval_one rx (timestamp now) lines c)) (live_set rx sid g))"
    using evaluate_live [OF ne, of rx now sid g] assms(3) ne by (simp add: console_feed_def a)
  then obtain c where c: "c \<in> set (live_set rx sid g)" "snd (eval_one rx (timestamp now) lines c)" "j = job_of sid c" using assms(4) by auto
  obtain v where v: "v \<in> set (wt_rows (we_table g))" "w_server_id v = sid" "w_enabled v" "cw_id c = w_id v"
    "cw_matcher c = (if w_is_regex v then Regex (w_pattern v) else Literal (w_pattern v))"
    using live_from [OF w c(1)] by blast
  have "\<exists>line\<in>set lines. row_matches rx v line"
    using c(2) by (auto simp: eval_one_def row_matches_def v(5) list_ex_iff split: if_splits)
  then show ?thesis using k v sub c(3) by (auto simp: job_of_def)
qed

theorem only_runtime_lines_fire_witness:
  "we_jobs (snd (console_feed no_regex (9 * 10 ^ 9) 7 (''out of memory'' @ [newline]) Runtime (small_hub [], oom_engine)))
     = [\<lparr>wj_server = 7, wj_watcher = 1, wj_action = ''restart'', wj_payload = []\<rparr>]
   \<and> (\<exists>line\<in>set (butlast (split_on newline (''out of memory'' @ [newline]))). line \<noteq> [] \<and> row_matches no_regex oom_row line)"
proof -
  let ?js = "[\<lparr>wj_server = 7, wj_watcher = 1, wj_action = ''restart'', wj_payload = []\<rparr>]"
  have l: "snd (snd (hub_append 7 (''out of memory'' @ [newline]) Runtime (small_hub []))) = [''out of memory'']"
    by (simp add: hub_append_def small_hub_def completed_lines_def buffer_of_def hm_get_def evict_def take_partial_def line_buf_default_def
        newline_def)
  have "we_jobs (evaluate no_regex (9 * 10 ^ 9) 7 [''out of memory''] oom_engine) = we_jobs oom_engine @ ?js"
    unfolding oom_engine_is by code_simp
  then have j: "we_jobs (snd (console_feed no_regex (9 * 10 ^ 9) 7 (''out of memory'' @ [newline]) Runtime (small_hub [], oom_engine)))
      = we_jobs oom_engine @ ?js"
    using l by (simp add: console_feed_def case_prod_beta)
  have "\<exists>w\<in>set (wt_rows (we_table oom_engine)).
      \<exists>line\<in>set (butlast (split_on newline (''out of memory'' @ [newline]))). line \<noteq> [] \<and> row_matches no_regex w line"
    using only_runtime_lines_fire [OF _ refl j] by (simp del: split_on.simps) blast
  moreover have "wt_rows (we_table oom_engine) = [oom_row]" unfolding oom_engine_is by simp
  ultimately show ?thesis using j unfolding oom_engine_is by (simp del: split_on.simps)
qed

end
