(* ===== verification/Files.thy ===== *)
theory Files
  imports Prelude
begin

text \<open>
  The file manager (\<open>src/src/services/files.rs\<close>): the walk below a server's root that never follows a symlink,
  and the operations built on it. The file system is a graph of inodes; a descriptor is the inode it pins. The
  system calls are those of the manual pages \<open>openat(2)\<close>, \<open>mkdirat(2)\<close>, \<open>unlinkat(2)\<close>, \<open>renameat2(2)\<close>,
  \<open>symlinkat(2)\<close>, \<open>readlinkat(2)\<close>, \<open>fstatat(2)\<close> and \<open>readdir(3)\<close>, without permissions, quotas and mount points.
  Between any two of them the processes of the server may change the file system: \<open>adv\<close> is what they do. The checks
  that canonicalize a path (\<open>resolve\<close>) are made on a path that can change before it is used; the operations take
  their outcome as an argument.
\<close>

section \<open>Inodes and system calls\<close>

text \<open>A directory has an entry \<open>..\<close> for its parent; that of a server's root leads outside.\<close>

datatype fobj = RegFile string | SymLink string | Directory "(string, nat) hmap" | Fifo

record fs =
  f_objs :: "(nat, nat \<times> fobj) hmap"
  f_next :: nat

record kst =
  k_fs :: fs
  k_tick :: nat

text \<open>\<open>Hangs\<close> is a call that does not return: opening a pipe that nobody has open at the other end.\<close>

datatype ferr = ENOENT | ENOTDIR | EISDIR | ELOOP | EEXIST | EINVAL | ENOTEMPTY | Hangs | Refused | TooDeep

type_synonym 'a io = "kst \<Rightarrow> kst \<times> (ferr, 'a) result"

record oflags =
  o_write :: bool
  o_creat :: bool
  o_excl :: bool
  o_trunc :: bool
  o_dir :: bool

definition RDONLY :: oflags where
  "RDONLY = \<lparr>o_write = False, o_creat = False, o_excl = False, o_trunc = False, o_dir = False\<rparr>"

definition obj :: "fs \<Rightarrow> nat \<Rightarrow> fobj option" where
  "obj f i = map_option snd (hm_get (f_objs f) i)"

definition entries :: "fs \<Rightarrow> nat \<Rightarrow> (string, nat) hmap" where
  "entries f i = (case obj f i of Some (Directory es) \<Rightarrow> es | _ \<Rightarrow> [])"

definition dotdot :: string where "dotdot = ''..''"

definition empty_dir :: "(string, nat) hmap \<Rightarrow> bool" where
  "empty_dir es \<longleftrightarrow> list_all (\<lambda>e. fst e = dotdot) es"

definition set_obj :: "nat \<Rightarrow> fobj \<Rightarrow> fs \<Rightarrow> fs" where
  "set_obj i x f = f\<lparr>f_objs := hm_insert i ((case hm_get (f_objs f) i of Some (m, _) \<Rightarrow> m | None \<Rightarrow> 0), x) (f_objs f)\<rparr>"

definition new_entry :: "nat \<Rightarrow> string \<Rightarrow> nat \<Rightarrow> fobj \<Rightarrow> fs \<Rightarrow> fs" where
  "new_entry dir name mode x f =
     set_obj dir (Directory (hm_insert name (f_next f) (entries f dir)))
       (f\<lparr>f_objs := hm_insert (f_next f) (mode, x) (f_objs f), f_next := f_next f + 1\<rparr>)"

text \<open>Always with \<open>O_NOFOLLOW\<close>, and a name of one component.\<close>

definition openat :: "nat \<Rightarrow> string \<Rightarrow> oflags \<Rightarrow> nat \<Rightarrow> fs \<Rightarrow> fs \<times> (ferr, nat) result" where
  "openat dir name fl mode f =
     (if o_creat fl \<and> o_dir fl then (f, Err EINVAL)
      else case obj f dir of
        Some (Directory es) \<Rightarrow>
          (case hm_get es name of
             None \<Rightarrow> if o_creat fl then (new_entry dir name mode (RegFile []) f, Ok (f_next f)) else (f, Err ENOENT)
           | Some i \<Rightarrow>
               if o_creat fl \<and> o_excl fl then (f, Err EEXIST)
               else case obj f i of
                 Some (RegFile t) \<Rightarrow> if o_dir fl then (f, Err ENOTDIR) else (if o_trunc fl then set_obj i (RegFile []) f else f, Ok i)
               | Some (SymLink t) \<Rightarrow> (f, Err (if o_dir fl then ENOTDIR else ELOOP))
               | Some Fifo \<Rightarrow> (f, Err (if o_dir fl then ENOTDIR else Hangs))
               | Some (Directory _) \<Rightarrow> if o_write fl \<or> o_creat fl then (f, Err EISDIR) else (f, Ok i)
               | None \<Rightarrow> (f, Err ENOENT))
      | _ \<Rightarrow> (f, Err ENOTDIR))"

definition mkdirat :: "nat \<Rightarrow> string \<Rightarrow> fs \<Rightarrow> fs \<times> (ferr, unit) result" where
  "mkdirat dir name f =
     (case obj f dir of
        Some (Directory es) \<Rightarrow>
          if hm_get es name \<noteq> None then (f, Err EEXIST) else (new_entry dir name 493 (Directory [(dotdot, dir)]) f, Ok ())
      | _ \<Rightarrow> (f, Err ENOTDIR))"

definition symlinkat :: "string \<Rightarrow> nat \<Rightarrow> string \<Rightarrow> fs \<Rightarrow> fs \<times> (ferr, unit) result" where
  "symlinkat target dir name f =
     (case obj f dir of
        Some (Directory es) \<Rightarrow>
          if hm_get es name \<noteq> None then (f, Err EEXIST) else (new_entry dir name 511 (SymLink target) f, Ok ())
      | _ \<Rightarrow> (f, Err ENOTDIR))"

definition lookup :: "nat \<Rightarrow> string \<Rightarrow> fs \<Rightarrow> (ferr, nat \<times> fobj) result" where
  "lookup dir name f =
     (case obj f dir of
        Some (Directory es) \<Rightarrow>
          (case hm_get es name of None \<Rightarrow> Err ENOENT
           | Some i \<Rightarrow> (case obj f i of Some x \<Rightarrow> Ok (i, x) | None \<Rightarrow> Err ENOENT))
      | _ \<Rightarrow> Err ENOTDIR)"

definition readlinkat :: "nat \<Rightarrow> string \<Rightarrow> fs \<Rightarrow> fs \<times> (ferr, string) result" where
  "readlinkat dir name f = (f, rbind (lookup dir name f) (\<lambda>(i, x). case x of SymLink t \<Rightarrow> Ok (take 4096 t) | _ \<Rightarrow> Err EINVAL))"

definition fstatat_is_dir :: "nat \<Rightarrow> string \<Rightarrow> fs \<Rightarrow> fs \<times> (ferr, bool) result" where
  "fstatat_is_dir dir name f = (f, rbind (lookup dir name f) (\<lambda>(i, x). Ok (case x of Directory _ \<Rightarrow> True | _ \<Rightarrow> False)))"

definition unlinkat :: "nat \<Rightarrow> string \<Rightarrow> bool \<Rightarrow> fs \<Rightarrow> fs \<times> (ferr, unit) result" where
  "unlinkat dir name removedir f =
     (case lookup dir name f of
        Err e \<Rightarrow> (f, Err e)
      | Ok (i, x) \<Rightarrow>
          let gone = set_obj dir (Directory (hm_remove name (entries f dir))) f in
          (case x of
             Directory es \<Rightarrow> if \<not> removedir then (f, Err EISDIR) else if \<not> empty_dir es then (f, Err ENOTEMPTY) else (gone, Ok ())
           | _ \<Rightarrow> if removedir then (f, Err ENOTDIR) else (gone, Ok ())))"

text \<open>Whether \<open>b\<close> is \<open>a\<close> or below it, at most \<open>n\<close> levels down.\<close>

fun below :: "fs \<Rightarrow> nat \<Rightarrow> nat \<Rightarrow> nat \<Rightarrow> bool" where
  "below f 0 a b \<longleftrightarrow> a = b"
| "below f (Suc n) a b \<longleftrightarrow> a = b \<or> list_ex (\<lambda>(m, j). m \<noteq> dotdot \<and> below f n j b) (entries f a)"

definition renameat :: "nat \<Rightarrow> string \<Rightarrow> nat \<Rightarrow> string \<Rightarrow> fs \<Rightarrow> fs \<times> (ferr, unit) result" where
  "renameat sdir sname ddir dname f =
     (case lookup sdir sname f of
        Err e \<Rightarrow> (f, Err e)
      | Ok (i, x) \<Rightarrow>
          let moved = (let f1 = set_obj sdir (Directory (hm_remove sname (entries f sdir))) f;
                           f2 = set_obj ddir (Directory (hm_insert dname i (entries f1 ddir))) f1
                       in case x of Directory _ \<Rightarrow> set_obj i (Directory (hm_insert dotdot ddir (entries f2 i))) f2 | _ \<Rightarrow> f2);
              is_dir = (case x of Directory _ \<Rightarrow> True | _ \<Rightarrow> False)
          in case obj f ddir of
               Some (Directory des) \<Rightarrow>
                 if is_dir \<and> below f (f_next f) i ddir then (f, Err EINVAL)
                 else (case hm_get des dname of
                   None \<Rightarrow> (moved, Ok ())
                 | Some j \<Rightarrow>
                     if i = j then (f, Ok ())
                     else (case obj f j of
                       Some (Directory jes) \<Rightarrow> if \<not> is_dir then (f, Err EISDIR) else if \<not> empty_dir jes then (f, Err ENOTEMPTY) else (moved, Ok ())
                     | _ \<Rightarrow> if is_dir then (f, Err ENOTDIR) else (moved, Ok ())))
             | _ \<Rightarrow> (f, Err ENOTDIR))"

definition fd_read :: "nat \<Rightarrow> fs \<Rightarrow> fs \<times> (ferr, string) result" where
  "fd_read i f = (f, case obj f i of Some (RegFile t) \<Rightarrow> Ok t | Some (Directory _) \<Rightarrow> Err EISDIR | _ \<Rightarrow> Err EINVAL)"

definition fd_write :: "nat \<Rightarrow> string \<Rightarrow> fs \<Rightarrow> fs \<times> (ferr, unit) result" where
  "fd_write i d f = (case obj f i of Some (RegFile t) \<Rightarrow> (set_obj i (RegFile (t @ d)) f, Ok ()) | _ \<Rightarrow> (f, Err EINVAL))"

definition fd_chmod :: "nat \<Rightarrow> nat \<Rightarrow> fs \<Rightarrow> fs \<times> (ferr, unit) result" where
  "fd_chmod i mode f =
     (case hm_get (f_objs f) i of Some (_, x) \<Rightarrow> (f\<lparr>f_objs := hm_insert i (mode, x) (f_objs f)\<rparr>, Ok ()) | None \<Rightarrow> (f, Err ENOENT))"

definition fd_is_dir :: "nat \<Rightarrow> fs \<Rightarrow> fs \<times> (ferr, bool) result" where
  "fd_is_dir i f = (f, case obj f i of Some (Directory _) \<Rightarrow> Ok True | Some _ \<Rightarrow> Ok False | None \<Rightarrow> Err ENOENT)"

definition fd_mode :: "nat \<Rightarrow> fs \<Rightarrow> fs \<times> (ferr, nat) result" where
  "fd_mode i f = (f, case hm_get (f_objs f) i of Some (m, _) \<Rightarrow> Ok m | None \<Rightarrow> Err ENOENT)"

definition readdir :: "nat \<Rightarrow> fs \<Rightarrow> fs \<times> (ferr, string list) result" where
  "readdir i f = (f, case obj f i of Some (Directory es) \<Rightarrow> Ok (map fst es) | _ \<Rightarrow> Err ENOTDIR)"

text \<open>A system call, after whatever the server's processes have done since the last one.\<close>

definition syscall :: "(nat \<Rightarrow> fs \<Rightarrow> fs) \<Rightarrow> (fs \<Rightarrow> fs \<times> (ferr, 'a) result) \<Rightarrow> 'a io" where
  "syscall adv g = (\<lambda>s. case g (adv (k_tick s) (k_fs s)) of (f, r) \<Rightarrow> (\<lparr>k_fs = f, k_tick = k_tick s + 1\<rparr>, r))"

definition io_return :: "'a \<Rightarrow> 'a io" where "io_return x = (\<lambda>s. (s, Ok x))"
definition io_fail :: "ferr \<Rightarrow> 'a io" where "io_fail e = (\<lambda>s. (s, Err e))"

definition io_bind :: "'a io \<Rightarrow> ('a \<Rightarrow> 'b io) \<Rightarrow> 'b io" where
  "io_bind m k = (\<lambda>s. case m s of (s', Ok x) \<Rightarrow> k x s' | (s', Err e) \<Rightarrow> (s', Err e))"

definition io_catch :: "'a io \<Rightarrow> (ferr \<Rightarrow> 'a io) \<Rightarrow> 'a io" where
  "io_catch m h = (\<lambda>s. case m s of (s', Err e) \<Rightarrow> h e s' | (s', Ok x) \<Rightarrow> (s', Ok x))"

section \<open>Paths\<close>

definition slash :: char where "slash = CHR ''/''"
definition nul :: char where "nul = CHR 0x00"

text \<open>The components of a path without its leading slashes; empty and \<open>.\<close> components vanish, \<open>..\<close> is kept.\<close>

definition path_comps :: "string \<Rightarrow> string list" where
  "path_comps rel = filter (\<lambda>c. c \<noteq> [] \<and> c \<noteq> ''.'') (split_on slash rel)"

definition path_of :: "string list \<Rightarrow> string" where
  "path_of cs = join_with slash cs"

definition rtrim_comps :: "string list \<Rightarrow> string list" where
  "rtrim_comps ps = rev (dropWhile (\<lambda>c. c = [] \<or> c = ''.'') (rev ps))"

text \<open>\<open>Path::parent\<close> keeps the text of the path, a leading \<open>.\<close> included.\<close>

definition parent_rel :: "string \<Rightarrow> string" where
  "parent_rel rel =
     (let ps = split_on slash (dropWhile (\<lambda>c. c = slash) rel);
          lead = (if hd ps = ''.'' then [''.''] else []);
          body = rtrim_comps (drop (length lead) ps)
      in if body = [] then [] else path_of (lead @ rtrim_comps (butlast body)))"

definition file_name :: "string \<Rightarrow> string option" where
  "file_name rel = (let cs = path_comps rel in if cs = [] \<or> last cs = dotdot then None else Some (last cs))"

definition cstring :: "string \<Rightarrow> bool" where
  "cstring name \<longleftrightarrow> nul \<notin> set name"

text \<open>\<open>canon\<close> is \<open>canonicalize\<close>: the symlink-free form of a path of components, if it exists.\<close>

definition resolve_path :: "(string list \<Rightarrow> string list option) \<Rightarrow> string list \<Rightarrow> string \<Rightarrow> (ferr, string list) result" where
  "resolve_path canon root rel =
     (let p = root @ path_comps rel in
      if dotdot \<in> set p then Err Refused
      else
        let abs = (case canon p of Some c \<Rightarrow> c
                   | None \<Rightarrow> (case (if p = [] then None else canon (butlast p)) of Some c \<Rightarrow> c @ [last p] | None \<Rightarrow> p));
            root_abs = (case canon root of Some c \<Rightarrow> c | None \<Rightarrow> root)
        in if take (length root_abs) abs = root_abs then Ok p else Err Refused)"

text \<open>\<open>is_link\<close> is \<open>symlink_metadata\<close> on the way.\<close>

fun safe_join_from :: "(string list \<Rightarrow> bool) \<Rightarrow> string list \<Rightarrow> string list \<Rightarrow> (ferr, string list) result" where
  "safe_join_from is_link out [] = Ok out"
| "safe_join_from is_link out (c # cs) =
     (if c = dotdot then (if out = [] then Err Refused else safe_join_from is_link (butlast out) cs)
      else if is_link (out @ [c]) then Err Refused
      else safe_join_from is_link (out @ [c]) cs)"

definition safe_join :: "(string list \<Rightarrow> bool) \<Rightarrow> string list \<Rightarrow> string \<Rightarrow> (ferr, string list) result" where
  "safe_join is_link dest name =
     (if name \<noteq> [] \<and> hd name = slash then Err Refused
      else rbind (safe_join_from is_link dest (path_comps name)) (\<lambda>out.
        if take (length dest) out = dest then Ok out else Err Refused))"

section \<open>The walk\<close>

definition DIRECTORY :: oflags where "DIRECTORY = RDONLY\<lparr>o_dir := True\<rparr>"

fun walk :: "(nat \<Rightarrow> fs \<Rightarrow> fs) \<Rightarrow> bool \<Rightarrow> oflags \<Rightarrow> nat \<Rightarrow> nat \<Rightarrow> string list \<Rightarrow> nat io" where
  "walk adv create fl mode cur [] = io_return cur"
| "walk adv create fl mode cur (name # rest) =
     (if \<not> cstring name then io_fail Refused
      else if rest = [] then syscall adv (openat cur name fl mode)
      else
        io_bind
          (io_catch (syscall adv (openat cur name DIRECTORY mode))
             (\<lambda>e. if e = ENOENT \<and> create then
                io_bind (io_catch (syscall adv (mkdirat cur name)) (\<lambda>e. if e = EEXIST then io_return () else io_fail e))
                  (\<lambda>_. syscall adv (openat cur name DIRECTORY 0))
              else io_fail e))
          (\<lambda>fd. walk adv create fl mode fd rest))"

definition open_relative :: "(nat \<Rightarrow> fs \<Rightarrow> fs) \<Rightarrow> nat \<Rightarrow> string \<Rightarrow> bool \<Rightarrow> oflags \<Rightarrow> nat \<Rightarrow> nat io" where
  "open_relative adv root rel create fl mode =
     (let cs = path_comps rel in if dotdot \<in> set cs then io_fail Refused else walk adv create fl mode root cs)"

definition open_dir_create :: "(nat \<Rightarrow> fs \<Rightarrow> fs) \<Rightarrow> nat \<Rightarrow> string \<Rightarrow> nat io" where
  "open_dir_create adv root rel =
     (let trimmed = dropWhile (\<lambda>c. c = slash) rel in
      if trimmed = [] \<or> trimmed = ''.'' then open_relative adv root [] False DIRECTORY 0
      else case file_name trimmed of
        None \<Rightarrow> io_fail Refused
      | Some name \<Rightarrow>
          io_bind (open_relative adv root (parent_rel trimmed) True DIRECTORY 0) (\<lambda>pfd.
          if \<not> cstring name then io_fail Refused
          else io_bind (io_catch (syscall adv (mkdirat pfd name)) (\<lambda>e. if e = EEXIST then io_return () else io_fail e))
            (\<lambda>_. syscall adv (openat pfd name DIRECTORY 0))))"

section \<open>The operations\<close>

definition read_file :: "(nat \<Rightarrow> fs \<Rightarrow> fs) \<Rightarrow> nat \<Rightarrow> string \<Rightarrow> nat \<Rightarrow> string io" where
  "read_file adv root rel max_bytes =
     io_bind (open_relative adv root rel False RDONLY 0) (\<lambda>fd.
     io_bind (syscall adv (fd_is_dir fd)) (\<lambda>d.
       if d then io_fail Refused
       else io_bind (syscall adv (fd_read fd)) (\<lambda>t. if max_bytes < length t then io_fail Refused else io_return t)))"

definition CREATE_TRUNC :: oflags where "CREATE_TRUNC = \<lparr>o_write = True, o_creat = True, o_excl = False, o_trunc = True, o_dir = False\<rparr>"

definition write_file :: "(nat \<Rightarrow> fs \<Rightarrow> fs) \<Rightarrow> nat \<Rightarrow> string \<Rightarrow> string \<Rightarrow> unit io" where
  "write_file adv root rel d =
     io_bind (open_relative adv root rel True CREATE_TRUNC 420) (\<lambda>fd. syscall adv (fd_write fd d))"











section \<open>Archives\<close>

text \<open>\<open>glob\<close> is \<open>glob::Pattern\<close>: the match predicate of a pattern, or \<open>None\<close> when it does not parse.\<close>

fun ignore_parse :: "(string \<Rightarrow> (string \<Rightarrow> bool) option) \<Rightarrow> string list \<Rightarrow> (ferr, string list) result" where
  "ignore_parse glob [] = Ok []"
| "ignore_parse glob (raw # lines) =
     (let line = trim raw in
      if line = [] \<or> hd line = CHR ''#'' then ignore_parse glob lines
      else
        let l1 = (if starts_with ''./'' line then drop 2 line else line);
            l2 = (if ends_with [slash] l1 then butlast l1 else l1)
        in if glob l2 = None then Err Refused else rbind (ignore_parse glob lines) (\<lambda>ps. Ok (l2 # ps)))"

definition glob_matches :: "(string \<Rightarrow> (string \<Rightarrow> bool) option) \<Rightarrow> string \<Rightarrow> string \<Rightarrow> bool" where
  "glob_matches glob p s = (case glob p of Some f \<Rightarrow> f s | None \<Rightarrow> False)"

definition excludes :: "(string \<Rightarrow> (string \<Rightarrow> bool) option) \<Rightarrow> string list \<Rightarrow> string \<Rightarrow> bool" where
  "excludes glob ps rel =
     list_ex (\<lambda>p. glob_matches glob p rel \<or> slash \<notin> set p \<and> glob_matches glob p (last (split_on slash rel))) ps"





definition MAX_ARCHIVE_ENTRIES :: nat where "MAX_ARCHIVE_ENTRIES = 10000"
definition MAX_EXTRACT_FILE_BYTES :: nat where "MAX_EXTRACT_FILE_BYTES = 512 * 1024 * 1024"
definition MAX_EXTRACT_TOTAL_BYTES :: nat where "MAX_EXTRACT_TOTAL_BYTES = 2 * 1024 * 1024 * 1024"

datatype tar_kind = KFile | KDir | KSymlink | KHardlink | KOther

text \<open>An entry as the tar reader yields it; the declared size is the header's claim. \<open>None\<close> is a corrupt entry.\<close>

record tar_entry =
  te_kind :: tar_kind
  te_path :: string
  te_declared :: nat
  te_data :: string
  te_mode :: "nat option"

definition sat_u64 :: "nat \<Rightarrow> nat" where
  "sat_u64 n = min n (2 ^ 64 - 1)"

definition set_mode :: "(nat \<Rightarrow> fs \<Rightarrow> fs) \<Rightarrow> nat \<Rightarrow> nat option \<Rightarrow> unit io" where
  "set_mode adv out mode =
     (case mode of None \<Rightarrow> io_return () | Some m \<Rightarrow> io_catch (syscall adv (fd_chmod out (m mod 512))) (\<lambda>_. io_return ()))"

definition extract_file ::
  "(nat \<Rightarrow> fs \<Rightarrow> fs) \<Rightarrow> nat \<Rightarrow> nat \<Rightarrow> nat \<Rightarrow> string \<Rightarrow> tar_entry \<Rightarrow> nat \<Rightarrow> nat io" where
  "extract_file adv destfd max_file max_total rel e tot =
     (if max_file < te_declared e \<or> max_total < sat_u64 (tot + te_declared e) then io_fail Refused
      else case file_name rel of
        None \<Rightarrow> io_fail Refused
      | Some fname \<Rightarrow>
          io_bind (open_dir_create adv destfd (parent_rel rel)) (\<lambda>pfd.
          if \<not> cstring fname then io_fail Refused
          else io_bind (syscall adv (openat pfd fname CREATE_TRUNC 420)) (\<lambda>out.
            let cap = min (sat_u64 (max_file + 1)) (sat_u64 (max_total - tot + 1));
                copied = min cap (length (te_data e))
            in io_bind (syscall adv (fd_write out (take cap (te_data e)))) (\<lambda>_.
               if max_file < copied \<or> max_total < sat_u64 (tot + copied) then io_fail Refused
               else io_bind (set_mode adv out (te_mode e)) (\<lambda>_. io_return (tot + copied))))))"

fun extract_entries ::
  "(nat \<Rightarrow> fs \<Rightarrow> fs) \<Rightarrow> (string list \<Rightarrow> bool) \<Rightarrow> string list \<Rightarrow> nat \<Rightarrow> nat \<Rightarrow> nat \<Rightarrow> nat \<Rightarrow> nat \<Rightarrow> nat \<Rightarrow> tar_entry option list \<Rightarrow> unit io" where
  "extract_entries adv is_link dest destfd max_entries max_file max_total count tot [] = io_return ()"
| "extract_entries adv is_link dest destfd max_entries max_file max_total count tot (x # xs) =
     (if max_entries < count + 1 then io_fail Refused
      else case x of
        None \<Rightarrow> io_fail Refused
      | Some e \<Rightarrow>
          if te_kind e = KSymlink \<or> te_kind e = KHardlink then io_fail Refused
          else case safe_join is_link dest (te_path e) of
            Err er \<Rightarrow> io_fail er
          | Ok path \<Rightarrow>
              let rel = path_of (drop (length dest) path) in
              if te_kind e = KDir then
                io_bind (open_dir_create adv destfd rel) (\<lambda>_.
                  extract_entries adv is_link dest destfd max_entries max_file max_total (count + 1) tot xs)
              else
                io_bind (extract_file adv destfd max_file max_total rel e tot) (\<lambda>tot'.
                  extract_entries adv is_link dest destfd max_entries max_file max_total (count + 1) tot' xs))"

definition extract_tar_gz_bounded ::
  "(nat \<Rightarrow> fs \<Rightarrow> fs) \<Rightarrow> (string \<Rightarrow> bool) \<Rightarrow> (string list \<Rightarrow> bool) \<Rightarrow> string list \<Rightarrow> nat \<Rightarrow> string \<Rightarrow> tar_entry option list \<Rightarrow> string
     \<Rightarrow> nat \<Rightarrow> nat \<Rightarrow> nat \<Rightarrow> unit io" where
  "extract_tar_gz_bounded adv resolves is_link dest root archive es dest_rel max_entries max_file max_total =
     (if \<not> resolves archive \<or> \<not> resolves dest_rel then io_fail Refused
      else io_bind (open_dir_create adv root dest_rel) (\<lambda>destfd.
        extract_entries adv is_link dest destfd max_entries max_file max_total 0 0 es))"

definition extract_tar_gz_into ::
  "(nat \<Rightarrow> fs \<Rightarrow> fs) \<Rightarrow> (string \<Rightarrow> bool) \<Rightarrow> (string list \<Rightarrow> bool) \<Rightarrow> string list \<Rightarrow> nat \<Rightarrow> string \<Rightarrow> tar_entry option list \<Rightarrow> string \<Rightarrow> unit io" where
  "extract_tar_gz_into adv resolves is_link dest root archive es dest_rel =
     extract_tar_gz_bounded adv resolves is_link dest root archive es dest_rel MAX_ARCHIVE_ENTRIES MAX_EXTRACT_FILE_BYTES MAX_EXTRACT_TOTAL_BYTES"


section \<open>Confinement\<close>

text \<open>
  \<open>U\<close> is the set of inodes outside the server's tree. \<open>good\<close>: no directory inside leads outside and new inodes
  are inside. \<open>conf\<close>: a computation whose result and whose effect inside do not depend on what is outside, and
  which changes nothing outside.
\<close>

definition good :: "nat set \<Rightarrow> fs \<Rightarrow> bool" where
  "good U f \<longleftrightarrow> (\<forall>i. i \<notin> U \<longrightarrow> (\<forall>e\<in>set (entries f i). fst e \<noteq> dotdot \<longrightarrow> snd e \<notin> U)) \<and> (\<forall>i. f_next f \<le> i \<longrightarrow> i \<notin> U)"

definition agree :: "nat set \<Rightarrow> fs \<Rightarrow> fs \<Rightarrow> bool" where
  "agree U f f' \<longleftrightarrow> f_next f = f_next f' \<and> (\<forall>i. i \<notin> U \<longrightarrow> hm_get (f_objs f) i = hm_get (f_objs f') i)"

definition same_outside :: "nat set \<Rightarrow> fs \<Rightarrow> fs \<Rightarrow> bool" where
  "same_outside U f f' \<longleftrightarrow> (\<forall>i\<in>U. hm_get (f_objs f) i = hm_get (f_objs f') i)"

definition pconf :: "nat set \<Rightarrow> ('a \<Rightarrow> bool) \<Rightarrow> (fs \<Rightarrow> fs \<times> (ferr, 'a) result) \<Rightarrow> bool" where
  "pconf U P g \<longleftrightarrow> (\<forall>f f'. good U f \<longrightarrow> good U f' \<longrightarrow> agree U f f' \<longrightarrow>
     good U (fst (g f)) \<and> agree U (fst (g f)) (fst (g f')) \<and> same_outside U f (fst (g f)) \<and> snd (g f) = snd (g f')
     \<and> (\<forall>x. snd (g f) = Ok x \<longrightarrow> P x))"

definition conf :: "nat set \<Rightarrow> ('a \<Rightarrow> bool) \<Rightarrow> 'a io \<Rightarrow> bool" where
  "conf U P m \<longleftrightarrow> (\<forall>s s'. good U (k_fs s) \<longrightarrow> good U (k_fs s') \<longrightarrow> agree U (k_fs s) (k_fs s') \<longrightarrow> k_tick s = k_tick s' \<longrightarrow>
     good U (k_fs (fst (m s))) \<and> agree U (k_fs (fst (m s))) (k_fs (fst (m s'))) \<and> k_tick (fst (m s)) = k_tick (fst (m s'))
     \<and> same_outside U (k_fs s) (k_fs (fst (m s))) \<and> snd (m s) = snd (m s') \<and> (\<forall>x. snd (m s) = Ok x \<longrightarrow> P x))"

text \<open>The server's processes are confined to their tree as well.\<close>

definition adv_ok :: "nat set \<Rightarrow> (nat \<Rightarrow> fs \<Rightarrow> fs) \<Rightarrow> bool" where
  "adv_ok U adv \<longleftrightarrow> (\<forall>k f f'. good U f \<longrightarrow> good U f' \<longrightarrow> agree U f f' \<longrightarrow>
     good U (adv k f) \<and> agree U (adv k f) (adv k f') \<and> same_outside U f (adv k f))"

lemma agree_sym: "agree U f f' \<Longrightarrow> agree U f' f"
  by (simp add: agree_def)

lemma same_outside_trans: "same_outside U f g \<Longrightarrow> same_outside U g h \<Longrightarrow> same_outside U f h"
  by (simp add: same_outside_def)

lemma same_outside_refl: "same_outside U f f"
  by (simp add: same_outside_def)

lemma agree_obj: "agree U f f' \<Longrightarrow> i \<notin> U \<Longrightarrow> obj f i = obj f' i"
  by (simp add: agree_def obj_def)

lemma agree_entries: "agree U f f' \<Longrightarrow> i \<notin> U \<Longrightarrow> entries f i = entries f' i"
  using agree_obj by (simp add: entries_def)

lemma good_entry: "good U f \<Longrightarrow> i \<notin> U \<Longrightarrow> n \<noteq> dotdot \<Longrightarrow> hm_get (entries f i) n = Some j \<Longrightarrow> j \<notin> U"
  using hm_get_in [of "entries f i" n j] by (force simp: good_def)

lemma conf_syscall:
  assumes "adv_ok U adv" "pconf U P g"
  shows "conf U P (syscall adv g)"
  unfolding conf_def
proof (intro allI impI)
  fix s s' :: kst assume a: "good U (k_fs s)" "good U (k_fs s')" "agree U (k_fs s) (k_fs s')" "k_tick s = k_tick s'"
  let ?f = "adv (k_tick s) (k_fs s)" and ?f' = "adv (k_tick s) (k_fs s')"
  have ad: "good U ?f" "good U ?f'" "agree U ?f ?f'" "same_outside U (k_fs s) ?f"
    using assms(1) a agree_sym unfolding adv_ok_def by blast+
  have g: "good U (fst (g ?f)) \<and> agree U (fst (g ?f)) (fst (g ?f')) \<and> same_outside U ?f (fst (g ?f)) \<and> snd (g ?f) = snd (g ?f')
     \<and> (\<forall>x. snd (g ?f) = Ok x \<longrightarrow> P x)" using assms(2) ad unfolding pconf_def by blast
  show "good U (k_fs (fst (syscall adv g s))) \<and> agree U (k_fs (fst (syscall adv g s))) (k_fs (fst (syscall adv g s')))
     \<and> k_tick (fst (syscall adv g s)) = k_tick (fst (syscall adv g s')) \<and> same_outside U (k_fs s) (k_fs (fst (syscall adv g s)))
     \<and> snd (syscall adv g s) = snd (syscall adv g s') \<and> (\<forall>x. snd (syscall adv g s) = Ok x \<longrightarrow> P x)"
    using g ad(4) a(4) same_outside_trans by (auto simp: syscall_def split: prod.split)
qed

lemma conf_return: "P x \<Longrightarrow> conf U P (io_return x)"
  by (simp add: conf_def io_return_def same_outside_def)

lemma conf_fail: "conf U P (io_fail e)"
  by (simp add: conf_def io_fail_def same_outside_def)

lemma conf_mono: "conf U P m \<Longrightarrow> (\<And>x. P x \<Longrightarrow> Q x) \<Longrightarrow> conf U Q m"
  unfolding conf_def by blast

lemma confD:
  assumes "conf U P m" "good U (k_fs s)" "good U (k_fs s')" "agree U (k_fs s) (k_fs s')" "k_tick s = k_tick s'"
  shows "good U (k_fs (fst (m s)))" "good U (k_fs (fst (m s')))" "agree U (k_fs (fst (m s))) (k_fs (fst (m s')))"
    "k_tick (fst (m s)) = k_tick (fst (m s'))" "same_outside U (k_fs s) (k_fs (fst (m s)))" "snd (m s) = snd (m s')"
    "snd (m s) = Ok x \<Longrightarrow> P x"
  using assms unfolding conf_def by (blast dest: agree_sym sym)+


lemma conf_catch:
  assumes m: "conf U P m" and k: "\<And>e. conf U P (k e)"
  shows "conf U P (io_catch m k)"
  unfolding conf_def
proof (intro allI impI)
  fix s s' :: kst assume a: "good U (k_fs s)" "good U (k_fs s')" "agree U (k_fs s) (k_fs s')" "k_tick s = k_tick s'"
  note d = confD [OF m a]
  obtain t r where t: "m s = (t, r)" by fastforce
  obtain t' where t': "m s' = (t', r)" using d(6) t by (cases "m s'") auto
  show "good U (k_fs (fst (io_catch m k s))) \<and> agree U (k_fs (fst (io_catch m k s))) (k_fs (fst (io_catch m k s')))
     \<and> k_tick (fst (io_catch m k s)) = k_tick (fst (io_catch m k s')) \<and> same_outside U (k_fs s) (k_fs (fst (io_catch m k s)))
     \<and> snd (io_catch m k s) = snd (io_catch m k s') \<and> (\<forall>x. snd (io_catch m k s) = Ok x \<longrightarrow> P x)"
  proof (cases r)
    case (Inr x) then show ?thesis using d by (simp add: io_catch_def t t')
  next
    case (Inl er)
    have b: "good U (k_fs t)" "good U (k_fs t')" "agree U (k_fs t) (k_fs t')" "k_tick t = k_tick t'" "same_outside U (k_fs s) (k_fs t)"
      using d t t' by simp_all
    note e = confD [OF k [of er] b(1-4)]
    show ?thesis using e same_outside_trans [OF b(5) e(5)] by (simp add: io_catch_def t t' Inl)
  qed
qed

text \<open>Changes inside keep to the inside.\<close>

lemma set_obj_get: "hm_get (f_objs (set_obj i x f)) j =
    (if j = i then Some ((case hm_get (f_objs f) i of Some (m, _) \<Rightarrow> m | None \<Rightarrow> 0), x) else hm_get (f_objs f) j)"
  by (simp add: set_obj_def)

lemma set_obj_next [simp]: "f_next (set_obj i x f) = f_next f"
  by (simp add: set_obj_def)

lemma set_obj_entries: "entries (set_obj i x f) j = (if j = i then (case x of Directory es \<Rightarrow> es | _ \<Rightarrow> []) else entries f j)"
  by (simp add: entries_def obj_def set_obj_get split: fobj.split)

definition inside_obj :: "nat set \<Rightarrow> fobj \<Rightarrow> bool" where
  "inside_obj U x \<longleftrightarrow> (\<forall>es. x = Directory es \<longrightarrow> (\<forall>e\<in>set es. fst e \<noteq> dotdot \<longrightarrow> snd e \<notin> U))"

lemma set_obj_conf:
  assumes "i \<notin> U" "inside_obj U x"
  shows "good U f \<Longrightarrow> good U (set_obj i x f)" "agree U f f' \<Longrightarrow> agree U (set_obj i x f) (set_obj i x f')" "same_outside U f (set_obj i x f)"
  using assms by (auto simp: agree_def same_outside_def set_obj_get)
    (force simp: good_def set_obj_entries inside_obj_def split: fobj.splits)

lemma entries_inside: "good U f \<Longrightarrow> i \<notin> U \<Longrightarrow> e \<in> set (entries f i) \<Longrightarrow> fst e \<noteq> dotdot \<Longrightarrow> snd e \<notin> U"
  by (auto simp: good_def)

lemma inside_insert: "good U f \<Longrightarrow> d \<notin> U \<Longrightarrow> j \<notin> U \<Longrightarrow> inside_obj U (Directory (hm_insert n j (entries f d)))"
  by (auto simp: inside_obj_def hm_insert_def hm_remove_def dest: entries_inside)

lemma inside_remove: "good U f \<Longrightarrow> d \<notin> U \<Longrightarrow> inside_obj U (Directory (hm_remove n (entries f d)))"
  by (auto simp: inside_obj_def hm_remove_def dest: entries_inside)

lemma new_entry_conf:
  assumes "good U f" "good U f'" "agree U f f'" "dir \<notin> U" "inside_obj U x"
  shows "good U (new_entry dir name mode x f) \<and> agree U (new_entry dir name mode x f) (new_entry dir name mode x f')
    \<and> same_outside U f (new_entry dir name mode x f)"
proof -
  let ?n = "\<lambda>g. g\<lparr>f_objs := hm_insert (f_next g) (mode, x) (f_objs g), f_next := Suc (f_next g)\<rparr>"
  have nx: "f_next f \<notin> U" "f_next f' = f_next f" using assms(1,3) by (auto simp: good_def agree_def)
  have es: "entries (?n f) i = (if i = f_next f then (case x of Directory es \<Rightarrow> es | _ \<Rightarrow> []) else entries f i)" for i
    by (simp add: entries_def obj_def split: fobj.split)
  have g1: "good U (?n f)" using assms(1,5) unfolding good_def es by (force simp: inside_obj_def split: fobj.splits)
  have a1: "agree U (?n f) (?n f')" using assms(3) nx(2) by (simp add: agree_def)
  have s1: "same_outside U f (?n f)" using nx(1) by (auto simp: same_outside_def)
  have io: "inside_obj U (Directory (hm_insert name (f_next f) (entries f dir)))" using inside_insert assms(1,4) nx(1) by blast
  have e': "entries f' dir = entries f dir" using agree_entries [OF assms(3,4)] by simp
  show ?thesis
    unfolding new_entry_def e' nx(2) Suc_eq_plus1 [symmetric]
    using set_obj_conf(1) [OF assms(4) io g1] set_obj_conf(2) [OF assms(4) io a1 [unfolded nx(2)]]
      same_outside_trans [OF s1 set_obj_conf(3) [OF assms(4) io]] by blast
qed

lemma obj_entries: "obj f d = Some (Directory es) \<Longrightarrow> entries f d = es"
  by (simp add: entries_def)

lemma inside_plain [simp]: "inside_obj U (RegFile t)" "inside_obj U (SymLink t)" "inside_obj U (Directory [(dotdot, d)])"
  by (simp_all add: inside_obj_def)

lemma pconf_openat: "dir \<notin> U \<Longrightarrow> name \<noteq> dotdot \<Longrightarrow> pconf U (\<lambda>i. i \<notin> U) (openat dir name fl mode)"
  unfolding pconf_def
proof (intro allI impI)
  fix f f' :: fs assume d: "dir \<notin> U" and nm: "name \<noteq> dotdot" and a: "good U f" "good U f'" "agree U f f'"
  have o: "obj f' dir = obj f dir" using agree_obj [OF a(3) d] by simp
  have nx: "f_next f \<notin> U" "f_next f' = f_next f" using a by (auto simp: good_def agree_def)
  have same: "good U f" "agree U f f'" "same_outside U f f" using a by (simp_all add: same_outside_def)
  show "good U (fst (openat dir name fl mode f)) \<and> agree U (fst (openat dir name fl mode f)) (fst (openat dir name fl mode f'))
      \<and> same_outside U f (fst (openat dir name fl mode f)) \<and> snd (openat dir name fl mode f) = snd (openat dir name fl mode f')
      \<and> (\<forall>x. snd (openat dir name fl mode f) = Ok x \<longrightarrow> x \<notin> U)"
  proof (cases "\<not> (o_creat fl \<and> o_dir fl) \<and> (\<exists>es. obj f dir = Some (Directory es))")
    case False
    then show ?thesis using same by (auto simp: openat_def o split: option.split fobj.split)
  next
    case True
    then obtain es where es: "obj f dir = Some (Directory es)" and nc: "\<not> (o_creat fl \<and> o_dir fl)" by blast
    show ?thesis
    proof (cases "hm_get es name")
      case None
      then show ?thesis
        using new_entry_conf [OF a d, of "RegFile []" name mode] same nx nc by (auto simp: openat_def o es)
    next
      case (Some i)
      have i: "i \<notin> U" using good_entry [OF a(1) d nm] obj_entries [OF es] Some by simp
      have oi: "obj f' i = obj f i" using agree_obj [OF a(3) i] by simp
      note so = set_obj_conf [OF i inside_plain(1) [of U "[]"]]
      show ?thesis
        using same i nc so(1) [OF a(1)] so(2) [OF a(3)] so(3) by (auto simp: openat_def o es Some oi split: option.split fobj.split)
    qed
  qed
qed

lemma pconf_mkdirat: "dir \<notin> U \<Longrightarrow> pconf U (\<lambda>_. True) (mkdirat dir name)"
  unfolding pconf_def
proof (intro allI impI)
  fix f f' :: fs assume d: "dir \<notin> U" and a: "good U f" "good U f'" "agree U f f'"
  have o: "obj f' dir = obj f dir" using agree_obj [OF a(3) d] by simp
  show "good U (fst (mkdirat dir name f)) \<and> agree U (fst (mkdirat dir name f)) (fst (mkdirat dir name f'))
      \<and> same_outside U f (fst (mkdirat dir name f)) \<and> snd (mkdirat dir name f) = snd (mkdirat dir name f')
      \<and> (\<forall>x. snd (mkdirat dir name f) = Ok x \<longrightarrow> True)"
    using a new_entry_conf [OF a d inside_plain(3), of name 493 dir]
    by (auto simp: mkdirat_def o same_outside_def split: option.split fobj.split)
qed

lemma pconf_symlinkat: "dir \<notin> U \<Longrightarrow> pconf U (\<lambda>_. True) (symlinkat t dir name)"
  unfolding pconf_def
proof (intro allI impI)
  fix f f' :: fs assume d: "dir \<notin> U" and a: "good U f" "good U f'" "agree U f f'"
  have o: "obj f' dir = obj f dir" using agree_obj [OF a(3) d] by simp
  show "good U (fst (symlinkat t dir name f)) \<and> agree U (fst (symlinkat t dir name f)) (fst (symlinkat t dir name f'))
      \<and> same_outside U f (fst (symlinkat t dir name f)) \<and> snd (symlinkat t dir name f) = snd (symlinkat t dir name f')
      \<and> (\<forall>x. snd (symlinkat t dir name f) = Ok x \<longrightarrow> True)"
    using a new_entry_conf [OF a d, of "SymLink t" name 511]
    by (auto simp: symlinkat_def o same_outside_def split: option.split fobj.split)
qed

lemma lookup_agree:
  assumes "good U f" "agree U f f'" "dir \<notin> U" "name \<noteq> dotdot"
  shows "lookup dir name f' = lookup dir name f" "lookup dir name f = Ok (i, x) \<Longrightarrow> i \<notin> U \<and> obj f i = Some x \<and> (\<exists>es. obj f dir = Some (Directory es))"
proof -
  have o: "obj f' dir = obj f dir" using agree_obj assms by simp
  have e: "hm_get es name = Some j \<Longrightarrow> obj f dir = Some (Directory es) \<Longrightarrow> j \<notin> U \<and> obj f' j = obj f j" for es j
    using good_entry [OF assms(1,3,4)] obj_entries agree_obj [OF assms(2)] by (metis (no_types, lifting))
  show "lookup dir name f' = lookup dir name f" using e by (auto simp: lookup_def o split: option.split fobj.split)
  show "lookup dir name f = Ok (i, x) \<Longrightarrow> i \<notin> U \<and> obj f i = Some x \<and> (\<exists>es. obj f dir = Some (Directory es))"
    using e by (auto simp: lookup_def split: option.splits fobj.splits)
qed

lemma pconf_pure:
  assumes "\<And>f. fst (g f) = f" "\<And>f f'. good U f \<Longrightarrow> agree U f f' \<Longrightarrow> snd (g f) = snd (g f') \<and> (\<forall>x. snd (g f) = Ok x \<longrightarrow> P x)"
  shows "pconf U P g"
  using assms unfolding pconf_def by (metis same_outside_def)

lemma pconf_readlinkat: "dir \<notin> U \<Longrightarrow> name \<noteq> dotdot \<Longrightarrow> pconf U (\<lambda>_. True) (readlinkat dir name)"
  by (rule pconf_pure) (simp_all add: readlinkat_def lookup_agree(1))

lemma pconf_fstatat: "dir \<notin> U \<Longrightarrow> name \<noteq> dotdot \<Longrightarrow> pconf U (\<lambda>_. True) (fstatat_is_dir dir name)"
  by (rule pconf_pure) (simp_all add: fstatat_is_dir_def lookup_agree(1))

lemma pconf_fd:
  assumes "i \<notin> U"
  shows "pconf U (\<lambda>_. True) (fd_read i)" "pconf U (\<lambda>_. True) (fd_is_dir i)" "pconf U (\<lambda>_. True) (fd_mode i)" "pconf U (\<lambda>_. True) (readdir i)"
proof -
  show "pconf U (\<lambda>_. True) (fd_read i)" by (rule pconf_pure) (use agree_obj assms in \<open>auto simp: fd_read_def\<close>)
  show "pconf U (\<lambda>_. True) (fd_is_dir i)" by (rule pconf_pure) (use agree_obj assms in \<open>auto simp: fd_is_dir_def\<close>)
  show "pconf U (\<lambda>_. True) (fd_mode i)" by (rule pconf_pure) (use assms in \<open>auto simp: fd_mode_def agree_def\<close>)
  show "pconf U (\<lambda>_. True) (readdir i)" by (rule pconf_pure) (use agree_obj assms in \<open>auto simp: readdir_def\<close>)
qed

lemma pconf_unlinkat: "dir \<notin> U \<Longrightarrow> name \<noteq> dotdot \<Longrightarrow> pconf U (\<lambda>_. True) (unlinkat dir name rd)"
  unfolding pconf_def
proof (intro allI impI)
  fix f f' :: fs assume d: "dir \<notin> U" and nm: "name \<noteq> dotdot" and a: "good U f" "good U f'" "agree U f f'"
  have l: "lookup dir name f' = lookup dir name f" using lookup_agree(1) [OF a(1,3) d nm] .
  have e: "entries f' dir = entries f dir" using agree_entries [OF a(3) d] by simp
  note so = set_obj_conf [OF d inside_remove [OF a(1) d, of name]]
  show "good U (fst (unlinkat dir name rd f)) \<and> agree U (fst (unlinkat dir name rd f)) (fst (unlinkat dir name rd f'))
      \<and> same_outside U f (fst (unlinkat dir name rd f)) \<and> snd (unlinkat dir name rd f) = snd (unlinkat dir name rd f')
      \<and> (\<forall>x. snd (unlinkat dir name rd f) = Ok x \<longrightarrow> True)"
    unfolding unlinkat_def l e Let_def using a so(1) [OF a(1)] so(2) [OF a(3)] so(3) same_outside_refl
    by (auto split: sum.split prod.split fobj.split)
qed

lemma below_agree:
  assumes "good U f" "agree U f f'"
  shows "a \<notin> U \<Longrightarrow> below f' n a b = below f n a b"
proof (induction n arbitrary: a)
  case (Suc n)
  have e: "entries f' a = entries f a" using agree_entries [OF assms(2) Suc.prems] by simp
  have "list_ex (\<lambda>(m, j). m \<noteq> dotdot \<and> below f' n j b) (entries f a) = list_ex (\<lambda>(m, j). m \<noteq> dotdot \<and> below f n j b) (entries f a)"
    using Suc.IH entries_inside [OF assms(1) Suc.prems] by (force simp: list_ex_iff)
  then show ?case by (simp add: e)
qed simp

lemma pconf_renameat:
  assumes "sd \<notin> U" "dd \<notin> U" "sn \<noteq> dotdot" "dn \<noteq> dotdot"
  shows "pconf U (\<lambda>_. True) (renameat sd sn dd dn)"
  unfolding pconf_def
proof (intro allI impI)
  fix f f' :: fs assume a: "good U f" "good U f'" "agree U f f'"
  have l: "lookup sd sn f' = lookup sd sn f" using lookup_agree(1) [OF a(1,3) assms(1,3)] .
  have same: "same_outside U f f" by (simp add: same_outside_def)
  show "good U (fst (renameat sd sn dd dn f)) \<and> agree U (fst (renameat sd sn dd dn f)) (fst (renameat sd sn dd dn f'))
      \<and> same_outside U f (fst (renameat sd sn dd dn f)) \<and> snd (renameat sd sn dd dn f) = snd (renameat sd sn dd dn f')
      \<and> (\<forall>x. snd (renameat sd sn dd dn f) = Ok x \<longrightarrow> True)"
  proof (cases "lookup sd sn f")
    case (Inl e) then show ?thesis using a same by (simp add: renameat_def l)
  next
    case (Inr p)
    obtain i x where p: "p = (i, x)" by (cases p)
    have i: "i \<notin> U" using lookup_agree(2) [OF a(1,3) assms(1,3)] Inr p by blast
    have o: "obj f' dd = obj f dd" using agree_obj [OF a(3) assms(2)] by simp
    have nx: "f_next f' = f_next f" using a(3) by (simp add: agree_def)
    have bl: "below f' (f_next f) i dd = below f (f_next f) i dd" using below_agree [OF a(1,3) i] .
    let ?m1 = "\<lambda>g. set_obj sd (Directory (hm_remove sn (entries g sd))) g"
    let ?m2 = "\<lambda>g. set_obj dd (Directory (hm_insert dn i (entries (?m1 g) dd))) (?m1 g)"
    let ?m = "\<lambda>g. case x of Directory _ \<Rightarrow> set_obj i (Directory (hm_insert dotdot dd (entries (?m2 g) i))) (?m2 g) | _ \<Rightarrow> ?m2 g"
    have es: "entries f' sd = entries f sd" using agree_entries [OF a(3) assms(1)] by simp
    note s1 = set_obj_conf [OF assms(1) inside_remove [OF a(1) assms(1), of sn]]
    have g1: "good U (?m1 f)" "agree U (?m1 f) (?m1 f')" "same_outside U f (?m1 f)" using s1(1) [OF a(1)] s1(2) [OF a(3)] s1(3) es by simp_all
    have e2: "entries (?m1 f') dd = entries (?m1 f) dd" using agree_entries [OF g1(2) assms(2)] by simp
    note s2 = set_obj_conf [OF assms(2) inside_insert [OF g1(1) assms(2) i, of dn]]
    have m2: "good U (?m2 f)" "agree U (?m2 f) (?m2 f')" "same_outside U f (?m2 f)"
      using s2(1) [OF g1(1)] s2(2) [OF g1(2)] same_outside_trans [OF g1(3) s2(3)] unfolding e2 by blast+
    have e3: "entries (?m2 f') i = entries (?m2 f) i" using agree_entries [OF m2(2) i] by simp
    note s3 = set_obj_conf [OF i inside_insert [OF m2(1) i assms(2), of dotdot]]
    have m: "good U (?m f)" "agree U (?m f) (?m f')" "same_outside U f (?m f)"
      using m2 s3(1) [OF m2(1)] s3(2) [OF m2(2)] same_outside_trans [OF m2(3) s3(3)] unfolding e3 by (auto split: fobj.split)
    have oj: "obj f' j = obj f j" if "obj f dd = Some (Directory des)" "hm_get des dn = Some j" for des j
      using good_entry [OF a(1) assms(2,4)] obj_entries [OF that(1)] that(2) agree_obj [OF a(3)] by metis
    show ?thesis
      unfolding renameat_def l Inr p sum.case prod.case Let_def o nx bl
      using m a same oj by (auto split: option.split fobj.split)
  qed
qed

lemma pconf_fd_write: "i \<notin> U \<Longrightarrow> pconf U (\<lambda>_. True) (fd_write i d)"
  unfolding pconf_def
proof (intro allI impI)
  fix f f' :: fs assume i: "i \<notin> U" and a: "good U f" "good U f'" "agree U f f'"
  have o: "obj f' i = obj f i" using agree_obj [OF a(3) i] by simp
  note so = set_obj_conf [OF i inside_plain(1)]
  show "good U (fst (fd_write i d f)) \<and> agree U (fst (fd_write i d f)) (fst (fd_write i d f'))
      \<and> same_outside U f (fst (fd_write i d f)) \<and> snd (fd_write i d f) = snd (fd_write i d f') \<and> (\<forall>x. snd (fd_write i d f) = Ok x \<longrightarrow> True)"
    unfolding fd_write_def o using a so(1) [OF a(1)] so(2) [OF a(3)] so(3) by (simp add: same_outside_def split: option.split fobj.split)
qed

lemma pconf_fd_chmod: "i \<notin> U \<Longrightarrow> pconf U (\<lambda>_. True) (fd_chmod i m)"
  unfolding pconf_def
proof (intro allI impI)
  fix f f' :: fs assume i: "i \<notin> U" and a: "good U f" "good U f'" "agree U f f'"
  have o: "hm_get (f_objs f') i = hm_get (f_objs f) i" using a(3) i by (simp add: agree_def)
  have e: "hm_get (f_objs f) i = Some (m', x) \<Longrightarrow> entries (f\<lparr>f_objs := hm_insert i (m, x) (f_objs f)\<rparr>) j = entries f j" for m' x j
    by (simp add: entries_def obj_def)
  show "good U (fst (fd_chmod i m f)) \<and> agree U (fst (fd_chmod i m f)) (fst (fd_chmod i m f'))
      \<and> same_outside U f (fst (fd_chmod i m f)) \<and> snd (fd_chmod i m f) = snd (fd_chmod i m f') \<and> (\<forall>x. snd (fd_chmod i m f) = Ok x \<longrightarrow> True)"
    unfolding fd_chmod_def o using a i e by (auto simp: good_def agree_def same_outside_def split: option.split)
qed

lemmas pconf_calls = pconf_openat pconf_mkdirat pconf_symlinkat pconf_readlinkat pconf_fstatat pconf_fd pconf_unlinkat pconf_renameat
  pconf_fd_write pconf_fd_chmod

lemmas conf_intros = conf_return conf_fail conf_catch conf_syscall



lemma conf_any: "conf U P m \<Longrightarrow> conf U (\<lambda>_. True) m"
  by (erule conf_mono) simp




lemma file_name_plain [dest]: "file_name rel = Some n \<Longrightarrow> n \<noteq> dotdot"
  by (auto simp: file_name_def Let_def split: if_splits)






















section \<open>Directories are never created\<close>




section \<open>Pipes block the archive\<close>

abbreviation idle :: "nat \<Rightarrow> fs \<Rightarrow> fs" where
  "idle \<equiv> \<lambda>_ f. f"



lemma fst_reads [simp]: "fst (fd_is_dir i f) = f" "fst (fd_mode i f) = f" "fst (fd_read i f) = f" "fst (readdir i f) = f"
  "fst (openat d nm RDONLY 0 f) = f"
  by (simp_all add: fd_is_dir_def fd_mode_def fd_read_def readdir_def openat_def RDONLY_def split: option.split fobj.split)









section \<open>Entry names of an archive\<close>

text \<open>
  The name of an archive entry that is accepted lies below the destination, component by component, with no
  \<open>..\<close> left in it.
\<close>
theorem safe_join_contained:
  assumes "safe_join is_link dest name = Ok out"
  shows "\<exists>rel. out = dest @ rel \<and> dotdot \<notin> set rel \<and> (\<forall>c\<in>set rel. c \<noteq> [] \<and> slash \<notin> set c)"
proof -
  have ok: "safe_join_from is_link dest (path_comps name) = Ok out" "take (length dest) out = dest"
    using assms by (auto simp: safe_join_def rbind_def split: sum.splits if_splits)
  have pc: "c \<noteq> [] \<and> slash \<notin> set c" if "c \<in> set (path_comps name)" for c
    using that split_on_no_sep [of c slash name] by (auto simp: path_comps_def)
  have gen: "\<exists>k rel. out' = take k o0 @ rel \<and> set rel \<subseteq> {c \<in> set cs. c \<noteq> dotdot}" if "safe_join_from is_link o0 cs = Ok out'" for o0 cs out'
    using that
  proof (induction cs arbitrary: o0)
    case Nil then show ?case by (intro exI [of _ "length o0"]) simp
  next
    case (Cons c cs)
    show ?case
    proof (cases "c = dotdot")
      case True
      then obtain k rel where "out' = take k (butlast o0) @ rel" "set rel \<subseteq> {c \<in> set cs. c \<noteq> dotdot}"
        using Cons.IH [of "butlast o0"] Cons.prems by (auto split: if_splits)
      then show ?thesis by (intro exI [of _ "min k (length o0 - 1)"] exI [of _ rel]) (auto simp: butlast_conv_take min.commute)
    next
      case False
      then obtain k rel where k: "out' = take k (o0 @ [c]) @ rel" "set rel \<subseteq> {c \<in> set cs. c \<noteq> dotdot}"
        using Cons.IH [of "o0 @ [c]"] Cons.prems by (auto split: if_splits)
      show ?thesis
      proof (cases "k \<le> length o0")
        case True then show ?thesis using k by (intro exI [of _ k] exI [of _ rel]) auto
      next
        case F: False then show ?thesis using k False by (intro exI [of _ "length o0"] exI [of _ "c # rel"]) auto
      qed
    qed
  qed
  obtain k rel where k: "out = take k dest @ rel" "set rel \<subseteq> {c \<in> set (path_comps name). c \<noteq> dotdot}" using gen [OF ok(1)] by blast
  have "out = dest @ drop (length dest) out" using ok(2) by (metis append_take_drop_id)
  moreover have "set (drop (length dest) out) \<subseteq> set rel" by (auto simp: k(1) dest: in_set_dropD)
  ultimately show ?thesis using k(2) pc by (intro exI [of _ "drop (length dest) out"]) blast
qed

theorem safe_join_contained_witness:
  "safe_join (\<lambda>_. False) [''srv'', ''u''] ''a/../b/./c'' = Ok [''srv'', ''u'', ''b'', ''c''] \<and> (\<exists>rel. [''srv'', ''u'', ''b'', ''c''] = [''srv'', ''u''] @ rel)"
proof -
  have "safe_join (\<lambda>_. False) [''srv'', ''u''] ''a/../b/./c'' = Ok [''srv'', ''u'', ''b'', ''c'']" by code_simp
  then show ?thesis using safe_join_contained by blast
qed

section \<open>Bounds of an extraction\<close>

text \<open>The bytes in all files.\<close>

definition file_size :: "nat \<times> fobj \<Rightarrow> nat" where
  "file_size x = (case snd x of RegFile t \<Rightarrow> length t | _ \<Rightarrow> 0)"

definition disk_bytes :: "fs \<Rightarrow> nat" where
  "disk_bytes f = (\<Sum>e\<leftarrow>f_objs f. file_size (snd e))"

definition grows :: "nat \<Rightarrow> 'a io \<Rightarrow> bool" where
  "grows b m \<longleftrightarrow> (\<forall>s. hm_wf (f_objs (k_fs s)) \<longrightarrow> hm_wf (f_objs (k_fs (fst (m s)))) \<and> disk_bytes (k_fs (fst (m s))) \<le> disk_bytes (k_fs s) + b)"

lemma bytes_remove: "hm_wf m \<Longrightarrow> (\<Sum>e\<leftarrow>hm_remove i m. file_size (snd e)) + (case hm_get m i of Some x \<Rightarrow> file_size x | None \<Rightarrow> 0) = (\<Sum>e\<leftarrow>m. file_size (snd e))"
proof (induction m)
  case (Cons a m)
  have wf: "hm_wf m" "fst a \<notin> fst ` set m" using Cons.prems by (auto simp: hm_wf_def)
  show ?case
  proof (cases "fst a = i")
    case True
    then have "hm_remove i m = m" using wf(2) unfolding hm_remove_def by (intro filter_True) (force simp: image_iff)
    then show ?thesis using True by (cases a) (simp add: hm_remove_def hm_get_def)
  next
    case False
    then show ?thesis using Cons.IH [OF wf(1)] by (cases a) (simp add: hm_remove_def hm_get_def)
  qed
qed (simp add: hm_remove_def hm_get_def)

lemma bytes_insert: "hm_wf (f_objs f) \<Longrightarrow>
    disk_bytes (f\<lparr>f_objs := hm_insert i x (f_objs f)\<rparr>) + (case hm_get (f_objs f) i of Some y \<Rightarrow> file_size y | None \<Rightarrow> 0) = disk_bytes f + file_size x"
  using bytes_remove [of "f_objs f" i] by (simp add: disk_bytes_def hm_insert_def)

lemma bytes_set_obj:
  assumes "hm_wf (f_objs f)"
  shows "hm_wf (f_objs (set_obj i x f))" "disk_bytes (set_obj i x f) \<le> disk_bytes f + file_size (0, x)"
    "obj f i = Some (RegFile t) \<Longrightarrow> disk_bytes (set_obj i x f) + length t = disk_bytes f + file_size (0, x)"
  using assms bytes_insert [OF assms, of i "((case hm_get (f_objs f) i of Some (m, _) \<Rightarrow> m | None \<Rightarrow> 0), x)"]
  by (auto simp: set_obj_def obj_def file_size_def split: option.splits)

lemma bytes_new_entry:
  assumes "hm_wf (f_objs f)" "file_size (mode, x) = 0"
  shows "hm_wf (f_objs (new_entry d n mode x f)) \<and> disk_bytes (new_entry d n mode x f) \<le> disk_bytes f"
proof -
  let ?g = "f\<lparr>f_objs := hm_insert (f_next f) (mode, x) (f_objs f), f_next := f_next f + 1\<rparr>"
  have g: "hm_wf (f_objs ?g)" "disk_bytes ?g \<le> disk_bytes f"
    using assms bytes_insert [OF assms(1), of "f_next f" "(mode, x)"] by (auto simp: disk_bytes_def)
  show ?thesis
    using bytes_set_obj(1,2) [OF g(1), of d "Directory (hm_insert n (f_next f) (entries f d))"] g(2)
    by (simp add: new_entry_def file_size_def)
qed

lemma grows_intros:
  "grows 0 (io_return x)" "grows 0 (io_fail e)" "grows 0 m \<Longrightarrow> (\<And>e. grows 0 (h e)) \<Longrightarrow> grows 0 (io_catch m h)"
  by (auto simp: grows_def io_return_def io_fail_def io_catch_def split: prod.split sum.split) (metis fst_conv le_trans)+

lemma grows_mono: "grows a m \<Longrightarrow> a \<le> b \<Longrightarrow> grows b m"
  unfolding grows_def by (meson add_le_mono1 le_trans nat_add_left_cancel_le)

lemma grows_bind: "grows a m \<Longrightarrow> (\<And>x. grows b (k x)) \<Longrightarrow> grows (a + b) (io_bind m k)"
  unfolding grows_def io_bind_def
  by (auto split: prod.split sum.split) (metis add.assoc add_le_mono1 fst_conv le_add1 le_trans)+

lemma grows_bind0: "grows 0 m \<Longrightarrow> (\<And>x. grows b (k x)) \<Longrightarrow> grows b (io_bind m k)"
  using grows_bind [of 0 m b k] by simp

lemma grows_syscall:
  assumes "\<And>f. hm_wf (f_objs f) \<Longrightarrow> hm_wf (f_objs (fst (g f))) \<and> disk_bytes (fst (g f)) \<le> disk_bytes f + b"
  shows "grows b (syscall idle g)"
  using assms by (simp add: grows_def syscall_def split: prod.split) (metis fst_conv)

lemma grows_calls:
  "grows 0 (syscall idle (openat d n fl m))" "grows 0 (syscall idle (mkdirat d n))" "grows (length t) (syscall idle (fd_write i t))"
  "grows 0 (syscall idle (fd_chmod i md))"
proof -
  show "grows 0 (syscall idle (openat d n fl m))"
  proof (rule grows_syscall)
    fix f :: fs assume wf: "hm_wf (f_objs f)"
    have "disk_bytes (set_obj i (RegFile []) f) \<le> disk_bytes f" for i using bytes_set_obj(2) [OF wf, of i "RegFile []"] by (simp add: file_size_def)
    then show "hm_wf (f_objs (fst (openat d n fl m f))) \<and> disk_bytes (fst (openat d n fl m f)) \<le> disk_bytes f + 0"
      using wf bytes_set_obj(1) [OF wf] bytes_new_entry [OF wf, of m "RegFile []"]
      by (simp add: openat_def file_size_def split: option.split fobj.split)
  qed
  show "grows 0 (syscall idle (mkdirat d n))"
  proof (rule grows_syscall)
    fix f :: fs assume wf: "hm_wf (f_objs f)"
    show "hm_wf (f_objs (fst (mkdirat d n f))) \<and> disk_bytes (fst (mkdirat d n f)) \<le> disk_bytes f + 0"
      using wf bytes_new_entry [OF wf, of 493 "Directory [(dotdot, d)]"] by (simp add: mkdirat_def file_size_def split: option.split fobj.split)
  qed
  show "grows (length t) (syscall idle (fd_write i t))"
  proof (rule grows_syscall)
    fix f :: fs assume wf: "hm_wf (f_objs f)"
    have "disk_bytes (set_obj i (RegFile (u @ t)) f) \<le> disk_bytes f + length t" if "obj f i = Some (RegFile u)" for u
      using bytes_set_obj(3) [OF wf that, of "RegFile (u @ t)"] by (simp add: file_size_def)
    then show "hm_wf (f_objs (fst (fd_write i t f))) \<and> disk_bytes (fst (fd_write i t f)) \<le> disk_bytes f + length t"
      using wf bytes_set_obj(1) [OF wf] by (simp add: fd_write_def split: option.split fobj.split)
  qed
  show "grows 0 (syscall idle (fd_chmod i md))"
  proof (rule grows_syscall)
    fix f :: fs assume wf: "hm_wf (f_objs f)"
    have "disk_bytes (f\<lparr>f_objs := hm_insert i (md, x) (f_objs f)\<rparr>) \<le> disk_bytes f" if "hm_get (f_objs f) i = Some (m', x)" for x m'
      using bytes_insert [OF wf, of i "(md, x)"] that by (simp add: file_size_def)
    then show "hm_wf (f_objs (fst (fd_chmod i md f))) \<and> disk_bytes (fst (fd_chmod i md f)) \<le> disk_bytes f + 0"
      using wf by (auto simp: fd_chmod_def split: option.split)
  qed
qed

lemma grows_walk: "grows 0 (walk idle create fl mode cur cs)"
proof (induction cs arbitrary: cur)
  case (Cons name rest)
  then show ?case by (auto intro!: grows_bind0 grows_intros grows_calls)
qed (simp add: grows_intros)

lemma grows_open_dir_create: "grows 0 (open_dir_create idle root rel)"
  by (auto simp: open_dir_create_def open_relative_def Let_def split: option.split intro!: grows_bind0 grows_intros grows_calls grows_walk)

text \<open>A computation that yields a running total: what it adds to the disk is what it adds to the total, and no more than \<open>b\<close> when it fails.\<close>

definition tallied :: "nat \<Rightarrow> nat \<Rightarrow> nat \<Rightarrow> nat io \<Rightarrow> bool" where
  "tallied b mt tot m \<longleftrightarrow> (\<forall>s. hm_wf (f_objs (k_fs s)) \<longrightarrow> hm_wf (f_objs (k_fs (fst (m s)))) \<and>
     (case snd (m s) of Ok t \<Rightarrow> tot \<le> t \<and> t \<le> mt \<and> disk_bytes (k_fs (fst (m s))) \<le> disk_bytes (k_fs s) + (t - tot)
      | Err _ \<Rightarrow> disk_bytes (k_fs (fst (m s))) \<le> disk_bytes (k_fs s) + b))"

lemma tallied_fail: "tallied b mt tot (io_fail e)"
  by (simp add: tallied_def io_fail_def)

lemma growsD: "grows b m \<Longrightarrow> hm_wf (f_objs (k_fs s)) \<Longrightarrow> hm_wf (f_objs (k_fs (fst (m s)))) \<and> disk_bytes (k_fs (fst (m s))) \<le> disk_bytes (k_fs s) + b"
  by (simp add: grows_def)

lemma tallied_bind0:
  assumes "grows 0 m" "\<And>x. tallied b mt tot (k x)"
  shows "tallied b mt tot (io_bind m k)"
  unfolding tallied_def
proof (intro allI impI)
  fix s :: kst assume wf: "hm_wf (f_objs (k_fs s))"
  obtain t r where m: "m s = (t, r)" by fastforce
  have g: "hm_wf (f_objs (k_fs t))" "disk_bytes (k_fs t) \<le> disk_bytes (k_fs s)" using growsD [OF assms(1) wf] m by simp_all
  show "hm_wf (f_objs (k_fs (fst (io_bind m k s)))) \<and>
     (case snd (io_bind m k s) of Ok t \<Rightarrow> tot \<le> t \<and> t \<le> mt \<and> disk_bytes (k_fs (fst (io_bind m k s))) \<le> disk_bytes (k_fs s) + (t - tot)
      | Err _ \<Rightarrow> disk_bytes (k_fs (fst (io_bind m k s))) \<le> disk_bytes (k_fs s) + b)"
  proof (cases r)
    case (Inl e) then show ?thesis using g by (simp add: io_bind_def m)
  next
    case (Inr x)
    then have eq: "io_bind m k s = k x t" by (simp add: io_bind_def m)
    have "hm_wf (f_objs (k_fs (fst (k x t)))) \<and> (case snd (k x t) of Ok t' \<Rightarrow> tot \<le> t' \<and> t' \<le> mt \<and> disk_bytes (k_fs (fst (k x t))) \<le> disk_bytes (k_fs t) + (t' - tot)
      | Err _ \<Rightarrow> disk_bytes (k_fs (fst (k x t))) \<le> disk_bytes (k_fs t) + b)"
      using assms(2) g(1) unfolding tallied_def by blast
    then show ?thesis unfolding eq using g(2) by (auto split: sum.splits)
  qed
qed

lemma tallied_write:
  assumes "grows c m" "c \<le> b" "grows 0 sm" "\<not> bad \<Longrightarrow> tot + c \<le> mt"
  shows "tallied b mt tot (io_bind m (\<lambda>_. if bad then io_fail e else io_bind sm (\<lambda>_. io_return (tot + c))))"
  unfolding tallied_def
proof (intro allI impI)
  fix s :: kst assume wf: "hm_wf (f_objs (k_fs s))"
  let ?m = "io_bind m (\<lambda>_. if bad then io_fail e else io_bind sm (\<lambda>_. io_return (tot + c)))"
  have "grows (c + 0) ?m" by (rule grows_bind [OF assms(1)]) (simp add: grows_intros grows_bind0 [OF assms(3)])
  then have gm: "grows c ?m" by simp
  have g: "hm_wf (f_objs (k_fs (fst (?m s))))" "disk_bytes (k_fs (fst (?m s))) \<le> disk_bytes (k_fs s) + c" using growsD [OF gm wf] by blast+
  have "\<not> bad \<and> t = tot + c" if "snd (?m s) = Ok t" for t
    using that by (auto simp: io_bind_def io_fail_def io_return_def split: prod.splits sum.splits if_splits)
  then show "hm_wf (f_objs (k_fs (fst (?m s)))) \<and>
     (case snd (?m s) of Ok t \<Rightarrow> tot \<le> t \<and> t \<le> mt \<and> disk_bytes (k_fs (fst (?m s))) \<le> disk_bytes (k_fs s) + (t - tot)
      | Err _ \<Rightarrow> disk_bytes (k_fs (fst (?m s))) \<le> disk_bytes (k_fs s) + b)"
    using g assms(2,4) by (cases "snd (?m s)") auto
qed

lemma tallied_extract_file:
  assumes "tot \<le> mt" "mt < 2 ^ 64 - 1"
  shows "tallied (mt - tot + 1) mt tot (extract_file idle fd mf mt rel e tot)"
proof -
  define cap where "cap = min (sat_u64 (mf + 1)) (sat_u64 (mt - tot + 1))"
  define c where "c = min cap (length (te_data e))"
  have sm: "grows 0 (set_mode idle out md)" for out md by (auto simp: set_mode_def split: option.split intro!: grows_intros grows_calls)
  have w: "grows c (syscall idle (fd_write out (take cap (te_data e))))" for out
    using grows_calls(3) [of "take cap (te_data e)" out] by (simp add: c_def min.commute)
  have cb: "c \<le> mt - tot + 1" by (simp add: c_def cap_def sat_u64_def)
  have nb: "\<not> (mf < c \<or> mt < sat_u64 (tot + c)) \<Longrightarrow> tot + c \<le> mt" using assms(2) by (auto simp: sat_u64_def)
  have wr: "tallied (mt - tot + 1) mt tot (io_bind (syscall idle (fd_write out (take cap (te_data e)))) (\<lambda>_.
      if mf < c \<or> mt < sat_u64 (tot + c) then io_fail Refused else io_bind (set_mode idle out (te_mode e)) (\<lambda>_. io_return (tot + c))))" for out
    by (rule tallied_write [OF w cb sm nb])
  show ?thesis
    unfolding extract_file_def Let_def cap_def [symmetric] c_def [symmetric]
    by (auto split: option.split intro!: tallied_fail tallied_bind0 grows_open_dir_create grows_calls wr simp del: One_nat_def)
qed

lemma grows_extract_entries:
  assumes "mt < 2 ^ 64 - 1"
  shows "tot \<le> mt \<Longrightarrow> grows (mt - tot + 1) (extract_entries idle il dest fd me mf mt c tot es)"
proof (induction es arbitrary: c tot)
  case (Cons x xs)
  have fl: "grows (mt - tot + 1) (io_fail er :: unit io)" for er by (rule grows_mono [OF grows_intros(2)]) simp
  have wr: "grows (mt - tot + 1) (io_bind (extract_file idle fd mf mt rel e tot) (\<lambda>tot'. extract_entries idle il dest fd me mf mt (c + 1) tot' xs))" for rel e
    unfolding grows_def
  proof (intro allI impI)
    fix s :: kst assume wf: "hm_wf (f_objs (k_fs s))"
    let ?m = "extract_file idle fd mf mt rel e tot"
    have t: "hm_wf (f_objs (k_fs (fst (?m s)))) \<and>
       (case snd (?m s) of Ok t \<Rightarrow> tot \<le> t \<and> t \<le> mt \<and> disk_bytes (k_fs (fst (?m s))) \<le> disk_bytes (k_fs s) + (t - tot)
        | Err _ \<Rightarrow> disk_bytes (k_fs (fst (?m s))) \<le> disk_bytes (k_fs s) + (mt - tot + 1))"
      using tallied_extract_file [OF Cons.prems assms] wf unfolding tallied_def by blast
    show "hm_wf (f_objs (k_fs (fst (io_bind ?m (\<lambda>tot'. extract_entries idle il dest fd me mf mt (c + 1) tot' xs) s)))) \<and>
      disk_bytes (k_fs (fst (io_bind ?m (\<lambda>tot'. extract_entries idle il dest fd me mf mt (c + 1) tot' xs) s))) \<le> disk_bytes (k_fs s) + (mt - tot + 1)"
    proof (cases "snd (?m s)")
      case (Inl er) then show ?thesis using t by (cases "?m s") (simp add: io_bind_def)
    next
      case (Inr t')
      then obtain s1 where s1: "?m s = (s1, Ok t')" by (cases "?m s") simp
      then have b: "tot \<le> t'" "t' \<le> mt" "disk_bytes (k_fs s1) \<le> disk_bytes (k_fs s) + (t' - tot)" "hm_wf (f_objs (k_fs s1))" using t unfolding s1 by (auto simp only: fst_conv snd_conv sum.case)
      have "hm_wf (f_objs (k_fs (fst (extract_entries idle il dest fd me mf mt (c + 1) t' xs s1)))) \<and>
         disk_bytes (k_fs (fst (extract_entries idle il dest fd me mf mt (c + 1) t' xs s1))) \<le> disk_bytes (k_fs s1) + (mt - t' + 1)"
        using growsD [OF Cons.IH [OF b(2)] b(4)] by blast
      then show ?thesis using b(1-3) by (auto simp: io_bind_def s1)
    qed
  qed
  have dir: "grows (mt - tot + 1) (io_bind (open_dir_create idle fd rel) (\<lambda>_. extract_entries idle il dest fd me mf mt (c + 1) tot xs))" for rel
    by (rule grows_bind0 [OF grows_open_dir_create Cons.IH [OF Cons.prems]])
  show ?case using fl wr dir by (simp add: Let_def split: option.split sum.split)
qed (simp, rule grows_mono [OF grows_intros(1)], simp)

text \<open>
  C33: an archive cannot fill the disk. Whatever its headers claim and whatever its entries hold, an extraction adds at
  most two gigabytes and one byte to what is stored.
\<close>
theorem extraction_bounded:
  assumes "hm_wf (f_objs (k_fs s))"
  shows "disk_bytes (k_fs (fst (extract_tar_gz_into idle resolves is_link dest root archive es rel s))) \<le> disk_bytes (k_fs s) + 2 * 1024 ^ 3 + 1"
proof -
  have mt: "MAX_EXTRACT_TOTAL_BYTES < 2 ^ 64 - 1" by (simp add: MAX_EXTRACT_TOTAL_BYTES_def)
  have refused: "grows (Suc MAX_EXTRACT_TOTAL_BYTES) (io_fail Refused :: unit io)" by (rule grows_mono [OF grows_intros(2) le0])
  have "grows (MAX_EXTRACT_TOTAL_BYTES - 0 + 1) (extract_tar_gz_into idle resolves is_link dest root archive es rel)"
    unfolding extract_tar_gz_into_def extract_tar_gz_bounded_def
    using grows_bind0 [OF grows_open_dir_create grows_extract_entries [OF mt le0]] refused by simp
  then show ?thesis using growsD assms by (fastforce simp: MAX_EXTRACT_TOTAL_BYTES_def)
qed

section \<open>What is written is read\<close>

fun steps_to :: "fs \<Rightarrow> nat \<Rightarrow> string list \<Rightarrow> nat \<Rightarrow> bool" where
  "steps_to f cur [] fd \<longleftrightarrow> cur = fd"
| "steps_to f cur (n # ns) fd \<longleftrightarrow>
     (\<exists>es i. obj f cur = Some (Directory es) \<and> hm_get es n = Some i \<and> (ns \<noteq> [] \<longrightarrow> (\<exists>es'. obj f i = Some (Directory es'))) \<and> steps_to f i ns fd)"

definition fs_grown :: "fs \<Rightarrow> fs \<Rightarrow> bool" where
  "fs_grown f g \<longleftrightarrow> (\<forall>i es. obj f i = Some (Directory es) \<longrightarrow>
     (\<exists>es'. obj g i = Some (Directory es') \<and> (\<forall>n j. hm_get es n = Some j \<longrightarrow> hm_get es' n = Some j)))"

definition fs_wf :: "fs \<Rightarrow> bool" where
  "fs_wf f \<longleftrightarrow> (\<forall>i. f_next f \<le> i \<longrightarrow> hm_get (f_objs f) i = None)"

lemma fs_grown_refl: "fs_grown f f"
  by (simp add: fs_grown_def)

lemma fs_grown_trans: "fs_grown f g \<Longrightarrow> fs_grown g h \<Longrightarrow> fs_grown f h"
  unfolding fs_grown_def by metis

lemma steps_to_ext: "fs_grown f g \<Longrightarrow> steps_to f cur cs fd \<Longrightarrow> steps_to g cur cs fd"
proof (induction cs arbitrary: cur)
  case (Cons n ns)
  then obtain es i where e: "obj f cur = Some (Directory es)" "hm_get es n = Some i" "ns \<noteq> [] \<longrightarrow> (\<exists>es'. obj f i = Some (Directory es'))"
    "steps_to f i ns fd" by auto
  obtain es' where "obj g cur = Some (Directory es')" "hm_get es' n = Some i" using Cons.prems(1) e unfolding fs_grown_def by blast
  moreover have "ns \<noteq> [] \<longrightarrow> (\<exists>es'. obj g i = Some (Directory es'))" using Cons.prems(1) e(3) unfolding fs_grown_def by blast
  ultimately show ?case using Cons.IH [OF Cons.prems(1) e(4)] by auto
qed simp

lemma obj_set_obj: "obj (set_obj i x f) j = (if j = i then Some x else obj f j)"
  by (simp add: obj_def set_obj_get)

lemma obj_new_entry:
  assumes "fs_wf f" "obj f d = Some (Directory es)" "hm_get es n = None"
  shows "obj (new_entry d n mode x f) j = (if j = d then Some (Directory (hm_insert n (f_next f) es)) else if j = f_next f then Some x else obj f j)"
proof -
  have "obj (f\<lparr>f_objs := hm_insert (f_next f) (mode, x) (f_objs f), f_next := f_next f + 1\<rparr>) j = (if j = f_next f then Some x else obj f j)"
    by (simp add: obj_def)
  then show ?thesis using obj_entries [OF assms(2)] by (simp add: new_entry_def obj_set_obj)
qed

lemma new_entry_ext:
  assumes "fs_wf f" "obj f d = Some (Directory es)" "hm_get es n = None"
  shows "fs_grown f (new_entry d n mode x f)" "fs_wf (new_entry d n mode x f)"
proof -
  have dn: "d < f_next f" using assms(1,2) by (auto simp: fs_wf_def obj_def not_le [symmetric])
  have "obj f (f_next f) = None" using assms(1) by (simp add: fs_wf_def obj_def)
  then show "fs_grown f (new_entry d n mode x f)" using assms by (auto simp: fs_grown_def obj_new_entry [OF assms])
  show "fs_wf (new_entry d n mode x f)" using assms(1) dn by (auto simp: fs_wf_def new_entry_def set_obj_get)
qed

text \<open>What opening the last component for writing leaves behind.\<close>

lemma openat_create:
  assumes "fs_wf f" "openat cur n CREATE_TRUNC mode f = (g, Ok fd)"
  shows "fs_grown f g \<and> steps_to g cur [n] fd \<and> obj g fd = Some (RegFile []) \<and> fs_wf g"
proof -
  obtain es where es: "obj f cur = Some (Directory es)"
    using assms(2) by (auto simp: openat_def CREATE_TRUNC_def split: option.splits fobj.splits)
  show ?thesis
  proof (cases "hm_get es n")
    case None
    then have g: "g = new_entry cur n mode (RegFile []) f" "fd = f_next f" using assms(2) es by (auto simp: openat_def CREATE_TRUNC_def)
    have "cur \<noteq> f_next f" using assms(1) es by (auto simp: fs_wf_def obj_def)
    then show ?thesis using new_entry_ext [OF assms(1) es None, of mode "RegFile []"] by (auto simp: g obj_new_entry [OF assms(1) es None])
  next
    case (Some i)
    have o: "openat cur n CREATE_TRUNC mode f = (case obj f i of
        Some (RegFile t) \<Rightarrow> (set_obj i (RegFile []) f, Ok i) | Some (SymLink t) \<Rightarrow> (f, Err ELOOP) | Some Fifo \<Rightarrow> (f, Err Hangs)
      | Some (Directory _) \<Rightarrow> (f, Err EISDIR) | None \<Rightarrow> (f, Err ENOENT))"
      by (simp add: openat_def CREATE_TRUNC_def es Some cong: option.case_cong fobj.case_cong)
    obtain x where x: "obj f i = Some x" using assms(2) unfolding o by (cases "obj f i") simp_all
    have "\<exists>t. x = RegFile t" using assms(2) unfolding o x option.case by (cases x) simp_all
    then obtain t where xt: "x = RegFile t" by blast
    have t: "obj f i = Some (RegFile t)" "g = set_obj i (RegFile []) f" "fd = i" using assms(2) unfolding o x xt by auto
    have "cur \<noteq> i" using es t(1) by auto
    moreover have "fs_wf g" using assms(1) t(1) by (auto simp: fs_wf_def t(2) set_obj_get obj_def split: option.splits)
    ultimately show ?thesis using es Some t by (auto simp: fs_grown_def obj_set_obj)
  qed
qed

lemma openat_dir:
  assumes "openat cur n DIRECTORY mode f = (g, Ok fd)"
  shows "g = f \<and> steps_to f cur [n] fd \<and> (\<exists>es. obj f fd = Some (Directory es))"
  using assms by (auto simp: openat_def DIRECTORY_def RDONLY_def split: option.splits fobj.splits)

lemma mkdirat_ext:
  assumes "fs_wf f" "mkdirat cur n f = (g, r)"
  shows "fs_grown f g \<and> fs_wf g"
proof (cases "\<exists>es. obj f cur = Some (Directory es) \<and> hm_get es n = None")
  case True
  then obtain es where es: "obj f cur = Some (Directory es)" "hm_get es n = None" by blast
  then show ?thesis using new_entry_ext [OF assms(1) es, of 493 "Directory [(dotdot, cur)]"] assms(2) by (auto simp: mkdirat_def)
next
  case False
  then have "g = f" using assms(2) by (auto simp: mkdirat_def split: option.splits fobj.splits if_splits)
  then show ?thesis using assms(1) by (simp add: fs_grown_refl)
qed

lemma walk_write:
  assumes "fs_wf (k_fs s)" "cs \<noteq> []" "walk idle True CREATE_TRUNC mode cur cs s = (t, Ok fd)"
  shows "fs_grown (k_fs s) (k_fs t) \<and> steps_to (k_fs t) cur cs fd \<and> obj (k_fs t) fd = Some (RegFile []) \<and> list_all cstring cs"
  using assms
proof (induction cs arbitrary: cur s)
  case (Cons n ns)
  have cn: "cstring n" using Cons.prems(3) by (auto simp: io_fail_def split: if_splits)
  show ?case
  proof (cases "ns = []")
    case True
    obtain g where "openat cur n CREATE_TRUNC mode (k_fs s) = (g, Ok fd)" "k_fs t = g"
      using Cons.prems(3) True cn by (auto simp: syscall_def split: prod.splits)
    then show ?thesis using openat_create [OF Cons.prems(1)] True cn by auto
  next
    case False
    define step where "step = io_catch (syscall idle (openat cur n DIRECTORY mode))
             (\<lambda>e. if e = ENOENT \<and> True then
                io_bind (io_catch (syscall idle (mkdirat cur n)) (\<lambda>e. if e = EEXIST then io_return () else io_fail e))
                  (\<lambda>_. syscall idle (openat cur n DIRECTORY 0))
              else io_fail e)"
    have eq: "walk idle True CREATE_TRUNC mode cur (n # ns) s = io_bind step (\<lambda>fd. walk idle True CREATE_TRUNC mode fd ns) s"
      using False cn by (simp add: step_def)
    obtain u i where u: "step s = (u, Ok i)" "walk idle True CREATE_TRUNC mode i ns u = (t, Ok fd)"
      using Cons.prems(3) unfolding eq by (auto simp: io_bind_def split: prod.splits sum.splits)
    have st: "fs_grown (k_fs s) (k_fs u) \<and> fs_wf (k_fs u) \<and> steps_to (k_fs u) cur [n] i \<and> (\<exists>es. obj (k_fs u) i = Some (Directory es))"
    proof (cases "openat cur n DIRECTORY mode (k_fs s)")
      case (Pair g r)
      show ?thesis
      proof (cases r)
        case (Inr j)
        then have "u = \<lparr>k_fs = g, k_tick = k_tick s + 1\<rparr>" "i = j" using u(1) Pair by (auto simp: step_def io_catch_def syscall_def)
        then show ?thesis using openat_dir [of cur n mode "k_fs s" g j] Pair Inr Cons.prems(1) by (auto simp: fs_grown_refl)
      next
        case (Inl e)
        have gs: "g = k_fs s" using Pair Inl by (auto simp: openat_def DIRECTORY_def RDONLY_def split: option.splits fobj.splits)
        obtain h r' where h: "mkdirat cur n (k_fs s) = (h, r')" by fastforce
        have "openat cur n DIRECTORY 0 h = (k_fs u, Ok i)"
          using u(1) Pair Inl gs h
          by (auto simp: step_def io_catch_def io_bind_def syscall_def io_fail_def io_return_def split: if_splits prod.splits sum.splits)
        then show ?thesis using openat_dir [of cur n 0 h "k_fs u" i] mkdirat_ext [OF Cons.prems(1) h] by auto
      qed
    qed
    then have ih: "fs_grown (k_fs u) (k_fs t) \<and> steps_to (k_fs t) i ns fd \<and> obj (k_fs t) fd = Some (RegFile []) \<and> list_all cstring ns"
      using Cons.IH [OF _ False u(2)] by blast
    have "steps_to (k_fs t) cur [n] i" using steps_to_ext ih st by blast
    moreover have "\<exists>es. obj (k_fs t) i = Some (Directory es)" using ih st unfolding fs_grown_def by blast
    ultimately show ?thesis using ih st fs_grown_trans cn by auto
  qed
qed simp

lemma walk_read:
  assumes "steps_to (k_fs s) cur cs fd" "cs \<noteq> []" "list_all cstring cs" "obj (k_fs s) fd = Some (RegFile d)"
  shows "\<exists>t. walk idle False RDONLY 0 cur cs s = (t, Ok fd) \<and> k_fs t = k_fs s"
  using assms
proof (induction cs arbitrary: cur s)
  case (Cons n ns)
  obtain es i where e: "obj (k_fs s) cur = Some (Directory es)" "hm_get es n = Some i" "ns \<noteq> [] \<longrightarrow> (\<exists>es'. obj (k_fs s) i = Some (Directory es'))"
    "steps_to (k_fs s) i ns fd" using Cons.prems(1) by auto
  show ?case
  proof (cases "ns = []")
    case True
    then show ?thesis using e Cons.prems by (simp add: syscall_def openat_def RDONLY_def)
  next
    case False
    then obtain es' where es': "obj (k_fs s) i = Some (Directory es')" using e(3) by blast
    let ?u = "\<lparr>k_fs = k_fs s, k_tick = k_tick s + 1\<rparr>"
    have "syscall idle (openat cur n DIRECTORY 0) s = (?u, Ok i)" using e es' by (simp add: syscall_def openat_def DIRECTORY_def RDONLY_def)
    then have "walk idle False RDONLY 0 cur (n # ns) s = walk idle False RDONLY 0 i ns ?u"
      using False Cons.prems(3) by (simp add: io_bind_def io_catch_def)
    then show ?thesis using Cons.IH [of ?u i] e(4) False Cons.prems(3,4) by simp
  qed
qed simp

text \<open>
  C31: a file that was written is read back byte for byte, at the same path, however deep it is and whatever of its
  directories had to be created.
\<close>
theorem write_then_read:
  assumes "fs_wf (k_fs s)" "write_file idle root rel d s = (t, Ok ())" "length d \<le> max_bytes" "path_comps rel \<noteq> []"
  shows "snd (read_file idle root rel max_bytes t) = Ok d"
proof -
  have nd: "dotdot \<notin> set (path_comps rel)"
    using assms(2) by (auto simp: write_file_def open_relative_def Let_def io_bind_def io_fail_def split: if_splits)
  obtain u fd where u: "walk idle True CREATE_TRUNC 420 root (path_comps rel) s = (u, Ok fd)" "syscall idle (fd_write fd d) u = (t, Ok ())"
    using assms(2) nd by (auto simp: write_file_def open_relative_def Let_def io_bind_def split: prod.splits sum.splits)
  have w: "steps_to (k_fs u) root (path_comps rel) fd" "obj (k_fs u) fd = Some (RegFile [])" "list_all cstring (path_comps rel)"
    using walk_write [OF assms(1,4) u(1)] by simp_all
  have t: "k_fs t = set_obj fd (RegFile d) (k_fs u)" using u(2) w(2) by (auto simp: syscall_def fd_write_def)
  have o: "obj (k_fs t) fd = Some (RegFile d)" by (simp add: t obj_set_obj)
  have "fs_grown (k_fs u) (k_fs t)" using w(2) by (auto simp: t fs_grown_def obj_set_obj)
  then obtain v where v: "walk idle False RDONLY 0 root (path_comps rel) t = (v, Ok fd)" "k_fs v = k_fs t"
    using walk_read [OF steps_to_ext [OF _ w(1)] assms(4) w(3) o] by blast
  show ?thesis
    using v o nd assms(3) by (simp add: read_file_def open_relative_def Let_def io_bind_def syscall_def fd_is_dir_def fd_read_def io_return_def)
qed

section \<open>Witnesses\<close>

text \<open>A server with one file in a directory, next to a secret outside; its process swaps the directory for a symbolic link.\<close>

definition small_fs :: "string \<Rightarrow> fs" where
  "small_fs secret = \<lparr>f_objs = [(1, 493, Directory [(dotdot, 8), (''d'', 2)]), (2, 493, Directory [(dotdot, 1), (''f'', 3)]), (3, 420, RegFile ''x''),
     (4, 511, SymLink ''/etc''), (8, 493, Directory [(''passwd'', 9)]), (9, 384, RegFile secret)], f_next = 10\<rparr>"





theorem write_then_read_witness:
  "snd (read_file idle 1 ''d/new/f'' 10 (fst (write_file idle 1 ''d/new/f'' ''y'' \<lparr>k_fs = small_fs [], k_tick = 0\<rparr>))) = Ok ''y''"
proof -
  have w: "fs_wf (k_fs \<lparr>k_fs = small_fs [], k_tick = 0\<rparr>)" by (auto simp: fs_wf_def small_fs_def hm_get_def)
  have o: "snd (write_file idle 1 ''d/new/f'' ''y'' \<lparr>k_fs = small_fs [], k_tick = 0\<rparr>) = Ok ()" by code_simp
  have p: "path_comps ''d/new/f'' \<noteq> []" by code_simp
  have l: "length ''y'' \<le> 10" by simp
  show ?thesis using write_then_read [OF w _ l p, of 1 "fst (write_file idle 1 ''d/new/f'' ''y'' \<lparr>k_fs = small_fs [], k_tick = 0\<rparr>)"] o
    by (metis prod.collapse)
qed


theorem extraction_bounded_witness:
  "disk_bytes (k_fs (fst (extract_tar_gz_into idle (\<lambda>_. True) (\<lambda>_. False) [''srv'', ''u''] 1 ''a.tar''
      [Some \<lparr>te_kind = KFile, te_path = ''z'', te_declared = 0, te_data = ''data'', te_mode = None\<rparr>] [] \<lparr>k_fs = small_fs [], k_tick = 0\<rparr>)))
   \<le> 1 + 2 * 1024 ^ 3 + 1"
proof -
  have w: "hm_wf (f_objs (k_fs \<lparr>k_fs = small_fs [], k_tick = 0\<rparr>))" by (simp add: small_fs_def hm_wf_def)
  have "disk_bytes (small_fs []) = 1" by (simp add: small_fs_def disk_bytes_def file_size_def)
  then show ?thesis using extraction_bounded [OF w] by simp
qed

end
