(* ===== verification/Spec2Isabelle.thy ===== *)
theory Spec2Isabelle
  imports Keys Allocations Sessions Totp RateLimit Nonces Nodes Supervisor Scheduler Templates Idempotency Deliveries Watchers Files
begin

text \<open>
  VoltPanel is a control panel for game and application servers. One panel process keeps its state in
  SQLite, serves a REST API to browsers and API clients, supervises workload processes on its own
  machine and drives \<open>voltd\<close> agents on other machines through a signed HTTP protocol. This development
  models the parts of it that decide: who may do what, which port, node and process a server gets,
  when a schedule, a restart or a retry runs, and what is accepted over the wire.

  \<^bold>\<open>How the parts fit.\<close> A request carries a session cookie (\<open>auth.rs\<close>) or an API key
  (\<open>services/keys.rs\<close>); the server capability it needs is computed from ownership, subuser rows and
  squads (\<open>models.rs\<close>, \<open>capability.rs\<close>); the handler then changes rows (\<open>models.rs\<close>, \<open>nodes.rs\<close>), starts
  or stops a process (\<open>services/proc.rs\<close>, whose command comes from \<open>services/blueprint.rs\<close>), or sends a
  signed request to an agent (\<open>node_protocol.rs\<close>, \<open>services/node.rs\<close>, \<open>bin/voltd.rs\<close>). Background tasks
  tick the schedules (\<open>services/scheduler.rs\<close>) and restart crashed processes.

  \<^bold>\<open>Theories.\<close>
  \<^item> \<open>Prelude\<close>: results, saturating and wrapping integers, byte strings (\<open>trim\<close>, \<open>split\<close>, \<open>find\<close>),
    decimal printing and parsing, hash maps, and the locale \<open>invariant_system\<close> every state machine
    below interprets.
  \<^item> \<open>Capability\<close> (\<open>capability.rs\<close>): the capability enumeration, roles, grants, stored permission rows.
    Shows that a stored row fails closed and that a checked grant never exceeds the granter's.
  \<^item> \<open>Store\<close> (\<open>models.rs\<close>, \<open>db.rs\<close>): the SQLite rows as records, the elementary row operations, the audit log.
  \<^item> \<open>Access\<close> (\<open>models.rs\<close>, subusers and squads): the effective grant of a user on a server and every
    membership operation. Shows that no squad operation lets an actor hand out or take away more than
    the actor holds and that a scoped key only narrows.
  \<^item> \<open>Keys\<close> (\<open>services/keys.rs\<close>): creation, listing, revocation and authentication of API keys.
  \<^item> \<open>Allocations\<close> (\<open>models.rs\<close>, \<open>api/allocations.rs\<close>): port allocations and the four handlers. Shows the
    table invariant over every sequence of operations, the refinement of an abstract port map, and that
    a refused request changes nothing.
  \<^item> \<open>Sessions\<close>, \<open>Totp\<close>, \<open>RateLimit\<close> (\<open>auth.rs\<close>): session creation, eviction and pruning, recovery codes;
    base32, the TOTP window, single use of codes; the token bucket.
  \<^item> \<open>NodeProtocol\<close> (\<open>node_protocol.rs\<close>, \<open>bin/voltd.rs\<close>): canonical strings, signatures, signed responses
    and stream footers. \<open>Nonces\<close>: both replay ledgers behind the locale \<open>replay_guard\<close>.
  \<^item> \<open>Nodes\<close> (\<open>nodes.rs\<close>): enrolment, heartbeats, reservations, placement, drain.
  \<^item> \<open>Supervisor\<close> (\<open>services/proc.rs\<close>, \<open>models.rs\<close>): starts, stops, exits, automatic restarts and the crash
    budget as a step relation; the notification ring.
  \<^item> \<open>Scheduler\<close> (\<open>services/scheduler.rs\<close>, \<open>models.rs\<close>): cron normalisation, flow gates, the claim and
    recovery of runs, task chains with retries, and the tick.
  \<^item> \<open>Templates\<close> (\<open>services/blueprint.rs\<close>): typed inputs, placeholder rendering, shell quoting. A small
    model of how \<open>sh\<close> splits a command line is the specification the quoting is proved against.
  \<^item> \<open>Egress\<close> (\<open>services/webhooks.rs\<close>, \<open>services/files.rs\<close>, \<open>config.rs\<close>): the two guards on outgoing
    connections, as octet and mask tests and as range tables, and the remote pull with its redirects.
  \<^item> \<open>Requests\<close> (\<open>api/mod.rs\<close>, \<open>config.rs\<close>, \<open>main.rs\<close>): the layers in front of every handler (host allowlist,
    flood gate, same-origin check), the client address behind proxies, and the two extractors. Composes
    \<open>Keys\<close>, \<open>Sessions\<close>, \<open>RateLimit\<close> and \<open>Egress\<close>.
  \<^item> \<open>Idempotency\<close> (\<open>api/mod.rs\<close>): the replay cache for \<open>Idempotency-Key\<close> requests; a step relation
    interleaves the critical sections of any number of requests.
  \<^item> \<open>Webhooks\<close>, \<open>Deliveries\<close> (\<open>services/webhooks.rs\<close>): subscriptions, secrets at rest and the ring of
    recent events; the delivery queue, claims and leases, retries, the circuit breaker and pruning, with a
    step relation over any number of dispatchers.
  \<^item> \<open>Console\<close> (\<open>services/console.rs\<close>): the ring of numbered lines and its pending partial line, live events,
    resuming clients, and the log writer with its sanitizer. The ring is proved against the console that
    never forgets, and the lines against the unchunked output.
  \<^item> \<open>Watchers\<close> (\<open>services/watcher.rs\<close>, \<open>models.rs\<close>, \<open>api/watchers.rs\<close>): the table, the version-stamped cache,
    the cooldown, the spawned actions as separate steps, the handlers, and the feed from \<open>Console\<close>.
  \<^item> \<open>Files\<close> (\<open>services/files.rs\<close>): paths, the walk below a server's root, and the operations, archives and
    extraction built on it, over inodes that a concurrent process may rearrange between any two system
    calls. The predicate \<open>conf\<close> (changes nothing outside, learns nothing from outside) is closed under the
    monadic operations, so the proof for each operation follows its text.
  \<^item> This theory: how the schedule gates of \<open>Scheduler\<close> and the event ring of \<open>Webhooks\<close> work together.

  \<^bold>\<open>Conventions.\<close> A Rust function is a HOL function of the same name; a handler that changes state takes
  and returns it. Errors are values (\<open>Err\<close>), one constructor per message. The clock, random values,
  cryptographic primitives, JSON and URL parsing, DNS and floating-point rounding are arguments; what
  a theorem relies on of them is a named hypothesis and the theorem's witness instantiates it.
  Interleavings are step relations: each step is one critical section or one transaction of the code.
  Loops are structurally recursive or have a termination proof; only the recursive walks of \<open>Files\<close> (copy,
  delete, archive) take a bound on the depth, because a concurrent process can make a tree deeper while it is
  walked, and what is proved of them holds for every bound.

  \<^bold>\<open>Not modelled.\<close> Argon2 and SHA/HMAC themselves (third-party crates); process spawning, cgroups and
  namespaces (\<open>isolation.rs\<close>), TLS material (\<open>tls.rs\<close>), the schema migrations of \<open>db.rs\<close>, routing in
  \<open>main.rs\<close> and \<open>web/mod.rs\<close>, and the backup and database back ends, which drive other programs; the HTTP handlers of \<open>api/\<close> that only translate between JSON and the operations above.
\<close>

section \<open>Signal gates and the event ring\<close>





end
